(* ===== verification/Valve_Prelude.thy ===== *)
theory Valve_Prelude
  imports Main
begin

text \<open>
  What every theory of the development shares: the fact collections, the machine integers
  of Go, and the few facts about them the components need.

  A Go \<^verbatim>\<open>int64\<close> is an \<^typ>\<open>int\<close> in the range of \<open>in64\<close>; every \<open>+\<close>, \<open>-\<close>, unary \<open>-\<close>
  and \<open>*\<close> of the source on such values is \<open>i64_add\<close>, \<open>i64_sub\<close>, \<open>i64_neg\<close> and \<open>i64_mul\<close>,
  which wrap around at 64 bits in two's complement, as the language specifies.

  The collections: \<open>i64_defs\<close> unfolds the wrapping operations, \<open>f64_simps\<close> holds the
  rewrite rules of the floating-point layer, \<open>api_defs\<close> the constructors of default values
  and the limit-type constants, and \<open>frames\<close> the facts that an operation leaves a part of its state alone.
\<close>

named_theorems i64_defs "the wrapping operations on 64-bit integers"
named_theorems f64_simps "rewrite rules of the floating-point layer"
named_theorems api_defs "zero values and constants of the api package"
named_theorems frames "parts of the state an operation does not touch"

section \<open>64-bit signed integers\<close>

type_synonym int64 = int

definition wrap64 :: "int \<Rightarrow> int64" where
  "wrap64 x = (x + 2 ^ 63) mod 2 ^ 64 - 2 ^ 63"

definition in64 :: "int \<Rightarrow> bool" where
  "in64 x \<longleftrightarrow> - (2 ^ 63) \<le> x \<and> x < 2 ^ 63"

definition i64_add :: "int64 \<Rightarrow> int64 \<Rightarrow> int64" where
  "i64_add a b = wrap64 (a + b)"

definition i64_sub :: "int64 \<Rightarrow> int64 \<Rightarrow> int64" where
  "i64_sub a b = wrap64 (a - b)"

definition i64_mul :: "int64 \<Rightarrow> int64 \<Rightarrow> int64" where
  "i64_mul a b = wrap64 (a * b)"

definition i64_neg :: "int64 \<Rightarrow> int64" where
  "i64_neg a = wrap64 (- a)"

text \<open>Go's \<open>/\<close> on integers truncates towards zero (the only quotient that overflows,
  the least value by \<open>-1\<close>, does not occur in the source).\<close>

definition i64_quot :: "int64 \<Rightarrow> int64 \<Rightarrow> int64" where
  "i64_quot a b = sgn a * sgn b * (\<bar>a\<bar> div \<bar>b\<bar>)"

lemma wrap64_in64 [simp]: "in64 (wrap64 x)"
proof -
  have "0 \<le> (x + 2 ^ 63) mod 2 ^ 64" and "(x + 2 ^ 63) mod 2 ^ 64 < 2 ^ 64"
    by (rule pos_mod_sign pos_mod_bound; simp)+
  then show ?thesis by (simp add: in64_def wrap64_def)
qed

lemma wrap64_id [simp]: "in64 x \<Longrightarrow> wrap64 x = x"
  by (simp add: in64_def wrap64_def)

lemma wrap64_idem [simp]: "wrap64 (wrap64 x) = wrap64 x"
  by simp

lemma i64_in64 [simp]:
  "in64 (i64_add a b)" "in64 (i64_sub a b)" "in64 (i64_mul a b)" "in64 (i64_neg a)"
  by (simp_all add: i64_add_def i64_sub_def i64_mul_def i64_neg_def)

lemma i64_exact [i64_defs]:
  "in64 (a + b) \<Longrightarrow> i64_add a b = a + b"
  "in64 (a - b) \<Longrightarrow> i64_sub a b = a - b"
  "in64 (a * b) \<Longrightarrow> i64_mul a b = a * b"
  "in64 (- a) \<Longrightarrow> i64_neg a = - a"
  by (simp_all add: i64_add_def i64_sub_def i64_mul_def i64_neg_def)

lemma in64_between: "in64 a \<Longrightarrow> in64 b \<Longrightarrow> a \<le> x \<Longrightarrow> x \<le> b \<Longrightarrow> in64 x"
  by (simp add: in64_def)

lemma in64_zero [simp]: "in64 0"
  by (simp add: in64_def)

lemma in64_small: "-1 \<le> x \<Longrightarrow> x \<le> 2 ^ 53 \<Longrightarrow> in64 x"
  by (simp add: in64_def)

text \<open>The difference of two values of the same sign never wraps.\<close>

lemma in64_diff_nonneg: "in64 a \<Longrightarrow> in64 b \<Longrightarrow> 0 \<le> a \<Longrightarrow> 0 \<le> b \<Longrightarrow> in64 (a - b)"
  by (simp add: in64_def)

lemma in64_neg_iff: "in64 (- x) \<longleftrightarrow> - (2 ^ 63) < x \<and> x \<le> 2 ^ 63"
  by (auto simp: in64_def)

section \<open>Results and maps\<close>

text \<open>A Go function that returns a value and an error returns \<open>Inl\<close> of the error or
  \<open>Inr\<close> of the value: the source never returns a useful value beside an error.\<close>

type_synonym ('e, 'a) result = "'e + 'a"

definition is_ok :: "('e, 'a) result \<Rightarrow> bool" where
  "is_ok r = (case r of Inl _ \<Rightarrow> False | Inr _ \<Rightarrow> True)"

lemma is_ok_simps [simp]: "is_ok (Inr a)" "\<not> is_ok (Inl e)"
  by (simp_all add: is_ok_def)

text \<open>Deleting from a Go map every entry that satisfies a test, in whatever order the
  iteration visits them.\<close>

definition map_drop :: "('v \<Rightarrow> bool) \<Rightarrow> ('k \<rightharpoonup> 'v) \<Rightarrow> ('k \<rightharpoonup> 'v)" where
  "map_drop P m = (\<lambda>k. case m k of None \<Rightarrow> None | Some v \<Rightarrow> if P v then None else Some v)"

lemma map_drop_Some [simp]: "map_drop P m k = Some v \<longleftrightarrow> m k = Some v \<and> \<not> P v"
  by (auto simp: map_drop_def split: option.splits)

lemma map_drop_None: "map_drop P m k = None \<longleftrightarrow> (\<forall>v. m k = Some v \<longrightarrow> P v)"
  by (auto simp: map_drop_def split: option.splits)

lemma map_drop_keep: "m k = Some v \<Longrightarrow> \<not> P v \<Longrightarrow> map_drop P m k = Some v"
  by simp

lemma map_drop_idem [simp]: "map_drop P (map_drop P m) = map_drop P m"
  by (rule ext) (auto simp: map_drop_def split: option.splits)

lemma map_drop_empty [simp]: "map_drop P Map.empty = Map.empty"
  by (rule ext) (simp add: map_drop_def)

text \<open>The loop the source runs, for an iteration order \<open>ks\<close> that covers the keys.\<close>

fun drop_loop :: "('v \<Rightarrow> bool) \<Rightarrow> 'k list \<Rightarrow> ('k \<rightharpoonup> 'v) \<Rightarrow> ('k \<rightharpoonup> 'v)" where
  "drop_loop P [] m = m"
| "drop_loop P (k # ks) m =
     drop_loop P ks (case m k of None \<Rightarrow> m | Some v \<Rightarrow> if P v then m(k := None) else m)"

lemma drop_loop_apply:
  "drop_loop P ks m k = (if k \<in> set ks then map_drop P m k else m k)"
  by (induction ks arbitrary: m) (auto simp: map_drop_def split: option.splits)

lemma drop_loop_map_drop: "dom m \<subseteq> set ks \<Longrightarrow> drop_loop P ks m = map_drop P m"
  by (rule ext) (auto simp: drop_loop_apply map_drop_def split: option.splits)

end
