(* ===== verification/Go_Float.thy ===== *)
theory Go_Float
  imports Complex_Main "HOL-Library.Log_Nat" Valve_Prelude
begin

text \<open>
  Go's \<^verbatim>\<open>float64\<close>. A finite double is the rational number it denotes; the arithmetic
  operations compute the exact rational result and round it to the nearest double, ties to
  the even significand (IEEE 754 binary64, the rounding Go prescribes): \<open>rnd64\<close>. A double
  has a significand of 53 bits and an exponent of at least \<open>-1074\<close> (\<open>is_f64\<close>); subnormal
  numbers are covered. The largest exponent is not imposed: the values of the bucket code
  are quotients, products and sums of 64-bit integers and constants and stay far below the
  overflow threshold, so infinities and NaN do not arise. Every operation is rounded on
  its own, as on amd64; the fused multiply-add that the language lets a compiler emit on
  other targets is not modelled.

  The locale \<open>nearest_rounding\<close> states what the bucket code relies on, that an operation
  returns a representable number nearest to the exact result; its consequences (rounding
  is the identity on doubles, is monotone, keeps bounds that are doubles) are proved there
  once and interpreted for \<open>rnd64\<close>.
\<close>

type_synonym float64 = rat

section \<open>Rounding to binary64\<close>

text \<open>The exponent of the binade of a positive number: \<open>2 ^ ilog2 x \<le> x < 2 ^ (ilog2 x + 1)\<close>.\<close>

definition ilog2 :: "rat \<Rightarrow> int" where
  "ilog2 x = (let (p, q) = quotient_of x; e = bitlen p - bitlen q
              in if 2 powi e \<le> x then e else e - 1)"

text \<open>Rounding to an integer, ties to even.\<close>

definition rne :: "rat \<Rightarrow> int" where
  "rne x = (let f = \<lfloor>x\<rfloor>; d = x - of_int f
            in if d < 1/2 then f else if 1/2 < d then f + 1
               else if even f then f else f + 1)"

text \<open>The exponent of the last bit of the significand, and the rounding.\<close>

definition f64_exp :: "rat \<Rightarrow> int" where
  "f64_exp x = max (-1074) (ilog2 \<bar>x\<bar> - 52)"

definition rnd64 :: "rat \<Rightarrow> rat" where
  "rnd64 x = (if x = 0 then 0 else of_int (rne (x / 2 powi f64_exp x)) * 2 powi f64_exp x)"

text \<open>The representable numbers.\<close>

definition is_f64 :: "rat \<Rightarrow> bool" where
  "is_f64 x \<longleftrightarrow> (\<exists>m e. x = of_int m * 2 powi e \<and> \<bar>m\<bar> \<le> 2 ^ 53 \<and> -1074 \<le> e)"

lemma bitlen_powi:
  assumes "0 < p"
  shows "2 powi (bitlen p - 1) \<le> (of_int p :: rat)" and "(of_int p :: rat) < 2 powi bitlen p"
proof -
  have b: "2 ^ nat (bitlen p - 1) \<le> p" "p < 2 ^ nat (bitlen p)"
    using bitlen_bounds [OF assms] by auto
  have nn: "0 \<le> bitlen p - 1"
    using assms bitlen_eq_zero_iff [of p] bitlen_nonneg [of p] by linarith
  have "(2::rat) powi (bitlen p - 1) = of_int (2 ^ nat (bitlen p - 1))"
    using nn by (simp add: power_int_def)
  also have "\<dots> \<le> of_int p" using b(1) by (simp only: of_int_le_iff)
  finally show "2 powi (bitlen p - 1) \<le> (of_int p :: rat)" .
  have "(of_int p :: rat) < of_int (2 ^ nat (bitlen p))" using b(2) by (simp only: of_int_less_iff)
  also have "\<dots> = 2 powi bitlen p" by (simp add: power_int_def bitlen_nonneg)
  finally show "(of_int p :: rat) < 2 powi bitlen p" .
qed

lemma powi2_add: "(2::rat) powi (a + b) = 2 powi a * 2 powi b"
  by (simp add: power_int_add)

lemma powi2_diff: "(2::rat) powi (a - b) = 2 powi a / 2 powi b"
  by (simp add: power_int_diff)

lemma powi2_mono: "a \<le> b \<Longrightarrow> (2::rat) powi a \<le> 2 powi b"
  by (rule power_int_increasing) auto

lemma ilog2_bounds:
  assumes "0 < x"
  shows "2 powi ilog2 x \<le> x" and "x < 2 powi (ilog2 x + 1)"
proof -
  obtain p q where pq: "quotient_of x = (p, q)" by (cases "quotient_of x")
  have q: "0 < q" using pq by (rule quotient_of_denom_pos)
  have x: "x = of_int p / of_int q" using pq by (rule quotient_of_div)
  have p: "0 < p" using assms q unfolding x by (simp add: zero_less_divide_iff)
  let ?e = "bitlen p - bitlen q"
  note bp = bitlen_powi [OF p] and bq = bitlen_powi [OF q]
  have qpos: "(0::rat) < of_int q" using q by simp
  have lo: "2 powi (?e - 1) \<le> x"
  proof -
    have "2 powi (?e - 1) * of_int q \<le> (2::rat) powi (?e - 1) * 2 powi bitlen q"
      using bq(2) by (intro mult_left_mono) auto
    also have "\<dots> = 2 powi (bitlen p - 1)" by (simp flip: powi2_add)
    also have "\<dots> \<le> of_int p" by (rule bp(1))
    finally show ?thesis using qpos by (simp add: x field_simps)
  qed
  have hi: "x < 2 powi (?e + 1)"
  proof -
    have "of_int p < (2::rat) powi bitlen p" by (rule bp(2))
    also have "\<dots> = 2 powi (?e + 1) * 2 powi (bitlen q - 1)" by (simp flip: powi2_add)
    also have "\<dots> \<le> 2 powi (?e + 1) * of_int q" using bq(1) by (intro mult_left_mono) auto
    finally show ?thesis using qpos by (simp add: x field_simps)
  qed
  show "2 powi ilog2 x \<le> x" and "x < 2 powi (ilog2 x + 1)"
    using lo hi by (auto simp: ilog2_def pq Let_def)
qed

lemma rne_near: "\<bar>of_int (rne x) - x\<bar> \<le> \<bar>of_int k - x\<bar>"
proof -
  define f where "f = \<lfloor>x\<rfloor>"
  have f: "of_int f \<le> x" "x < of_int f + 1"
    using floor_correct [of x] by (simp_all add: f_def)
  define F K where "F = (of_int f :: rat)" and "K = (of_int k :: rat)"
  have "k \<le> f \<or> f + 1 \<le> k" by linarith
  then have k: "K \<le> F \<or> F + 1 \<le> K"
    unfolding F_def K_def by (metis of_int_le_iff of_int_1 of_int_add)
  show ?thesis
    using f k unfolding rne_def Let_def f_def [symmetric] K_def [symmetric]
    by (auto simp: abs_if simp flip: F_def)
qed

lemma is_f64_mult_powi: "\<bar>m\<bar> \<le> 2 ^ 53 \<Longrightarrow> -1074 \<le> e \<Longrightarrow> is_f64 (of_int m * 2 powi e)"
  unfolding is_f64_def by blast

lemma scaled_bound:
  assumes "x \<noteq> 0" shows "\<bar>x\<bar> < 2 ^ 53 * 2 powi f64_exp x"
proof -
  have "\<bar>x\<bar> < 2 powi (ilog2 \<bar>x\<bar> + 1)" using assms by (intro ilog2_bounds) simp
  also have "\<dots> \<le> 2 powi (53 + f64_exp x)" by (rule powi2_mono) (simp add: f64_exp_def)
  also have "\<dots> = 2 ^ 53 * 2 powi f64_exp x" by (simp add: powi2_add)
  finally show ?thesis .
qed

lemma rne_bound:
  assumes "\<bar>x\<bar> \<le> of_int (n::int)" shows "\<bar>rne x\<bar> \<le> n"
proof -
  have "- of_int n \<le> x" "x \<le> of_int n" using assms by linarith+
  then have 1: "of_int (rne x) \<le> (of_int n :: rat)" and 2: "- of_int n \<le> (of_int (rne x) :: rat)"
    using rne_near [of x n] rne_near [of x "- n"] by (simp_all add: abs_if split: if_splits)
  then show ?thesis by (metis abs_le_iff minus_le_iff of_int_le_iff of_int_minus)
qed

lemma rnd64_f64: "is_f64 (rnd64 x)"
proof (cases "x = 0")
  case True
  then show ?thesis using is_f64_mult_powi [of 0 0] by (simp add: rnd64_def)
next
  case False
  have "\<bar>x / 2 powi f64_exp x\<bar> \<le> of_int (2 ^ 53)"
    using scaled_bound [OF False] by (simp add: abs_divide pos_divide_le_eq less_imp_le)
  then have "\<bar>rne (x / 2 powi f64_exp x)\<bar> \<le> 2 ^ 53" by (rule rne_bound)
  then show ?thesis using False by (auto simp: rnd64_def f64_exp_def intro!: is_f64_mult_powi)
qed

lemma rnd64_near_multiple:
  "\<bar>rnd64 x - x\<bar> \<le> \<bar>of_int k * 2 powi f64_exp x - x\<bar>"
proof (cases "x = 0")
  case False
  let ?s = "(2::rat) powi f64_exp x"
  have s: "0 < ?s" by simp
  have "\<bar>of_int (rne (x / ?s)) - x / ?s\<bar> * ?s \<le> \<bar>of_int k - x / ?s\<bar> * ?s"
    by (rule mult_right_mono [OF rne_near]) simp
  moreover have "\<bar>a - x / ?s\<bar> * ?s = \<bar>a * ?s - x\<bar>" for a
  proof -
    have "\<bar>a - x / ?s\<bar> * ?s = \<bar>(a - x / ?s) * ?s\<bar>" using s by (simp add: abs_mult)
    also have "(a - x / ?s) * ?s = a * ?s - x" using s by (simp add: algebra_simps)
    finally show ?thesis .
  qed
  ultimately show ?thesis using False by (simp add: rnd64_def)
qed (simp add: rnd64_def)

lemma f64_multiple:
  assumes "e \<le> e'" shows "\<exists>k. of_int m * (2::rat) powi e' = of_int k * 2 powi e"
proof -
  have "(2::rat) powi e' = 2 powi (e' - e) * 2 powi e" by (simp flip: powi2_add)
  also have "(2::rat) powi (e' - e) = of_int (2 ^ nat (e' - e))"
    using assms by (simp add: power_int_def)
  finally have "of_int m * (2::rat) powi e' = of_int (m * 2 ^ nat (e' - e)) * 2 powi e" by simp
  then show ?thesis by blast
qed

lemma rnd64_nearest:
  assumes "is_f64 y"
  shows "\<bar>rnd64 x - x\<bar> \<le> \<bar>y - x\<bar>"
proof -
  obtain m e where y: "y = of_int m * 2 powi e" and m: "\<bar>m\<bar> \<le> 2 ^ 53" and e: "-1074 \<le> e"
    using assms unfolding is_f64_def by blast
  show ?thesis
  proof (cases "f64_exp x \<le> e \<or> x = 0")
    case True
    then show ?thesis
      using f64_multiple [of "f64_exp x" e m] rnd64_near_multiple [of x] y
      by (cases "x = 0") (auto simp: rnd64_def)
  next
    case False
    then have x0: "x \<noteq> 0" and lt: "e < f64_exp x" by auto
    have fe: "f64_exp x = ilog2 \<bar>x\<bar> - 52" using lt e by (simp add: f64_exp_def max_def split: if_splits)
    let ?b = "2 ^ 52 * (2::rat) powi f64_exp x"
    have "?b = 2 powi (52 + f64_exp x)" by (simp add: powi2_add)
    also have "\<dots> = 2 powi ilog2 \<bar>x\<bar>" by (simp add: fe)
    also have "\<dots> \<le> \<bar>x\<bar>" using x0 by (intro ilog2_bounds) simp
    finally have bx: "?b \<le> \<bar>x\<bar>" .
    have m': "(of_int \<bar>m\<bar> :: rat) \<le> 2 ^ 53"
      using m by (metis of_int_le_iff of_int_numeral of_int_power)
    have "\<bar>y\<bar> = of_int \<bar>m\<bar> * 2 powi e" by (simp add: y abs_mult)
    also have "\<dots> \<le> 2 ^ 53 * 2 powi e"
      using m' by (rule mult_right_mono) simp
    also have "\<dots> \<le> 2 ^ 53 * 2 powi (f64_exp x - 1)"
      using lt by (intro mult_left_mono powi2_mono) auto
    also have "\<dots> = ?b" by (simp add: powi2_diff)
    finally have yb: "\<bar>y\<bar> \<le> ?b" .
    have "\<bar>rnd64 x - x\<bar> \<le> \<bar>sgn x * ?b - x\<bar>"
      using rnd64_near_multiple [of x "2 ^ 52"] rnd64_near_multiple [of x "- (2 ^ 52)"] x0
      by (cases "0 < x") auto
    also have "\<dots> \<le> \<bar>y - x\<bar>"
      using bx yb x0 by (cases "0 < x") (auto simp: abs_if split: if_splits)
    finally show ?thesis .
  qed
qed

lemma is_f64_int: 
  assumes "\<bar>n\<bar> \<le> 2 ^ 53" shows "is_f64 (of_int n)"
  using is_f64_mult_powi [OF assms, of 0] by simp

lemma is_f64_neg:
  assumes "is_f64 x" shows "is_f64 (- x)"
proof -
  obtain m e where x: "x = of_int m * 2 powi e" and m: "\<bar>m\<bar> \<le> 2 ^ 53" and e: "-1074 \<le> e"
    using assms unfolding is_f64_def by blast
  have "\<bar>- m\<bar> \<le> 2 ^ 53" using m by simp
  from is_f64_mult_powi [OF this e] show ?thesis by (simp add: x)
qed

lemma is_f64_double:
  assumes "is_f64 x" shows "is_f64 (2 * x)"
proof -
  obtain m e where x: "x = of_int m * 2 powi e" and m: "\<bar>m\<bar> \<le> 2 ^ 53" and e: "-1074 \<le> e"
    using assms unfolding is_f64_def by blast
  have "2 * x = of_int m * 2 powi (e + 1)" by (simp add: x powi2_add)
  then show ?thesis using is_f64_mult_powi [OF m, of "e + 1"] e by simp
qed

lemma is_f64_powi: "-1074 \<le> e \<Longrightarrow> is_f64 (2 powi e)"
  using is_f64_mult_powi [of 1 e] by simp

lemma powi2_neg: "(2::rat) powi - int n = 1 / 2 ^ n"
  by (simp add: power_int_minus_divide)

lemma is_f64_inv_pow2: "n \<le> 1074 \<Longrightarrow> is_f64 (1 / 2 ^ n)"
  using is_f64_powi [of "- int n"] by (simp add: powi2_neg)

text \<open>The error of one rounding: half a unit in the last place.\<close>

lemma rnd64_half_ulp: "\<bar>rnd64 x - x\<bar> \<le> 2 powi f64_exp x / 2"
proof (cases "x = 0")
  case False
  let ?s = "(2::rat) powi f64_exp x"
  define z where "z = x / ?s"
  have x: "x = z * ?s" by (simp add: z_def)
  define F where "F = (of_int \<lfloor>z\<rfloor> :: rat)"
  have F: "F \<le> z" "z < F + 1" using floor_correct [of z] by (simp_all add: F_def)
  have "\<bar>of_int (rne z) - z\<bar> \<le> 1 / 2"
    using F unfolding rne_def Let_def by (auto simp: abs_if simp flip: F_def)
  then have "\<bar>of_int (rne z) - z\<bar> * ?s \<le> 1 / 2 * ?s" by (rule mult_right_mono) simp
  moreover have "rnd64 x - x = (of_int (rne z) - z) * ?s"
    using False by (simp add: rnd64_def z_def left_diff_distrib)
  ultimately show ?thesis by (simp add: abs_mult)
qed (simp add: rnd64_def)

lemma rnd64_error: "\<bar>rnd64 x - x\<bar> \<le> \<bar>x\<bar> / 2 ^ 53 + 1 / 2 ^ 1075"
proof (cases "x = 0")
  case False
  have "2 powi f64_exp x / 2 \<le> \<bar>x\<bar> / 2 ^ 53 + 1 / 2 ^ 1075"
  proof (cases "f64_exp x = -1074")
    case True
    have "(2::rat) powi f64_exp x / 2 = 2 powi (-1074 - 1)"
      unfolding True by (simp only: powi2_diff power_int_1_right)
    also have "\<dots> = 1 / 2 ^ 1075" by (simp add: power_int_def inverse_eq_divide power_one_over)
    finally show ?thesis by simp
  next
    case neq: False
    then have fe: "f64_exp x = ilog2 \<bar>x\<bar> - 52" by (simp add: f64_exp_def max_def split: if_splits)
    have "(2::rat) powi f64_exp x / 2 = 2 powi ilog2 \<bar>x\<bar> / 2 ^ 53"
      unfolding fe by (simp add: powi2_diff)
    also have "\<dots> \<le> \<bar>x\<bar> / 2 ^ 53"
      using ilog2_bounds(1) [of "\<bar>x\<bar>"] False by (intro divide_right_mono) auto
    finally show ?thesis by simp
  qed
  then show ?thesis using rnd64_half_ulp [of x] by linarith
qed (simp add: rnd64_def)

text \<open>Away from the subnormal range the error is relative.\<close>

lemma rnd64_rel:
  assumes "2 powi -1022 \<le> \<bar>x\<bar>"
  shows "\<bar>rnd64 x - x\<bar> \<le> \<bar>x\<bar> / 2 ^ 53"
proof -
  have pos: "0 < \<bar>x\<bar>" using assms by (rule less_le_trans [rotated]) simp
  have "(2::rat) powi -1022 < 2 powi (ilog2 \<bar>x\<bar> + 1)"
    using assms ilog2_bounds(2) [OF pos] by (rule le_less_trans)
  then have "-1022 < ilog2 \<bar>x\<bar> + 1" using powi2_mono [of "ilog2 \<bar>x\<bar> + 1" "-1022"] by linarith
  then have fe: "f64_exp x = ilog2 \<bar>x\<bar> - 52" by (simp add: f64_exp_def)
  have "(2::rat) powi f64_exp x / 2 = 2 powi ilog2 \<bar>x\<bar> / 2 ^ 53"
    unfolding fe by (simp add: powi2_diff)
  also have "\<dots> \<le> \<bar>x\<bar> / 2 ^ 53"
    using ilog2_bounds(1) [OF pos] by (intro divide_right_mono) auto
  finally show ?thesis using rnd64_half_ulp [of x] by linarith
qed

lemma rnd64_rel_upper:
  assumes "2 powi -1022 \<le> x"
  shows "rnd64 x \<le> x * (1 + 1 / 2 ^ 53)"
proof -
  have "0 < x" using assms by (rule less_le_trans [rotated]) simp
  then have "rnd64 x - x \<le> x / 2 ^ 53" using rnd64_rel [of x] assms by linarith
  then show ?thesis by (simp only: distrib_left mult_1_right times_divide_eq_right)
qed

lemma rnd64_rel_lower:
  assumes "2 powi -1022 \<le> x"
  shows "x * (1 - 1 / 2 ^ 53) \<le> rnd64 x"
proof -
  have "0 < x" using assms by (rule less_le_trans [rotated]) simp
  then have "x - x / 2 ^ 53 \<le> rnd64 x" using rnd64_rel [of x] assms by linarith
  then show ?thesis by (simp only: right_diff_distrib mult_1_right times_divide_eq_right)
qed

section \<open>What a rounding to nearest guarantees\<close>

locale nearest_rounding =
  fixes rnd :: "rat \<Rightarrow> rat" and repr :: "rat \<Rightarrow> bool"
  assumes rnd_repr: "repr (rnd x)"
    and rnd_closest: "repr y \<Longrightarrow> \<bar>rnd x - x\<bar> \<le> \<bar>y - x\<bar>"
begin

lemma rnd_id: "repr x \<Longrightarrow> rnd x = x"
  using rnd_closest [of x x] by simp

lemma rnd_mono: "x \<le> y \<Longrightarrow> rnd x \<le> rnd y"
  using rnd_closest [OF rnd_repr, of x y] rnd_closest [OF rnd_repr, of y x]
  by (cases "x = y") (auto simp: abs_if split: if_splits)

lemma rnd_upper: "x \<le> y \<Longrightarrow> repr y \<Longrightarrow> rnd x \<le> y"
  using rnd_mono rnd_id by metis

lemma rnd_lower: "y \<le> x \<Longrightarrow> repr y \<Longrightarrow> y \<le> rnd x"
  using rnd_mono rnd_id by metis

text \<open>A comparison with a tolerance \<open>e\<close>: when the rounded sum \<open>a + e\<close> reaches the
  representable bound \<open>b\<close>, then \<open>b\<close> exceeds \<open>a\<close> by at most twice the tolerance.\<close>

lemma rnd_tolerance:
  assumes "repr a" and "0 \<le> e" and "b \<le> rnd (a + e)"
  shows "b \<le> a + 2 * e"
proof -
  have "\<bar>rnd (a + e) - (a + e)\<bar> \<le> \<bar>a - (a + e)\<bar>" by (rule rnd_closest [OF assms(1)])
  then have "rnd (a + e) \<le> a + 2 * e" using assms(2) by linarith
  then show ?thesis using assms(3) by linarith
qed

end

interpretation f64: nearest_rounding rnd64 is_f64
  by unfold_locales (simp_all add: rnd64_f64 rnd64_nearest)

section \<open>The operations\<close>

definition f64_of_int :: "int \<Rightarrow> float64" where
  "f64_of_int n = rnd64 (of_int n)"

definition f64_add :: "float64 \<Rightarrow> float64 \<Rightarrow> float64" where
  "f64_add a b = rnd64 (a + b)"

definition f64_sub :: "float64 \<Rightarrow> float64 \<Rightarrow> float64" where
  "f64_sub a b = rnd64 (a - b)"

definition f64_mul :: "float64 \<Rightarrow> float64 \<Rightarrow> float64" where
  "f64_mul a b = rnd64 (a * b)"

text \<open>Division; the source never divides by zero.\<close>

definition f64_div :: "float64 \<Rightarrow> float64 \<Rightarrow> float64" where
  "f64_div a b = rnd64 (a / b)"

text \<open>\<^verbatim>\<open>math.Floor\<close> and \<^verbatim>\<open>math.Ceil\<close> are exact.\<close>

definition f64_floor :: "float64 \<Rightarrow> float64" where
  "f64_floor a = of_int \<lfloor>a\<rfloor>"

definition f64_ceil :: "float64 \<Rightarrow> float64" where
  "f64_ceil a = of_int \<lceil>a\<rceil>"

definition f64_trunc :: "float64 \<Rightarrow> int" where
  "f64_trunc a = (if 0 \<le> a then \<lfloor>a\<rfloor> else \<lceil>a\<rceil>)"

text \<open>The conversion \<^verbatim>\<open>int64(x)\<close> truncates. Outside the range of the integer type the
  result is left to the implementation; the value amd64 produces, the least integer, is
  used here, and the properties are stated where the conversion is in range.\<close>

definition i64_of_f64 :: "float64 \<Rightarrow> int64" where
  "i64_of_f64 a = (if in64 (f64_trunc a) then f64_trunc a else - (2 ^ 63))"

lemma f64_results [simp]:
  "is_f64 (f64_of_int n)" "is_f64 (f64_add a b)" "is_f64 (f64_sub a b)"
  "is_f64 (f64_mul a b)" "is_f64 (f64_div a b)"
  by (simp_all add: f64_of_int_def f64_add_def f64_sub_def f64_mul_def f64_div_def rnd64_f64)

lemma is_f64_0 [simp]: "is_f64 0" and is_f64_1 [simp]: "is_f64 1"
  using is_f64_int [of 0] is_f64_int [of 1] by simp_all

lemma rnd64_zero [simp]: "rnd64 0 = 0"
  by (simp add: rnd64_def)

lemma f64_of_int_exact [f64_simps]: "\<bar>n\<bar> \<le> 2 ^ 53 \<Longrightarrow> f64_of_int n = of_int n"
  by (simp add: f64_of_int_def f64.rnd_id is_f64_int)

lemma f64_of_int_0 [simp]: "f64_of_int 0 = 0"
  by (simp add: f64_of_int_def)

lemma f64_of_int_mono: "a \<le> b \<Longrightarrow> f64_of_int a \<le> f64_of_int b"
  by (simp add: f64_of_int_def f64.rnd_mono)

lemma f64_of_int_nonneg [simp]: "0 \<le> n \<Longrightarrow> 0 \<le> f64_of_int n"
  by (simp add: f64_of_int_def f64.rnd_lower)

lemma f64_of_int_pos: "0 < n \<Longrightarrow> 1 \<le> f64_of_int n"
  by (simp add: f64_of_int_def f64.rnd_lower)

text \<open>The floor of a double is a double: below \<open>2 ^ 53\<close> every integer is one, and above
  it every double is an integer.\<close>

lemma is_f64_floor:
  assumes "is_f64 x" shows "is_f64 (of_int \<lfloor>x\<rfloor>)"
proof -
  obtain m e where x: "x = of_int m * 2 powi e" and m: "\<bar>m\<bar> \<le> 2 ^ 53"
    using assms unfolding is_f64_def by blast
  show ?thesis
  proof (cases "0 \<le> e")
    case True
    then have "x = of_int (m * 2 ^ nat e)" by (simp add: x power_int_def)
    then have "of_int \<lfloor>x\<rfloor> = x" by (metis floor_of_int)
    then show ?thesis using assms by (simp only:)
  next
    case False
    have "\<bar>x\<bar> = of_int \<bar>m\<bar> * 2 powi e" by (simp add: x abs_mult)
    also have "\<dots> \<le> of_int \<bar>m\<bar> * 2 powi 0"
      using False by (intro mult_left_mono powi2_mono) auto
    also have "\<dots> = of_int \<bar>m\<bar>" by simp
    also have "\<dots> \<le> of_int (2 ^ 53)" using m by (simp only: of_int_le_iff)
    finally have "- of_int (2 ^ 53) \<le> x" and hi: "x \<le> of_int (2 ^ 53)" by linarith+
    then have "of_int (- (2 ^ 53)) \<le> x" by simp
    then have "- (2 ^ 53) \<le> \<lfloor>x\<rfloor>" by (simp only: le_floor_iff)
    moreover have "\<lfloor>x\<rfloor> \<le> 2 ^ 53" using hi by (simp add: floor_le_iff)
    ultimately have "- (2 ^ 53) \<le> \<lfloor>x\<rfloor>" and "\<lfloor>x\<rfloor> \<le> 2 ^ 53" .
    then show ?thesis by (intro is_f64_int abs_leI) linarith+
  qed
qed

lemma i64_of_f64_in64 [simp]: "in64 (i64_of_f64 a)"
  by (simp add: i64_of_f64_def in64_def)

lemma i64_of_f64_floor: "in64 \<lfloor>a\<rfloor> \<Longrightarrow> i64_of_f64 (f64_floor a) = \<lfloor>a\<rfloor>"
  by (simp add: i64_of_f64_def f64_floor_def f64_trunc_def)

text \<open>Evaluation on integral values.\<close>

lemma rnd64_of_int [f64_simps]: "\<bar>n\<bar> \<le> 2 ^ 53 \<Longrightarrow> rnd64 (of_int n) = of_int n"
  by (simp add: f64.rnd_id is_f64_int)

lemma rnd64_numeral [f64_simps]:
  "(numeral n :: int) \<le> 2 ^ 53 \<Longrightarrow> rnd64 (numeral n) = numeral n"
  "(numeral n :: int) \<le> 2 ^ 53 \<Longrightarrow> rnd64 (- numeral n) = - numeral n"
  using rnd64_of_int [of "numeral n"] rnd64_of_int [of "- numeral n"] by simp_all

lemma f64_add_integral [f64_simps]:
  "f64_add 0 0 = 0" "f64_add 1 0 = 1" "f64_add 0 1 = 1"
  "(numeral m :: int) \<le> 2 ^ 53 \<Longrightarrow> f64_add (numeral m) 0 = numeral m"
  "(numeral m :: int) \<le> 2 ^ 53 \<Longrightarrow> f64_add 0 (numeral m) = numeral m"
  "(numeral m :: int) + 1 \<le> 2 ^ 53 \<Longrightarrow> f64_add (numeral m) 1 = numeral (m + num.One)"
  "(numeral m + numeral n :: int) \<le> 2 ^ 53 \<Longrightarrow> f64_add (numeral m) (numeral n) = numeral (m + n)"
  using rnd64_of_int [of 0] rnd64_of_int [of 1] rnd64_of_int [of "numeral m"]
    rnd64_of_int [of "numeral m + 1"] rnd64_of_int [of "numeral m + numeral n"]
  by (simp_all add: f64_add_def numeral_plus_one)

lemma rnd64_one [simp]: "rnd64 1 = 1"
  using rnd64_of_int [of 1] by simp

end
