(* ===== verification/Go_Time.thy ===== *)
theory Go_Time
  imports Valve_Prelude
begin

text \<open>
  The part of package \<^verbatim>\<open>time\<close> the program uses. A \<^verbatim>\<open>time.Time\<close> is the number of
  nanoseconds since the Unix epoch, an unbounded integer (the package keeps seconds and
  nanoseconds apart, so instants do not wrap); a \<^verbatim>\<open>time.Duration\<close> is a 64-bit count of
  nanoseconds. The zero value of \<^verbatim>\<open>time.Time\<close> is midnight of January 1 of the year 1. One
  clock is modelled: the wall-clock and the monotonic reading of an instant agree.
\<close>

type_synonym time = int
type_synonym duration = int64

definition Millisecond :: duration where "Millisecond = 1000000"
definition Second :: duration where "Second = 1000000000"
definition Minute :: duration where "Minute = 60000000000"
definition Hour :: duration where "Hour = 3600000000000"

definition zero_time :: time where
  "zero_time = - (62135596800 * 1000000000)"

definition IsZero :: "time \<Rightarrow> bool" where
  "IsZero t \<longleftrightarrow> t = zero_time"

text \<open>\<^verbatim>\<open>time.UnixMilli(ms)\<close> and \<^verbatim>\<open>t.UnixMilli()\<close>.\<close>

definition time_of_ms :: "int64 \<Rightarrow> time" where
  "time_of_ms ms = ms * 1000000"

definition ms_of_time :: "time \<Rightarrow> int64" where
  "ms_of_time t = wrap64 (t div 1000000)"

definition time_add :: "time \<Rightarrow> duration \<Rightarrow> time" where
  "time_add t d = t + d"

text \<open>\<^verbatim>\<open>t.Sub(u)\<close> saturates at the ends of the duration range.\<close>

definition time_sub :: "time \<Rightarrow> time \<Rightarrow> duration" where
  "time_sub t u = max (- (2 ^ 63)) (min (2 ^ 63 - 1) (t - u))"

definition time_after :: "time \<Rightarrow> time \<Rightarrow> bool" where
  "time_after t u \<longleftrightarrow> u < t"

definition time_before :: "time \<Rightarrow> time \<Rightarrow> bool" where
  "time_before t u \<longleftrightarrow> t < u"

definition dur_ms :: "duration \<Rightarrow> int64" where
  "dur_ms d = i64_quot d 1000000"

text \<open>\<^verbatim>\<open>d.Round(m)\<close>: to the nearest multiple of \<open>m\<close>, halves away from zero, saturating.\<close>

definition dur_round :: "duration \<Rightarrow> duration \<Rightarrow> duration" where
  "dur_round d m =
     (if m \<le> 0 then d
      else if d < 0 then
        (let r = (- d) mod m in
         if r + r < m then d + r
         else if - (2 ^ 63) \<le> d - m + r then d - m + r else - (2 ^ 63))
      else
        (let r = d mod m in
         if r + r < m then d - r
         else if d + m - r < 2 ^ 63 then d + m - r else 2 ^ 63 - 1))"

lemma ms_of_time_of_ms [simp]: "in64 ms \<Longrightarrow> ms_of_time (time_of_ms ms) = ms"
  by (simp add: ms_of_time_def time_of_ms_def)

lemma ms_of_time_in64 [simp]: "in64 (ms_of_time t)"
  by (simp add: ms_of_time_def)

lemma ms_of_time_mono:
  assumes "t \<le> u" and "in64 (t div 1000000)" and "in64 (u div 1000000)"
  shows "ms_of_time t \<le> ms_of_time u"
  using assms by (simp add: ms_of_time_def zdiv_mono1)

lemma time_add_after: "0 < d \<Longrightarrow> \<not> time_after t (time_add t d)"
  by (simp add: time_after_def time_add_def)

end
