(* ===== verification/Go_Text.thy ===== *)
theory Go_Text
  imports Valve_Prelude
begin

text \<open>
  The text functions of the Go standard library that the program calls: \<^verbatim>\<open>strconv\<close>,
  \<^verbatim>\<open>strings\<close>, \<^verbatim>\<open>encoding/hex\<close> and the header map of \<^verbatim>\<open>net/http\<close>. A Go string is a
  sequence of bytes, here a \<^typ>\<open>string\<close>.
\<close>

section \<open>Decimal numbers\<close>

definition dec_digit :: "int \<Rightarrow> char" where
  "dec_digit n = ''0123456789'' ! nat (n mod 10)"

function dec_nat :: "int \<Rightarrow> string" where
  "dec_nat n = (if n < 10 then [dec_digit n] else dec_nat (n div 10) @ [dec_digit n])"
  by auto
termination by (relation "measure nat") auto

declare dec_nat.simps [simp del]

text \<open>\<^verbatim>\<open>strconv.FormatInt(n, 10)\<close> and \<^verbatim>\<open>strconv.Itoa(n)\<close>.\<close>

definition FormatInt :: "int64 \<Rightarrow> string" where
  "FormatInt n = (if n < 0 then ''-'' @ dec_nat (- n) else dec_nat n)"

definition digit_value :: "char \<Rightarrow> int option" where
  "digit_value c =
     (let n = of_char c :: int in if 48 \<le> n \<and> n \<le> 57 then Some (n - 48) else None)"

fun parse_digits :: "int \<Rightarrow> string \<Rightarrow> int option" where
  "parse_digits acc [] = Some acc"
| "parse_digits acc (c # cs) =
     (case digit_value c of None \<Rightarrow> None | Some d \<Rightarrow> parse_digits (10 * acc + d) cs)"

text \<open>\<^verbatim>\<open>strconv.ParseInt(s, 10, 64)\<close>: the value and whether there was no error. A number out
  of range gives the nearest end of the range, bad syntax gives zero, both with an error.\<close>

definition ParseInt :: "string \<Rightarrow> int64 \<times> bool" where
  "ParseInt s =
     (let (neg, ds) = (case s of
            [] \<Rightarrow> (False, [])
          | c # cs \<Rightarrow> if c = CHR ''-'' then (True, cs) else if c = CHR ''+'' then (False, cs) else (False, s))
      in if ds = [] then (0, False)
         else case parse_digits 0 ds of
                None \<Rightarrow> (0, False)
              | Some n \<Rightarrow>
                  if \<not> neg \<and> n \<ge> 2 ^ 63 then (2 ^ 63 - 1, False)
                  else if neg \<and> n > 2 ^ 63 then (- (2 ^ 63), False)
                  else (if neg then - n else n, True))"

text \<open>\<^verbatim>\<open>strconv.ParseBool\<close>.\<close>

definition ParseBool :: "string \<Rightarrow> bool option" where
  "ParseBool s =
     (if s \<in> set [''1'', ''t'', ''T'', ''true'', ''TRUE'', ''True''] then Some True
      else if s \<in> set [''0'', ''f'', ''F'', ''false'', ''FALSE'', ''False''] then Some False
      else None)"

lemma digit_value_dec_digit [simp]: "digit_value (dec_digit n) = Some (n mod 10)"
proof -
  have "\<forall>k\<in>set [0..<10]. digit_value (''0123456789'' ! k) = Some (int k)" by code_simp
  moreover have "nat (n mod 10) < 10" by simp
  ultimately show ?thesis by (fastforce simp: dec_digit_def)
qed

lemma dec_digit_not_sign: "dec_digit n \<noteq> CHR ''-''" "dec_digit n \<noteq> CHR ''+''"
proof -
  have "digit_value (CHR ''-'') = None" "digit_value (CHR ''+'') = None" by code_simp+
  then show "dec_digit n \<noteq> CHR ''-''" "dec_digit n \<noteq> CHR ''+''"
    using digit_value_dec_digit [of n] by (metis option.distinct(1))+
qed

lemma parse_digits_append:
  "parse_digits acc (xs @ ys) =
     (case parse_digits acc xs of None \<Rightarrow> None | Some a \<Rightarrow> parse_digits a ys)"
  by (induction xs arbitrary: acc) (auto split: option.splits)

lemma parse_digits_dec_nat [simp]: "0 \<le> n \<Longrightarrow> parse_digits 0 (dec_nat n) = Some n"
proof (induction n rule: dec_nat.induct)
  case (1 n)
  then show ?case
    by (subst dec_nat.simps) (auto simp: parse_digits_append)
qed

lemma dec_nat_Cons: "\<exists>k ds. dec_nat n = dec_digit k # ds"
proof (induction n rule: dec_nat.induct)
  case (1 n)
  then show ?case
    by (subst dec_nat.simps) (auto; blast)
qed

text \<open>Printing a number and reading it back gives the number.\<close>

lemma ParseInt_FormatInt [simp]:
  assumes "in64 n"
  shows "ParseInt (FormatInt n) = (n, True)"
proof -
  obtain k ds where d: "dec_nat \<bar>n\<bar> = dec_digit k # ds" using dec_nat_Cons by blast
  have "parse_digits 0 (dec_digit k # ds) = Some \<bar>n\<bar>" unfolding d [symmetric] by simp
  then show ?thesis
    using assms d dec_digit_not_sign [of k]
    by (auto simp: ParseInt_def FormatInt_def in64_def abs_if split: if_splits)
qed

lemma FormatInt_inj: "in64 m \<Longrightarrow> in64 n \<Longrightarrow> FormatInt m = FormatInt n \<longleftrightarrow> m = n"
  by (metis ParseInt_FormatInt prod.inject)

section \<open>Strings\<close>

fun HasPrefix :: "string \<Rightarrow> string \<Rightarrow> bool" where
  "HasPrefix s [] \<longleftrightarrow> True"
| "HasPrefix [] (p # ps) \<longleftrightarrow> False"
| "HasPrefix (c # cs) (p # ps) \<longleftrightarrow> c = p \<and> HasPrefix cs ps"

fun Contains :: "string \<Rightarrow> string \<Rightarrow> bool" where
  "Contains [] sub \<longleftrightarrow> sub = []"
| "Contains (c # cs) sub \<longleftrightarrow> HasPrefix (c # cs) sub \<or> Contains cs sub"

lemma HasPrefix_iff: "HasPrefix s p \<longleftrightarrow> (\<exists>r. s = p @ r)"
  by (induction s p rule: HasPrefix.induct) auto

lemma Contains_iff: "Contains s sub \<longleftrightarrow> (\<exists>a b. s = a @ sub @ b)"
proof (induction s)
  case (Cons c cs)
  have "(\<exists>a b. c # cs = a @ sub @ b) \<longleftrightarrow> (\<exists>b. c # cs = sub @ b) \<or> (\<exists>a b. cs = a @ sub @ b)"
    by (auto simp: Cons_eq_append_conv)
  then show ?case using Cons by (simp add: HasPrefix_iff)
qed simp

definition hex_digit :: "int \<Rightarrow> char" where
  "hex_digit n = ''0123456789abcdef'' ! nat (n mod 16)"

definition hex_EncodeToString :: "int list \<Rightarrow> string" where
  "hex_EncodeToString bs = concat (map (\<lambda>b. [hex_digit (b div 16), hex_digit b]) bs)"

lemma hex_length [simp]: "length (hex_EncodeToString bs) = 2 * length bs"
  by (induction bs) (simp_all add: hex_EncodeToString_def)

section \<open>Header maps\<close>

text \<open>An \<^verbatim>\<open>http.Header\<close> maps canonical keys to lists of values. The canonical form
  capitalises the first letter and every letter after a hyphen and lowers the others; a key
  with a byte that no header name may have is left as it is.\<close>

type_synonym header = "string \<rightharpoonup> string list"

definition is_upper :: "char \<Rightarrow> bool" where
  "is_upper c = (let n = of_char c :: int in 65 \<le> n \<and> n \<le> 90)"

definition is_lower :: "char \<Rightarrow> bool" where
  "is_lower c = (let n = of_char c :: int in 97 \<le> n \<and> n \<le> 122)"

definition to_upper :: "char \<Rightarrow> char" where
  "to_upper c = (if is_lower c then char_of (of_char c - 32 :: int) else c)"

definition to_lower :: "char \<Rightarrow> char" where
  "to_lower c = (if is_upper c then char_of (of_char c + 32 :: int) else c)"

definition is_token :: "char \<Rightarrow> bool" where
  "is_token c = (is_upper c \<or> is_lower c \<or> digit_value c \<noteq> None \<or> c \<in> set ''!#$%&*+-.^_`|~'' \<or> c = CHR 0x27)"

fun canon :: "bool \<Rightarrow> string \<Rightarrow> string" where
  "canon up [] = []"
| "canon up (c # cs) = (if up then to_upper c else to_lower c) # canon (c = CHR ''-'') cs"

definition CanonicalHeaderKey :: "string \<Rightarrow> string" where
  "CanonicalHeaderKey k = (if \<forall>c\<in>set k. is_token c then canon True k else k)"

definition header_Set :: "header \<Rightarrow> string \<Rightarrow> string \<Rightarrow> header" where
  "header_Set h k v = h(CanonicalHeaderKey k \<mapsto> [v])"

definition header_Get :: "header \<Rightarrow> string \<Rightarrow> string" where
  "header_Get h k =
     (case h (CanonicalHeaderKey k) of None \<Rightarrow> '''' | Some [] \<Rightarrow> '''' | Some (v # _) \<Rightarrow> v)"

lemma header_Get_Set [simp]: "header_Get (header_Set h k v) k = v"
  by (simp add: header_Get_def header_Set_def)

lemma header_Get_Set_other [simp]:
  "CanonicalHeaderKey k \<noteq> CanonicalHeaderKey k' \<Longrightarrow> header_Get (header_Set h k' v) k = header_Get h k"
  by (simp add: header_Get_def header_Set_def)

end
