(* ===== verification/Redis_Server.thy ===== *)
theory Redis_Server
  imports Go_Float Go_Time Go_Text
begin

text \<open>
  The Redis server as the scripts and the client of package \<^verbatim>\<open>redisstore\<close> see it. The server
  is not part of the repository: it is a parameter, a record of the commands the program
  uses over an abstract server state \<open>'r\<close>. A command takes the instant of the server's clock
  at which it runs. Field values are strings; a number that a script passes to a command is
  written as text by \<open>rNumText\<close>, and \<open>rToNumber\<close> is what Lua's \<^verbatim>\<open>tonumber\<close> makes of a text.
  \<open>rFault\<close> says what happens to a call on its way: it may be lost before it reaches the
  server, or its reply may be lost after the server has run it.

  What the program relies on is the hypothesis \<open>redis_laws\<close>, the documented behaviour of
  the commands on hashes with an optional time to live: \<open>H s k\<close> are the fields of the hash at
  key \<open>k\<close>, \<open>D s k\<close> is the millisecond at which it expires. A number written and read back
  is the same double (the server prints seventeen significant digits). Keys are not evicted
  before they expire. \<open>redis_map\<close> is a server that satisfies the hypothesis.
\<close>

datatype fault = NoFault | RequestLost string | ReplyLost string

record 'r RedisOps =
  rExists :: "'r \<Rightarrow> time \<Rightarrow> string \<Rightarrow> bool"
  rHGet :: "'r \<Rightarrow> time \<Rightarrow> string \<Rightarrow> string \<Rightarrow> string option"
  rHMSet :: "'r \<Rightarrow> time \<Rightarrow> string \<Rightarrow> (string \<times> string) list \<Rightarrow> 'r"
  rExpire :: "'r \<Rightarrow> time \<Rightarrow> string \<Rightarrow> int64 \<Rightarrow> 'r"
  rNumText :: "float64 \<Rightarrow> string"
  rToNumber :: "string \<Rightarrow> float64 option"
  rFault :: "'r \<Rightarrow> time \<Rightarrow> string \<Rightarrow> fault"

section \<open>The hypothesis\<close>

definition rlive :: "('r \<Rightarrow> string \<Rightarrow> int option) \<Rightarrow> 'r \<Rightarrow> time \<Rightarrow> string \<Rightarrow> bool" where
  "rlive D s t k = (case D s k of None \<Rightarrow> True | Some e \<Rightarrow> t div 1000000 \<le> e)"

text \<open>The fields of a key that has not expired.\<close>

definition rfields :: "('r \<Rightarrow> string \<Rightarrow> string \<rightharpoonup> string) \<Rightarrow> ('r \<Rightarrow> string \<Rightarrow> int option) \<Rightarrow>
    'r \<Rightarrow> time \<Rightarrow> string \<Rightarrow> (string \<rightharpoonup> string)" where
  "rfields H D s t k = (if rlive D s t k then H s k else Map.empty)"

definition redis_laws :: "'r RedisOps \<Rightarrow> ('r \<Rightarrow> string \<Rightarrow> string \<rightharpoonup> string) \<Rightarrow>
    ('r \<Rightarrow> string \<Rightarrow> int option) \<Rightarrow> bool" where
  "redis_laws R H D \<longleftrightarrow>
     (\<forall>s t k f. rHGet R s t k f = rfields H D s t k f) \<and>
     (\<forall>s t k. rExists R s t k \<longleftrightarrow> rfields H D s t k \<noteq> Map.empty) \<and>
     (\<forall>s t k fvs. fvs \<noteq> [] \<longrightarrow> distinct (map fst fvs) \<longrightarrow>
        H (rHMSet R s t k fvs) = (H s)(k := rfields H D s t k ++ map_of fvs) \<and>
        D (rHMSet R s t k fvs) = (if rlive D s t k then D s else (D s)(k := None))) \<and>
     (\<forall>s t k n. rfields H D s t k \<noteq> Map.empty \<longrightarrow>
        H (rExpire R s t k n) = H s \<and>
        D (rExpire R s t k n) = (D s)(k \<mapsto> t div 1000000 + n * 1000)) \<and>
     (\<forall>x. is_f64 x \<longrightarrow> rToNumber R (rNumText R x) = Some x)"

lemma redis_lawsD:
  assumes "redis_laws R H D"
  shows "rHGet R s t k f = rfields H D s t k f"
    and "rExists R s t k \<longleftrightarrow> rfields H D s t k \<noteq> Map.empty"
    and "fvs \<noteq> [] \<Longrightarrow> distinct (map fst fvs) \<Longrightarrow>
      H (rHMSet R s t k fvs) = (H s)(k := rfields H D s t k ++ map_of fvs)"
    and "fvs \<noteq> [] \<Longrightarrow> distinct (map fst fvs) \<Longrightarrow>
      D (rHMSet R s t k fvs) = (if rlive D s t k then D s else (D s)(k := None))"
    and "rfields H D s t k \<noteq> Map.empty \<Longrightarrow> H (rExpire R s t k n) = H s"
    and "rfields H D s t k \<noteq> Map.empty \<Longrightarrow> D (rExpire R s t k n) = (D s)(k \<mapsto> t div 1000000 + n * 1000)"
    and "is_f64 x \<Longrightarrow> rToNumber R (rNumText R x) = Some x"
  using assms unfolding redis_laws_def by blast+

text \<open>What a write leaves readable at the same instant.\<close>

lemma rfields_HMSet:
  assumes "redis_laws R H D" "fvs \<noteq> []" "distinct (map fst fvs)"
  shows "rfields H D (rHMSet R s t k fvs) t k' =
    (if k' = k then rfields H D s t k ++ map_of fvs else rfields H D s t k')"
  using redis_lawsD(3,4) [OF assms, of s t k] by (simp add: rfields_def rlive_def split: option.splits)

lemma rfields_Expire:
  assumes "redis_laws R H D" "rfields H D s t k \<noteq> Map.empty" "0 \<le> n"
  shows "rfields H D (rExpire R s t k n) t k' = rfields H D s t k'"
  using redis_lawsD(5,6) [OF assms(1,2), of n] assms(2,3)
  by (auto simp: rfields_def rlive_def split: option.splits if_splits)

section \<open>A server that satisfies it\<close>

text \<open>A number is written as a fraction, so that every rational reads back.\<close>

definition frac_text :: "float64 \<Rightarrow> string" where
  "frac_text x = (let (p, q) = quotient_of x
     in (if p < 0 then ''-'' else '''') @ dec_nat \<bar>p\<bar> @ ''/'' @ dec_nat q)"

definition frac_value :: "string \<Rightarrow> float64 option" where
  "frac_value s =
     (let neg = (case s of c # cs \<Rightarrow> c = CHR ''-'' | [] \<Rightarrow> False);
          u = (if neg then tl s else s);
          ns = takeWhile (\<lambda>c. c \<noteq> CHR ''/'') u;
          ds = drop 1 (dropWhile (\<lambda>c. c \<noteq> CHR ''/'') u)
      in case (parse_digits 0 ns, parse_digits 0 ds) of
           (Some p, Some q) \<Rightarrow> Some (Fract (if neg then - p else p) q)
         | _ \<Rightarrow> None)"

type_synonym rmap = "string \<Rightarrow> (string \<times> string) list \<times> int option"

definition rmap_fields :: "rmap \<Rightarrow> time \<Rightarrow> string \<Rightarrow> (string \<times> string) list" where
  "rmap_fields s t k = (case snd (s k) of None \<Rightarrow> fst (s k)
     | Some e \<Rightarrow> if t div 1000000 \<le> e then fst (s k) else [])"

definition redis_map :: "rmap RedisOps" where
  "redis_map =
     \<lparr>rExists = (\<lambda>s t k. rmap_fields s t k \<noteq> []),
      rHGet = (\<lambda>s t k. map_of (rmap_fields s t k)),
      rHMSet = (\<lambda>s t k fvs. s(k := (fvs @ rmap_fields s t k,
                  case snd (s k) of None \<Rightarrow> None | Some e \<Rightarrow> if t div 1000000 \<le> e then Some e else None))),
      rExpire = (\<lambda>s t k n. s(k := (fst (s k), Some (t div 1000000 + n * 1000)))),
      rNumText = frac_text, rToNumber = frac_value, rFault = (\<lambda>s t name. NoFault)\<rparr>"

lemma dec_nat_no_slash: "CHR ''/'' \<notin> set (dec_nat n)"
proof (induction n rule: dec_nat.induct)
  case (1 n)
  have "digit_value (CHR ''/'') = None" by code_simp
  then have "dec_digit n \<noteq> CHR ''/''" using digit_value_dec_digit [of n] by (metis option.distinct(1))
  then show ?case using 1 by (subst dec_nat.simps) auto
qed

lemma frac_value_text [simp]: "frac_value (frac_text x) = Some x"
proof -
  obtain p q where pq: "quotient_of x = (p, q)" by (cases "quotient_of x")
  have q: "0 < q" using pq by (rule quotient_of_denom_pos)
  have x: "x = Fract p q" using quotient_of_div [OF pq] by (simp add: Fract_of_int_quotient)
  obtain k ds where d: "dec_nat \<bar>p\<bar> = dec_digit k # ds" using dec_nat_Cons by blast
  let ?u = "dec_nat \<bar>p\<bar> @ ''/'' @ dec_nat q"
  have tw: "takeWhile (\<lambda>c. c \<noteq> CHR ''/'') ?u = dec_nat \<bar>p\<bar>"
    "dropWhile (\<lambda>c. c \<noteq> CHR ''/'') ?u = ''/'' @ dec_nat q"
    using dec_nat_no_slash [of "\<bar>p\<bar>"] by (auto simp: takeWhile_append dropWhile_append)
  have neg: "(case frac_text x of c # cs \<Rightarrow> c = CHR ''-'' | [] \<Rightarrow> False) \<longleftrightarrow> p < 0"
    "(if p < 0 then tl (frac_text x) else frac_text x) = ?u"
    using d dec_digit_not_sign(1) [of k] by (auto simp: frac_text_def pq)
  show ?thesis
    unfolding frac_value_def Let_def neg(1) neg(2) tw using q by (simp add: x)
qed

lemma redis_map_laws: "redis_laws redis_map (\<lambda>s k. map_of (fst (s k))) (\<lambda>s k. snd (s k))"
proof -
  have e: "map_of xs = Map.empty \<longleftrightarrow> xs = []" for xs :: "(string \<times> string) list"
    by (cases xs) auto
  have f: "rfields (\<lambda>s k. map_of (fst (s k))) (\<lambda>s k. snd (s k)) s t k = map_of (rmap_fields s t k)"
    for s :: rmap and t k
    by (simp add: rfields_def rlive_def rmap_fields_def split: option.splits)
  show ?thesis
    unfolding redis_laws_def f e
    by (auto simp: redis_map_def rlive_def fun_eq_iff split: option.splits)
qed

end
