(* ===== verification/Redis_Scripts.thy ===== *)
theory Redis_Scripts
  imports Redis_Server
begin

text \<open>
  The Lua scripts of package \<^verbatim>\<open>redisstore\<close> (\<^verbatim>\<open>pkg/store/redis/lua\<close>). Redis runs a script as one
  atomic step, at one instant of its clock: a script is a function from the server state
  and the instant to a reply and the new state. A Lua number is a double; an integer
  argument is sent as decimal text and read with \<^verbatim>\<open>tonumber\<close>, which rounds it to a double,
  and a number in a reply is truncated to a 64-bit integer. Arithmetic on a missing field
  is an error of the script, here before it writes anything.

  The functions \<^verbatim>\<open>refill\<close>, \<^verbatim>\<open>remaining\<close>, \<^verbatim>\<open>retry_after_ms\<close> and \<^verbatim>\<open>reset_ms\<close> stand with the
  same text in every script that uses them.
\<close>

datatype reply = RInt int64 | RBulk string | RNil | RArr "reply list"

datatype script_result = Reply reply | ErrorReply string

text \<open>A Lua number in a reply, and a missing number in arithmetic.\<close>

definition rnum :: "float64 \<Rightarrow> reply" where
  "rnum x = RInt (i64_of_f64 x)"

definition nil_error :: string where
  "nil_error = ''attempt to perform arithmetic on a nil value''"

section \<open>Shared functions\<close>

definition lua_now :: "time \<Rightarrow> float64" where
  "lua_now t = f64_add (f64_mul (f64_of_int (t div 1000000000)) 1000)
     (f64_floor (f64_div (f64_of_int (t div 1000 mod 1000000)) 1000))"

definition lua_field :: "'r RedisOps \<Rightarrow> 'r \<Rightarrow> time \<Rightarrow> string \<Rightarrow> string \<Rightarrow> float64 option" where
  "lua_field R s t key f =
     (case rHGet R s t key f of None \<Rightarrow> None | Some v \<Rightarrow> rToNumber R v)"

definition lua_refill :: "'r RedisOps \<Rightarrow> 'r \<Rightarrow> time \<Rightarrow> string \<Rightarrow> float64 \<Rightarrow> float64" where
  "lua_refill R s t key capacity =
     (let now_ms = lua_now t
      in case (lua_field R s t key ''tokens'', lua_field R s t key ''last_ms'') of
           (Some tokens, Some last_ms) \<Rightarrow>
             if now_ms > last_ms \<and> capacity > 0 then
               (let elapsed = f64_div (f64_sub now_ms last_ms) 1000;
                    rate = f64_div capacity 60
                in min capacity (f64_add tokens (f64_mul elapsed rate)))
             else tokens
         | _ \<Rightarrow> capacity)"

definition lua_remaining :: "float64 \<Rightarrow> float64" where
  "lua_remaining tokens = f64_floor tokens"

definition lua_retry_after_ms :: "float64 \<Rightarrow> float64 \<Rightarrow> float64 \<Rightarrow> float64" where
  "lua_retry_after_ms tokens capacity need =
     (if capacity \<le> 0 then 3600000
      else
        (let rate = f64_div capacity 60;
             deficit = f64_sub need tokens
         in if deficit \<le> 0 then 0 else f64_mul (f64_ceil (f64_div deficit rate)) 1000))"

definition lua_reset_ms :: "float64 \<Rightarrow> float64 \<Rightarrow> float64 \<Rightarrow> float64" where
  "lua_reset_ms now_ms tokens capacity =
     (if capacity \<le> 0 then now_ms
      else
        (let rate = f64_div capacity 60;
             need = f64_sub capacity tokens
         in if need \<le> 0 then now_ms
            else f64_add now_ms (f64_ceil (f64_mul (f64_div need rate) 1000))))"

definition lua_clamp :: "float64 \<Rightarrow> float64" where
  "lua_clamp x = (if x < 0 then 0 else x)"

definition lua_put :: "'r RedisOps \<Rightarrow> time \<Rightarrow> string \<Rightarrow> float64 \<Rightarrow> 'r \<Rightarrow> 'r" where
  "lua_put R t key tokens s =
     rHMSet R s t key [(''tokens'', rNumText R tokens), (''last_ms'', rNumText R (lua_now t))]"

section \<open>check.lua and check\_io.lua\<close>

definition lua_check :: "'r RedisOps \<Rightarrow> 'r \<Rightarrow> time \<Rightarrow> string \<Rightarrow> string \<Rightarrow> string \<Rightarrow>
    int64 \<Rightarrow> int64 \<Rightarrow> int64 \<Rightarrow> int64 \<Rightarrow> int64 \<Rightarrow> string \<Rightarrow> string \<Rightarrow> script_result \<times> 'r" where
  "lua_check R s t rpm_key tpm_key res_key limit_rpm0 limit_tpm0 cost_rpm0 cost_tpm0 ttl_sec subject model =
     (let limit_rpm = f64_of_int limit_rpm0; limit_tpm = f64_of_int limit_tpm0;
          now_ms = lua_now t;
          cost_rpm = lua_clamp (f64_of_int cost_rpm0); cost_tpm = lua_clamp (f64_of_int cost_tpm0);
          rpm_tokens = lua_refill R s t rpm_key limit_rpm;
          tpm_tokens = lua_refill R s t tpm_key limit_tpm
      in if rpm_tokens < cost_rpm \<or> cost_rpm > limit_rpm then
           (Reply (RArr [RInt 0, RBulk ''requests'', rnum (lua_remaining rpm_tokens),
              rnum (lua_remaining tpm_tokens), rnum (lua_retry_after_ms rpm_tokens limit_rpm cost_rpm),
              rnum (lua_reset_ms now_ms rpm_tokens limit_rpm),
              rnum (lua_reset_ms now_ms tpm_tokens limit_tpm), RInt 0]), s)
         else if tpm_tokens < cost_tpm \<or> cost_tpm > limit_tpm then
           (Reply (RArr [RInt 0, RBulk ''tokens'', rnum (lua_remaining rpm_tokens),
              rnum (lua_remaining tpm_tokens), rnum (lua_retry_after_ms tpm_tokens limit_tpm cost_tpm),
              rnum (lua_reset_ms now_ms rpm_tokens limit_rpm),
              rnum (lua_reset_ms now_ms tpm_tokens limit_tpm), RInt 0]), s)
         else
           (let rpm2 = f64_sub rpm_tokens cost_rpm;
                tpm2 = f64_sub tpm_tokens cost_tpm;
                s1 = lua_put R t rpm_key rpm2 s;
                s2 = lua_put R t tpm_key tpm2 s1;
                s3 = rHMSet R s2 t res_key
                  [(''subject'', subject), (''model'', model), (''mode'', ''classic''),
                   (''rpm_cost'', rNumText R cost_rpm), (''tpm_reserved'', rNumText R cost_tpm),
                   (''limit_rpm'', rNumText R limit_rpm), (''limit_tpm'', rNumText R limit_tpm),
                   (''status'', ''pending''), (''created_ms'', rNumText R now_ms)]
            in (Reply (RArr [RInt 1, RBulk '''', rnum (lua_remaining rpm2), rnum (lua_remaining tpm2),
                  RInt 0, rnum (lua_reset_ms now_ms rpm2 limit_rpm),
                  rnum (lua_reset_ms now_ms tpm2 limit_tpm), RInt 0]),
                rExpire R s3 t res_key ttl_sec)))"

definition lua_check_io :: "'r RedisOps \<Rightarrow> 'r \<Rightarrow> time \<Rightarrow> string \<Rightarrow> string \<Rightarrow> string \<Rightarrow> string \<Rightarrow>
    int64 \<Rightarrow> int64 \<Rightarrow> int64 \<Rightarrow> int64 \<Rightarrow> int64 \<Rightarrow> int64 \<Rightarrow> int64 \<Rightarrow> string \<Rightarrow> string \<Rightarrow> script_result \<times> 'r" where
  "lua_check_io R s t rpm_key itpm_key otpm_key res_key limit_rpm0 limit_itpm0 limit_otpm0
       cost_rpm0 cost_itpm0 cost_otpm0 ttl_sec subject model =
     (let limit_rpm = f64_of_int limit_rpm0; limit_itpm = f64_of_int limit_itpm0;
          limit_otpm = f64_of_int limit_otpm0;
          now_ms = lua_now t;
          cost_rpm = lua_clamp (f64_of_int cost_rpm0); cost_itpm = lua_clamp (f64_of_int cost_itpm0);
          cost_otpm = lua_clamp (f64_of_int cost_otpm0);
          rpm_tokens = lua_refill R s t rpm_key limit_rpm;
          itpm_tokens = lua_refill R s t itpm_key limit_itpm;
          otpm_tokens = lua_refill R s t otpm_key limit_otpm;
          denied = (\<lambda>what ra. Reply (RArr [RInt 0, RBulk what, rnum (lua_remaining rpm_tokens),
             rnum (lua_remaining itpm_tokens), rnum (lua_remaining otpm_tokens), rnum ra,
             rnum (lua_reset_ms now_ms rpm_tokens limit_rpm),
             rnum (lua_reset_ms now_ms itpm_tokens limit_itpm),
             rnum (lua_reset_ms now_ms otpm_tokens limit_otpm)]))
      in if rpm_tokens < cost_rpm \<or> cost_rpm > limit_rpm then
           (denied ''requests'' (lua_retry_after_ms rpm_tokens limit_rpm cost_rpm), s)
         else if itpm_tokens < cost_itpm \<or> cost_itpm > limit_itpm then
           (denied ''input_tokens'' (lua_retry_after_ms itpm_tokens limit_itpm cost_itpm), s)
         else if otpm_tokens < cost_otpm \<or> cost_otpm > limit_otpm then
           (denied ''output_tokens'' (lua_retry_after_ms otpm_tokens limit_otpm cost_otpm), s)
         else
           (let rpm2 = f64_sub rpm_tokens cost_rpm;
                itpm2 = f64_sub itpm_tokens cost_itpm;
                otpm2 = f64_sub otpm_tokens cost_otpm;
                s1 = lua_put R t rpm_key rpm2 s;
                s2 = lua_put R t itpm_key itpm2 s1;
                s3 = lua_put R t otpm_key otpm2 s2;
                s4 = rHMSet R s3 t res_key
                  [(''subject'', subject), (''model'', model), (''mode'', ''split''),
                   (''rpm_cost'', rNumText R cost_rpm), (''itpm_reserved'', rNumText R cost_itpm),
                   (''otpm_reserved'', rNumText R cost_otpm),
                   (''limit_rpm'', rNumText R limit_rpm), (''limit_itpm'', rNumText R limit_itpm),
                   (''limit_otpm'', rNumText R limit_otpm),
                   (''status'', ''pending''), (''created_ms'', rNumText R now_ms)]
            in (Reply (RArr [RInt 1, RBulk '''', rnum (lua_remaining rpm2), rnum (lua_remaining itpm2),
                  rnum (lua_remaining otpm2), RInt 0, rnum (lua_reset_ms now_ms rpm2 limit_rpm),
                  rnum (lua_reset_ms now_ms itpm2 limit_itpm), rnum (lua_reset_ms now_ms otpm2 limit_otpm)]),
                rExpire R s4 t res_key ttl_sec)))"

section \<open>settle.lua and settle\_io.lua\<close>

text \<open>\<^verbatim>\<open>tonumber(f) or 0\<close>.\<close>

definition lua_or0 :: "float64 option \<Rightarrow> float64" where
  "lua_or0 x = (case x of None \<Rightarrow> 0 | Some v \<Rightarrow> v)"

definition lua_apply_delta :: "float64 \<Rightarrow> float64 \<Rightarrow> float64 \<Rightarrow> float64 \<Rightarrow> float64 \<times> float64" where
  "lua_apply_delta tokens capacity reserved actual =
     (let delta = f64_sub reserved actual
      in if delta > 0 then (min capacity (f64_add tokens delta), 0)
         else if delta < 0 then
           (let need = - delta; avail = f64_floor tokens
            in if avail \<ge> need then (f64_sub tokens need, 0)
               else
                 (let tokens' = f64_sub tokens avail
                  in (if tokens' < 0 then 0 else tokens', f64_sub need avail)))
         else (tokens, 0))"

definition lua_settle :: "'r RedisOps \<Rightarrow> 'r \<Rightarrow> time \<Rightarrow> string \<Rightarrow> string \<Rightarrow> string \<Rightarrow>
    int64 \<Rightarrow> int64 \<Rightarrow> script_result \<times> 'r" where
  "lua_settle R s t res_key rpm_key tpm_key actual0 ttl_sec =
     (if \<not> rExists R s t res_key then (ErrorReply ''reservation not found'', s)
      else
        (let status = rHGet R s t res_key ''status'';
             num = lua_field R s t res_key
         in if rHGet R s t res_key ''mode'' = Some ''split'' then
              (ErrorReply ''wrong settle mode for reservation'', s)
            else if status = Some ''settled'' then
              (Reply (RArr [RInt 1, RBulk '''', rnum (lua_or0 (num ''snap_remaining_rpm'')),
                 rnum (lua_or0 (num ''snap_remaining_tpm'')), RInt 0, RInt 0, RInt 0,
                 rnum (lua_or0 (num ''snap_overshoot'')),
                 rnum (lua_or0 (num ''limit_rpm'')), rnum (lua_or0 (num ''limit_tpm''))]), s)
            else if status = Some ''refunded'' then (ErrorReply ''reservation already refunded'', s)
            else
              (let actual = lua_clamp (f64_of_int actual0); now_ms = lua_now t
               in case (num ''tpm_reserved'', num ''limit_rpm'', num ''limit_tpm'') of
                    (Some tpm_reserved, Some limit_rpm, Some limit_tpm) \<Rightarrow>
                      (let rpm_tokens = lua_refill R s t rpm_key limit_rpm;
                           (tpm_tokens, overshoot) =
                             lua_apply_delta (lua_refill R s t tpm_key limit_tpm) limit_tpm tpm_reserved actual;
                           s1 = lua_put R t tpm_key tpm_tokens s;
                           s2 = lua_put R t rpm_key rpm_tokens s1;
                           rem_rpm = lua_remaining rpm_tokens;
                           rem_tpm = lua_remaining tpm_tokens;
                           s3 = rHMSet R s2 t res_key
                             [(''status'', ''settled''), (''snap_allowed'', rNumText R 1),
                              (''snap_remaining_rpm'', rNumText R rem_rpm),
                              (''snap_remaining_tpm'', rNumText R rem_tpm),
                              (''snap_overshoot'', rNumText R overshoot)]
                       in (Reply (RArr [RInt 1, RBulk '''', rnum rem_rpm, rnum rem_tpm, RInt 0,
                             rnum (lua_reset_ms now_ms rpm_tokens limit_rpm),
                             rnum (lua_reset_ms now_ms tpm_tokens limit_tpm),
                             rnum overshoot, rnum limit_rpm, rnum limit_tpm]),
                           rExpire R s3 t res_key ttl_sec))
                  | _ \<Rightarrow> (ErrorReply nil_error, s))))"

definition lua_settle_io :: "'r RedisOps \<Rightarrow> 'r \<Rightarrow> time \<Rightarrow> string \<Rightarrow> string \<Rightarrow> string \<Rightarrow> string \<Rightarrow>
    int64 \<Rightarrow> int64 \<Rightarrow> int64 \<Rightarrow> script_result \<times> 'r" where
  "lua_settle_io R s t res_key rpm_key itpm_key otpm_key actual_in0 actual_out0 ttl_sec =
     (if \<not> rExists R s t res_key then (ErrorReply ''reservation not found'', s)
      else
        (let status = rHGet R s t res_key ''status'';
             num = lua_field R s t res_key
         in if rHGet R s t res_key ''mode'' \<noteq> Some ''split'' then
              (ErrorReply ''wrong settle mode for reservation'', s)
            else if status = Some ''settled'' then
              (Reply (RArr [RInt 1, RBulk '''', rnum (lua_or0 (num ''snap_remaining_rpm'')),
                 rnum (lua_or0 (num ''snap_remaining_itpm'')), rnum (lua_or0 (num ''snap_remaining_otpm'')),
                 RInt 0, RInt 0, RInt 0, RInt 0,
                 rnum (lua_or0 (num ''snap_overshoot_itpm'')), rnum (lua_or0 (num ''snap_overshoot_otpm'')),
                 rnum (lua_or0 (num ''limit_rpm'')), rnum (lua_or0 (num ''limit_itpm'')),
                 rnum (lua_or0 (num ''limit_otpm''))]), s)
            else if status = Some ''refunded'' then (ErrorReply ''reservation already refunded'', s)
            else
              (let actual_in = lua_clamp (f64_of_int actual_in0);
                   actual_out = lua_clamp (f64_of_int actual_out0); now_ms = lua_now t
               in case (num ''itpm_reserved'', num ''otpm_reserved'', num ''limit_rpm'',
                        num ''limit_itpm'', num ''limit_otpm'') of
                    (Some itpm_reserved, Some otpm_reserved, Some limit_rpm, Some limit_itpm, Some limit_otpm) \<Rightarrow>
                      (let rpm_tokens = lua_refill R s t rpm_key limit_rpm;
                           (itpm_tokens, over_in) =
                             lua_apply_delta (lua_refill R s t itpm_key limit_itpm) limit_itpm itpm_reserved actual_in;
                           (otpm_tokens, over_out) =
                             lua_apply_delta (lua_refill R s t otpm_key limit_otpm) limit_otpm otpm_reserved actual_out;
                           s1 = lua_put R t rpm_key rpm_tokens s;
                           s2 = lua_put R t itpm_key itpm_tokens s1;
                           s3 = lua_put R t otpm_key otpm_tokens s2;
                           rem_rpm = lua_remaining rpm_tokens;
                           rem_itpm = lua_remaining itpm_tokens;
                           rem_otpm = lua_remaining otpm_tokens;
                           s4 = rHMSet R s3 t res_key
                             [(''status'', ''settled''),
                              (''snap_remaining_rpm'', rNumText R rem_rpm),
                              (''snap_remaining_itpm'', rNumText R rem_itpm),
                              (''snap_remaining_otpm'', rNumText R rem_otpm),
                              (''snap_overshoot_itpm'', rNumText R over_in),
                              (''snap_overshoot_otpm'', rNumText R over_out)]
                       in (Reply (RArr [RInt 1, RBulk '''', rnum rem_rpm, rnum rem_itpm, rnum rem_otpm, RInt 0,
                             rnum (lua_reset_ms now_ms rpm_tokens limit_rpm),
                             rnum (lua_reset_ms now_ms itpm_tokens limit_itpm),
                             rnum (lua_reset_ms now_ms otpm_tokens limit_otpm),
                             rnum over_in, rnum over_out, rnum limit_rpm, rnum limit_itpm, rnum limit_otpm]),
                           rExpire R s4 t res_key ttl_sec))
                  | _ \<Rightarrow> (ErrorReply nil_error, s))))"

section \<open>refund.lua and refund\_io.lua\<close>

definition lua_refund :: "'r RedisOps \<Rightarrow> 'r \<Rightarrow> time \<Rightarrow> string \<Rightarrow> string \<Rightarrow> string \<Rightarrow>
    int64 \<Rightarrow> script_result \<times> 'r" where
  "lua_refund R s t res_key rpm_key tpm_key ttl_sec =
     (if \<not> rExists R s t res_key then (ErrorReply ''reservation not found'', s)
      else
        (let status = rHGet R s t res_key ''status'';
             num = lua_field R s t res_key
         in if status = Some ''refunded'' then (Reply (RArr [RInt 1]), s)
            else if status = Some ''settled'' then (ErrorReply ''reservation already settled'', s)
            else if rHGet R s t res_key ''mode'' = Some ''split'' then
              (ErrorReply ''wrong settle mode for reservation'', s)
            else
              (case (num ''rpm_cost'', num ''tpm_reserved'', num ''limit_rpm'', num ''limit_tpm'') of
                 (Some rpm_cost, Some tpm_reserved, Some limit_rpm, Some limit_tpm) \<Rightarrow>
                   (let rpm_tokens = min limit_rpm (f64_add (lua_refill R s t rpm_key limit_rpm) rpm_cost);
                        tpm_tokens = min limit_tpm (f64_add (lua_refill R s t tpm_key limit_tpm) tpm_reserved);
                        s1 = lua_put R t rpm_key rpm_tokens s;
                        s2 = lua_put R t tpm_key tpm_tokens s1;
                        s3 = rHMSet R s2 t res_key [(''status'', ''refunded'')]
                    in (Reply (RArr [RInt 1]), rExpire R s3 t res_key ttl_sec))
               | _ \<Rightarrow> (ErrorReply nil_error, s))))"

definition lua_refund_io :: "'r RedisOps \<Rightarrow> 'r \<Rightarrow> time \<Rightarrow> string \<Rightarrow> string \<Rightarrow> string \<Rightarrow> string \<Rightarrow>
    int64 \<Rightarrow> script_result \<times> 'r" where
  "lua_refund_io R s t res_key rpm_key itpm_key otpm_key ttl_sec =
     (if \<not> rExists R s t res_key then (ErrorReply ''reservation not found'', s)
      else
        (let status = rHGet R s t res_key ''status'';
             num = lua_field R s t res_key
         in if status = Some ''refunded'' then (Reply (RInt 1), s)
            else if status = Some ''settled'' then (ErrorReply ''reservation already settled'', s)
            else if rHGet R s t res_key ''mode'' \<noteq> Some ''split'' then
              (ErrorReply ''wrong settle mode for reservation'', s)
            else
              (let rpm_cost = lua_or0 (num ''rpm_cost'');
                   itpm_reserved = lua_or0 (num ''itpm_reserved'');
                   otpm_reserved = lua_or0 (num ''otpm_reserved'')
               in case (num ''limit_rpm'', num ''limit_itpm'', num ''limit_otpm'') of
                 (Some limit_rpm, Some limit_itpm, Some limit_otpm) \<Rightarrow>
                   (let rpm_tokens = min limit_rpm (f64_add (lua_refill R s t rpm_key limit_rpm) rpm_cost);
                        itpm_tokens = min limit_itpm (f64_add (lua_refill R s t itpm_key limit_itpm) itpm_reserved);
                        otpm_tokens = min limit_otpm (f64_add (lua_refill R s t otpm_key limit_otpm) otpm_reserved);
                        s1 = lua_put R t rpm_key rpm_tokens s;
                        s2 = lua_put R t itpm_key itpm_tokens s1;
                        s3 = lua_put R t otpm_key otpm_tokens s2;
                        s4 = rHMSet R s3 t res_key [(''status'', ''refunded'')]
                    in (Reply (RInt 1), rExpire R s4 t res_key ttl_sec))
               | _ \<Rightarrow> (ErrorReply nil_error, s))))"

section \<open>borrow.lua and borrow\_io.lua\<close>

definition lua_borrow :: "'r RedisOps \<Rightarrow> 'r \<Rightarrow> time \<Rightarrow> string \<Rightarrow> string \<Rightarrow>
    int64 \<Rightarrow> int64 \<Rightarrow> int64 \<Rightarrow> int64 \<Rightarrow> int64 \<Rightarrow> int64 \<Rightarrow> script_result \<times> 'r" where
  "lua_borrow R s t rpm_key tpm_key limit_rpm0 limit_tpm0 min_rpm0 min_tpm0 chunk_rpm0 chunk_tpm0 =
     (let limit_rpm = f64_of_int limit_rpm0; limit_tpm = f64_of_int limit_tpm0;
          min_rpm = lua_clamp (f64_of_int min_rpm0); min_tpm = lua_clamp (f64_of_int min_tpm0);
          chunk_rpm = lua_clamp (f64_of_int chunk_rpm0); chunk_tpm = lua_clamp (f64_of_int chunk_tpm0);
          rpm_tokens = lua_refill R s t rpm_key limit_rpm;
          tpm_tokens = lua_refill R s t tpm_key limit_tpm;
          avail_rpm = f64_floor rpm_tokens;
          avail_tpm = f64_floor tpm_tokens
      in if avail_rpm < min_rpm then
           (Reply (RArr [RInt 0, RBulk ''requests'', RInt 0, RInt 0, rnum avail_rpm, rnum avail_tpm,
              rnum (lua_retry_after_ms rpm_tokens limit_rpm min_rpm)]), s)
         else if avail_tpm < min_tpm then
           (Reply (RArr [RInt 0, RBulk ''tokens'', RInt 0, RInt 0, rnum avail_rpm, rnum avail_tpm,
              rnum (lua_retry_after_ms tpm_tokens limit_tpm min_tpm)]), s)
         else
           (let got_rpm = min avail_rpm (max min_rpm chunk_rpm);
                got_tpm = min avail_tpm (max min_tpm chunk_tpm);
                rpm2 = f64_sub rpm_tokens got_rpm;
                tpm2 = f64_sub tpm_tokens got_tpm
            in (Reply (RArr [RInt 1, RBulk '''', rnum got_rpm, rnum got_tpm,
                  rnum (lua_remaining rpm2), rnum (lua_remaining tpm2), RInt 0]),
                lua_put R t tpm_key tpm2 (lua_put R t rpm_key rpm2 s))))"

definition lua_want_got :: "float64 \<Rightarrow> float64 \<Rightarrow> float64 \<Rightarrow> float64" where
  "lua_want_got avail minv chunk =
     (let want = (if chunk > minv then chunk else minv)
      in if avail < want then avail else want)"

definition lua_borrow_io :: "'r RedisOps \<Rightarrow> 'r \<Rightarrow> time \<Rightarrow> string \<Rightarrow> string \<Rightarrow> string \<Rightarrow>
    int64 \<Rightarrow> int64 \<Rightarrow> int64 \<Rightarrow> int64 \<Rightarrow> int64 \<Rightarrow> int64 \<Rightarrow> int64 \<Rightarrow> int64 \<Rightarrow> int64 \<Rightarrow> script_result \<times> 'r" where
  "lua_borrow_io R s t rpm_key itpm_key otpm_key limit_rpm0 limit_itpm0 limit_otpm0
       min_rpm0 min_itpm0 min_otpm0 chunk_rpm0 chunk_itpm0 chunk_otpm0 =
     (let limit_rpm = f64_of_int limit_rpm0; limit_itpm = f64_of_int limit_itpm0;
          limit_otpm = f64_of_int limit_otpm0;
          min_rpm = lua_clamp (f64_of_int min_rpm0); min_itpm = lua_clamp (f64_of_int min_itpm0);
          min_otpm = lua_clamp (f64_of_int min_otpm0);
          chunk_rpm = lua_clamp (f64_of_int chunk_rpm0); chunk_itpm = lua_clamp (f64_of_int chunk_itpm0);
          chunk_otpm = lua_clamp (f64_of_int chunk_otpm0);
          rpm_tokens = lua_refill R s t rpm_key limit_rpm;
          itpm_tokens = lua_refill R s t itpm_key limit_itpm;
          otpm_tokens = lua_refill R s t otpm_key limit_otpm;
          avail_rpm = lua_remaining rpm_tokens;
          avail_itpm = lua_remaining itpm_tokens;
          avail_otpm = lua_remaining otpm_tokens;
          denied = (\<lambda>what ra. Reply (RArr [RInt 0, RBulk what, RInt 0, RInt 0, RInt 0,
             rnum avail_rpm, rnum avail_itpm, rnum avail_otpm, rnum ra]))
      in if avail_rpm < min_rpm then
           (denied ''requests'' (lua_retry_after_ms rpm_tokens limit_rpm min_rpm), s)
         else if avail_itpm < min_itpm then
           (denied ''input_tokens'' (lua_retry_after_ms itpm_tokens limit_itpm min_itpm), s)
         else if avail_otpm < min_otpm then
           (denied ''output_tokens'' (lua_retry_after_ms otpm_tokens limit_otpm min_otpm), s)
         else
           (let got_rpm = lua_want_got avail_rpm min_rpm chunk_rpm;
                got_itpm = lua_want_got avail_itpm min_itpm chunk_itpm;
                got_otpm = lua_want_got avail_otpm min_otpm chunk_otpm;
                rpm2 = f64_sub rpm_tokens got_rpm;
                itpm2 = f64_sub itpm_tokens got_itpm;
                otpm2 = f64_sub otpm_tokens got_otpm
            in (Reply (RArr [RInt 1, RBulk '''', rnum got_rpm, rnum got_itpm, rnum got_otpm,
                  rnum (lua_remaining rpm2), rnum (lua_remaining itpm2), rnum (lua_remaining otpm2), RInt 0]),
                lua_put R t otpm_key otpm2 (lua_put R t itpm_key itpm2 (lua_put R t rpm_key rpm2 s)))))"

section \<open>return.lua and return\_io.lua\<close>

definition lua_return :: "'r RedisOps \<Rightarrow> 'r \<Rightarrow> time \<Rightarrow> string \<Rightarrow> string \<Rightarrow>
    int64 \<Rightarrow> int64 \<Rightarrow> int64 \<Rightarrow> int64 \<Rightarrow> script_result \<times> 'r" where
  "lua_return R s t rpm_key tpm_key limit_rpm0 limit_tpm0 add_rpm0 add_tpm0 =
     (let limit_rpm = f64_of_int limit_rpm0; limit_tpm = f64_of_int limit_tpm0;
          add_rpm = lua_clamp (f64_of_int add_rpm0); add_tpm = lua_clamp (f64_of_int add_tpm0);
          rpm_tokens = min limit_rpm (f64_add (lua_refill R s t rpm_key limit_rpm) add_rpm);
          tpm_tokens = min limit_tpm (f64_add (lua_refill R s t tpm_key limit_tpm) add_tpm)
      in (Reply (RArr [RInt 1, rnum (f64_floor rpm_tokens), rnum (f64_floor tpm_tokens)]),
          lua_put R t tpm_key tpm_tokens (lua_put R t rpm_key rpm_tokens s)))"

definition lua_return_io :: "'r RedisOps \<Rightarrow> 'r \<Rightarrow> time \<Rightarrow> string \<Rightarrow> string \<Rightarrow> string \<Rightarrow>
    int64 \<Rightarrow> int64 \<Rightarrow> int64 \<Rightarrow> int64 \<Rightarrow> int64 \<Rightarrow> int64 \<Rightarrow> script_result \<times> 'r" where
  "lua_return_io R s t rpm_key itpm_key otpm_key limit_rpm0 limit_itpm0 limit_otpm0
       add_rpm0 add_itpm0 add_otpm0 =
     (let limit_rpm = f64_of_int limit_rpm0; limit_itpm = f64_of_int limit_itpm0;
          limit_otpm = f64_of_int limit_otpm0;
          add_rpm = lua_clamp (f64_of_int add_rpm0); add_itpm = lua_clamp (f64_of_int add_itpm0);
          add_otpm = lua_clamp (f64_of_int add_otpm0)
      in if add_rpm = 0 \<and> add_itpm = 0 \<and> add_otpm = 0 then (Reply (RInt 1), s)
         else
           (let rpm_tokens = min limit_rpm (f64_add (lua_refill R s t rpm_key limit_rpm) add_rpm);
                itpm_tokens = min limit_itpm (f64_add (lua_refill R s t itpm_key limit_itpm) add_itpm);
                otpm_tokens = min limit_otpm (f64_add (lua_refill R s t otpm_key limit_otpm) add_otpm)
            in (Reply (RInt 1),
                lua_put R t otpm_key otpm_tokens (lua_put R t itpm_key itpm_tokens
                  (lua_put R t rpm_key rpm_tokens s)))))"

end
