(* ===== verification/Api.thy ===== *)
theory Api
  imports Go_Time
begin

text \<open>
  Package \<^verbatim>\<open>api\<close> (\<^verbatim>\<open>pkg/api/types.go\<close>): the keys, limits, costs and decisions that every
  other component exchanges. A limit type is a Go string type, so it stays a string here
  (the Redis store builds one from whatever a script returns); the named values are
  constants. Zero values of the structs are the constants \<open>zero_Decision\<close> and so on.
\<close>

type_synonym LimitType = string

definition LimitTypeNone :: LimitType where "LimitTypeNone = ''''"
definition LimitTypeRequests :: LimitType where "LimitTypeRequests = ''requests''"
definition LimitTypeTokens :: LimitType where "LimitTypeTokens = ''tokens''"
definition LimitTypeInputTokens :: LimitType where "LimitTypeInputTokens = ''input_tokens''"
definition LimitTypeOutputTokens :: LimitType where "LimitTypeOutputTokens = ''output_tokens''"
definition LimitTypeBackend :: LimitType where "LimitTypeBackend = ''backend''"

lemmas limit_type_defs [api_defs] =
  LimitTypeNone_def LimitTypeRequests_def LimitTypeTokens_def LimitTypeInputTokens_def
  LimitTypeOutputTokens_def LimitTypeBackend_def

datatype FailMode = FailClosed | FailOpen

record Key =
  Subject :: string
  Model :: string

record Limits =
  RequestsPerMinute :: int64
  TokensPerMinute :: int64
  InputTokensPerMinute :: int64
  OutputTokensPerMinute :: int64

definition Split :: "Limits \<Rightarrow> bool" where
  "Split l \<longleftrightarrow> InputTokensPerMinute l > 0 \<and> OutputTokensPerMinute l > 0"

text \<open>The errors a caller can see: the sentinels of package \<^verbatim>\<open>store\<close>, the message of
  \<^verbatim>\<open>Limits.Validate\<close>, the \<^verbatim>\<open>invalidError\<close> of the stores, and anything a backend reports.\<close>

datatype error =
    ErrPartialSplit
  | ErrInvalid string
  | ErrReservationNotFound
  | ErrReservationSettled
  | ErrReservationRefunded
  | ErrWrongSettleMode
  | ErrBackend string

definition Validate :: "Limits \<Rightarrow> error option" where
  "Validate l =
     (let inp = InputTokensPerMinute l > 0;
          out = OutputTokensPerMinute l > 0
      in if inp \<noteq> out then Some ErrPartialSplit else None)"

record Cost =
  Requests :: int64
  CTokens :: int64
  InputTokens :: int64
  OutputTokens :: int64

record Decision =
  Allowed :: bool
  LimitType :: LimitType
  RemainingRPM :: int64
  RemainingTPM :: int64
  RemainingITPM :: int64
  RemainingOTPM :: int64
  LimitRPM :: int64
  LimitTPM :: int64
  LimitITPM :: int64
  LimitOTPM :: int64
  ResetRPM :: time
  ResetTPM :: time
  ResetITPM :: time
  ResetOTPM :: time
  RetryAfter :: duration
  ReservationID :: string
  OvershootTPM :: int64
  OvershootITPM :: int64
  OvershootOTPM :: int64

definition zero_Key :: Key where
  "zero_Key = \<lparr>Subject = '''', Model = ''''\<rparr>"

definition zero_Limits :: Limits where
  "zero_Limits = \<lparr>RequestsPerMinute = 0, TokensPerMinute = 0,
     InputTokensPerMinute = 0, OutputTokensPerMinute = 0\<rparr>"

definition zero_Cost :: Cost where
  "zero_Cost = \<lparr>Requests = 0, CTokens = 0, InputTokens = 0, OutputTokens = 0\<rparr>"

definition zero_Decision :: Decision where
  "zero_Decision = \<lparr>Allowed = False, LimitType = LimitTypeNone,
     RemainingRPM = 0, RemainingTPM = 0, RemainingITPM = 0, RemainingOTPM = 0,
     LimitRPM = 0, LimitTPM = 0, LimitITPM = 0, LimitOTPM = 0,
     ResetRPM = zero_time, ResetTPM = zero_time, ResetITPM = zero_time, ResetOTPM = zero_time,
     RetryAfter = 0, ReservationID = '''',
     OvershootTPM = 0, OvershootITPM = 0, OvershootOTPM = 0\<rparr>"

lemmas zero_defs [api_defs] =
  zero_Key_def zero_Limits_def zero_Cost_def zero_Decision_def

lemma Validate_None_iff:
  "Validate l = None \<longleftrightarrow> (InputTokensPerMinute l > 0 \<longleftrightarrow> OutputTokensPerMinute l > 0)"
  by (simp add: Validate_def)

lemma Validate_Split: "Split l \<Longrightarrow> Validate l = None"
  by (simp add: Split_def Validate_def)

end
