(* ===== verification/Store_Types.thy ===== *)
theory Store_Types
  imports Api
begin

text \<open>
  Package \<^verbatim>\<open>store\<close> (\<^verbatim>\<open>pkg/store/store.go\<close>): what a backend exchanges with the limiter, and
  the interface itself. The Go interface value is a record of functions over the state
  \<open>'s\<close> of the backend; every operation also takes the instant at which the backend reads
  its clock, and returns the new state beside its result.
\<close>

definition ReservationTTL :: duration where
  "ReservationTTL = 15 * Minute"

text \<open>The three values the stores and the lease pool keep in the string field
  \<^verbatim>\<open>status\<close> of a reservation, and the separator they put between the parts of a key.\<close>

datatype status = Pending | Settled | Refunded

definition NUL :: char where
  "NUL = CHR 0x00"

record BorrowSpec =
  MinRPM :: int64
  MinTPM :: int64
  MinITPM :: int64
  MinOTPM :: int64
  ChunkRPM :: int64
  ChunkTPM :: int64
  ChunkITPM :: int64
  ChunkOTPM :: int64

record BorrowResult =
  BrAllowed :: bool
  BrLimitType :: LimitType
  GotRPM :: int64
  GotTPM :: int64
  GotITPM :: int64
  GotOTPM :: int64
  BrRemainingRPM :: int64
  BrRemainingTPM :: int64
  BrRemainingITPM :: int64
  BrRemainingOTPM :: int64
  BrRetryAfter :: duration
  BrLimitRPM :: int64
  BrLimitTPM :: int64
  BrLimitITPM :: int64
  BrLimitOTPM :: int64

definition zero_BorrowSpec :: BorrowSpec where
  "zero_BorrowSpec = \<lparr>MinRPM = 0, MinTPM = 0, MinITPM = 0, MinOTPM = 0,
     ChunkRPM = 0, ChunkTPM = 0, ChunkITPM = 0, ChunkOTPM = 0\<rparr>"

definition zero_BorrowResult :: BorrowResult where
  "zero_BorrowResult = \<lparr>BrAllowed = False, BrLimitType = LimitTypeNone,
     GotRPM = 0, GotTPM = 0, GotITPM = 0, GotOTPM = 0,
     BrRemainingRPM = 0, BrRemainingTPM = 0, BrRemainingITPM = 0, BrRemainingOTPM = 0,
     BrRetryAfter = 0, BrLimitRPM = 0, BrLimitTPM = 0, BrLimitITPM = 0, BrLimitOTPM = 0\<rparr>"

lemmas borrow_zero_defs [api_defs] = zero_BorrowSpec_def zero_BorrowResult_def

record 's StoreOps =
  opCheck :: "'s \<Rightarrow> time \<Rightarrow> Key \<Rightarrow> Limits \<Rightarrow> Cost \<Rightarrow> string \<Rightarrow> (error, Decision) result \<times> 's"
  opSettle :: "'s \<Rightarrow> time \<Rightarrow> string \<Rightarrow> int64 \<Rightarrow> (error, Decision) result \<times> 's"
  opSettleIO :: "'s \<Rightarrow> time \<Rightarrow> string \<Rightarrow> int64 \<Rightarrow> int64 \<Rightarrow> (error, Decision) result \<times> 's"
  opRefund :: "'s \<Rightarrow> time \<Rightarrow> string \<Rightarrow> error option \<times> 's"
  opBorrow :: "'s \<Rightarrow> time \<Rightarrow> Key \<Rightarrow> Limits \<Rightarrow> BorrowSpec \<Rightarrow> (error, BorrowResult) result \<times> 's"
  opReturn :: "'s \<Rightarrow> time \<Rightarrow> Key \<Rightarrow> Limits \<Rightarrow> int64 \<Rightarrow> int64 \<Rightarrow> int64 \<Rightarrow> int64 \<Rightarrow> error option \<times> 's"

end
