(* ===== verification/Go_Json.thy ===== *)
theory Go_Json
  imports Go_Text
begin

text \<open>
  What the program uses of \<^verbatim>\<open>unicode/utf8\<close> and \<^verbatim>\<open>encoding/json\<close>. The decoder follows the
  package: a byte-by-byte scanner validates the whole input first, every value keeps the exact
  bytes it was read from (a \<^verbatim>\<open>json.RawMessage\<close>), and a decoded value is then stored into a Go
  type, where \<^verbatim>\<open>null\<close> leaves the target as it is and a value of the wrong type is an error.
\<close>

section \<open>UTF-8\<close>

definition byte :: "char \<Rightarrow> int" where
  "byte c = of_char c"

definition RuneError :: int where
  "RuneError = 0xFFFD"

definition cont :: "int \<Rightarrow> int \<Rightarrow> int \<Rightarrow> bool" where
  "cont lo hi b \<longleftrightarrow> lo \<le> b \<and> b \<le> hi"

text \<open>\<^verbatim>\<open>utf8.DecodeRune\<close>: the rune and its width; a byte that starts no valid encoding is a
  \<^verbatim>\<open>RuneError\<close> of width one.\<close>

definition DecodeRune :: "string \<Rightarrow> int \<times> nat" where
  "DecodeRune s =
     (case map byte (take 4 s) of
        [] \<Rightarrow> (RuneError, 0)
      | b0 # bs \<Rightarrow>
          if b0 < 0x80 then (b0, 1)
          else if 0xC2 \<le> b0 \<and> b0 \<le> 0xDF then
            (case bs of
               b1 # _ \<Rightarrow> if cont 0x80 0xBF b1 then ((b0 - 0xC0) * 64 + (b1 - 0x80), 2) else (RuneError, 1)
             | _ \<Rightarrow> (RuneError, 1))
          else if 0xE0 \<le> b0 \<and> b0 \<le> 0xEF then
            (case bs of
               b1 # b2 # _ \<Rightarrow>
                 if cont (if b0 = 0xE0 then 0xA0 else 0x80) (if b0 = 0xED then 0x9F else 0xBF) b1 \<and> cont 0x80 0xBF b2
                 then ((b0 - 0xE0) * 4096 + (b1 - 0x80) * 64 + (b2 - 0x80), 3) else (RuneError, 1)
             | _ \<Rightarrow> (RuneError, 1))
          else if 0xF0 \<le> b0 \<and> b0 \<le> 0xF4 then
            (case bs of
               b1 # b2 # b3 # _ \<Rightarrow>
                 if cont (if b0 = 0xF0 then 0x90 else 0x80) (if b0 = 0xF4 then 0x8F else 0xBF) b1
                    \<and> cont 0x80 0xBF b2 \<and> cont 0x80 0xBF b3
                 then ((b0 - 0xF0) * 262144 + (b1 - 0x80) * 4096 + (b2 - 0x80) * 64 + (b3 - 0x80), 4)
                 else (RuneError, 1)
             | _ \<Rightarrow> (RuneError, 1))
          else (RuneError, 1))"

definition rune_width :: "string \<Rightarrow> nat" where
  "rune_width s = snd (DecodeRune s)"

text \<open>\<^verbatim>\<open>utf8.RuneCountInString\<close>.\<close>

fun RuneCount :: "string \<Rightarrow> nat" where
  "RuneCount [] = 0"
| "RuneCount (c # cs) = Suc (RuneCount (drop (rune_width (c # cs) - 1) cs))"

text \<open>\<^verbatim>\<open>utf8.AppendRune\<close>: a surrogate or a value beyond Unicode is encoded as \<^verbatim>\<open>RuneError\<close>.\<close>

definition EncodeRune :: "int \<Rightarrow> string" where
  "EncodeRune r0 =
     (let r = (if r0 > 0x10FFFF \<or> (0xD800 \<le> r0 \<and> r0 \<le> 0xDFFF) then RuneError else r0) in
      map char_of
        (if r < 0x80 then [r]
         else if r < 0x800 then [0xC0 + r div 64, 0x80 + r mod 64]
         else if r < 0x10000 then [0xE0 + r div 4096, 0x80 + r div 64 mod 64, 0x80 + r mod 64]
         else [0xF0 + r div 262144, 0x80 + r div 4096 mod 64, 0x80 + r div 64 mod 64, 0x80 + r mod 64]))"

section \<open>The scanner\<close>

definition json_space :: "char \<Rightarrow> bool" where
  "json_space c \<longleftrightarrow> byte c \<in> {0x20, 0x09, 0x0D, 0x0A}"

definition is_digit :: "char \<Rightarrow> bool" where
  "is_digit c \<longleftrightarrow> digit_value c \<noteq> None"

definition hex_value :: "char \<Rightarrow> int option" where
  "hex_value c =
     (let n = byte c in
      if 48 \<le> n \<and> n \<le> 57 then Some (n - 48)
      else if 97 \<le> n \<and> n \<le> 102 then Some (n - 87)
      else if 65 \<le> n \<and> n \<le> 70 then Some (n - 55) else None)"

definition is_hex :: "char \<Rightarrow> bool" where
  "is_hex c \<longleftrightarrow> hex_value c \<noteq> None"

definition BSL :: char where "BSL = CHR 0x5C"
definition QUOTE :: char where "QUOTE = CHR 0x22"

text \<open>Tokens carry the bytes they were read from.\<close>

datatype tok = TPunct char | TSpace char | TStr string | TNum string | TLit string

datatype numst = NNeg | NZero | NInt | NDot | NFrac | NExp | NExpSign | NExpDigits

datatype lexst = LOut | LStr string | LEsc string | LHex nat string | LNum numst string | LLit string string

definition lex_out :: "char \<Rightarrow> (lexst \<times> tok list) option" where
  "lex_out c =
     (if json_space c then Some (LOut, [TSpace c])
      else if c \<in> set ''{}[]:,'' then Some (LOut, [TPunct c])
      else if c = QUOTE then Some (LStr [c], [])
      else if c = CHR ''-'' then Some (LNum NNeg [c], [])
      else if c = CHR ''0'' then Some (LNum NZero [c], [])
      else if is_digit c then Some (LNum NInt [c], [])
      else if c = CHR ''t'' then Some (LLit ''rue'' [c], [])
      else if c = CHR ''f'' then Some (LLit ''alse'' [c], [])
      else if c = CHR ''n'' then Some (LLit ''ull'' [c], [])
      else None)"

definition num_next :: "numst \<Rightarrow> char \<Rightarrow> numst option" where
  "num_next q c =
     (case q of
        NNeg \<Rightarrow> if c = CHR ''0'' then Some NZero else if is_digit c then Some NInt else None
      | NZero \<Rightarrow> if c = CHR ''.'' then Some NDot else if c \<in> set ''eE'' then Some NExp else None
      | NInt \<Rightarrow> if is_digit c then Some NInt
                else if c = CHR ''.'' then Some NDot else if c \<in> set ''eE'' then Some NExp else None
      | NDot \<Rightarrow> if is_digit c then Some NFrac else None
      | NFrac \<Rightarrow> if is_digit c then Some NFrac else if c \<in> set ''eE'' then Some NExp else None
      | NExp \<Rightarrow> if c \<in> set ''+-'' then Some NExpSign else if is_digit c then Some NExpDigits else None
      | NExpSign \<Rightarrow> if is_digit c then Some NExpDigits else None
      | NExpDigits \<Rightarrow> if is_digit c then Some NExpDigits else None)"

definition num_end :: "numst \<Rightarrow> bool" where
  "num_end q \<longleftrightarrow> q \<in> {NZero, NInt, NFrac, NExpDigits}"

definition lex_step :: "lexst \<Rightarrow> char \<Rightarrow> (lexst \<times> tok list) option" where
  "lex_step q c =
     (case q of
        LOut \<Rightarrow> lex_out c
      | LStr acc \<Rightarrow>
          if c = QUOTE then Some (LOut, [TStr (acc @ [c])])
          else if c = BSL then Some (LEsc (acc @ [c]), [])
          else if byte c < 0x20 then None
          else Some (LStr (acc @ [c]), [])
      | LEsc acc \<Rightarrow>
          if c \<in> set ''bfnrt/'' \<or> c = BSL \<or> c = QUOTE then Some (LStr (acc @ [c]), [])
          else if c = CHR ''u'' then Some (LHex 4 (acc @ [c]), [])
          else None
      | LHex n acc \<Rightarrow>
          if is_hex c then Some (if n \<le> 1 then LStr (acc @ [c]) else LHex (n - 1) (acc @ [c]), []) else None
      | LNum st acc \<Rightarrow>
          (case num_next st c of
             Some st' \<Rightarrow> Some (LNum st' (acc @ [c]), [])
           | None \<Rightarrow>
               if num_end st then
                 (case lex_out c of None \<Rightarrow> None | Some (q', ts) \<Rightarrow> Some (q', TNum acc # ts))
               else None)
      | LLit rest acc \<Rightarrow>
          (case rest of
             [] \<Rightarrow> None
           | r # rs \<Rightarrow>
               if c = r then (if rs = [] then Some (LOut, [TLit (acc @ [c])]) else Some (LLit rs (acc @ [c]), []))
               else None))"

fun lex_from :: "lexst \<Rightarrow> string \<Rightarrow> tok list option" where
  "lex_from q [] =
     (case q of LOut \<Rightarrow> Some [] | LNum st acc \<Rightarrow> if num_end st then Some [TNum acc] else None | _ \<Rightarrow> None)"
| "lex_from q (c # cs) =
     (case lex_step q c of
        None \<Rightarrow> None
      | Some (q', ts) \<Rightarrow> (case lex_from q' cs of None \<Rightarrow> None | Some us \<Rightarrow> Some (ts @ us)))"

section \<open>String literals\<close>

definition hex4 :: "string \<Rightarrow> int option" where
  "hex4 s =
     (case map hex_value (take 4 s) of
        [Some a, Some b, Some c, Some d] \<Rightarrow> Some (a * 4096 + b * 256 + c * 16 + d)
      | _ \<Rightarrow> None)"

text \<open>The second half of a surrogate pair, when an escape for it follows.\<close>

definition low_surrogate :: "string \<Rightarrow> int option" where
  "low_surrogate s =
     (case s of
        c # d # r \<Rightarrow>
          if c = BSL \<and> d = CHR ''u'' then
            (case hex4 r of
               Some v \<Rightarrow> if 0xDC00 \<le> v \<and> v \<le> 0xDFFF then Some v else None
             | None \<Rightarrow> None)
          else None
      | _ \<Rightarrow> None)"

definition escape_char :: "char \<Rightarrow> char" where
  "escape_char e =
     (if e = CHR ''b'' then CHR 0x08 else if e = CHR ''f'' then CHR 0x0C
      else if e = CHR ''n'' then CHR 0x0A else if e = CHR ''r'' then CHR 0x0D
      else if e = CHR ''t'' then CHR 0x09 else e)"

fun unquote :: "string \<Rightarrow> string" where
  "unquote [] = []"
| "unquote (c # cs) =
     (if c = BSL then
        (case cs of
           [] \<Rightarrow> []
         | e # es \<Rightarrow>
             if e = CHR ''u'' then
               (case hex4 es of
                  None \<Rightarrow> []
                | Some v \<Rightarrow>
                    (let rest = drop 4 es in
                     if 0xD800 \<le> v \<and> v \<le> 0xDBFF \<and> low_surrogate rest \<noteq> None then
                       EncodeRune (0x10000 + (v - 0xD800) * 1024 + (the (low_surrogate rest) - 0xDC00))
                         @ unquote (drop 10 es)
                     else EncodeRune v @ unquote (drop 4 es)))
             else escape_char e # unquote es)
      else if byte c < 0x80 then c # unquote cs
      else EncodeRune (fst (DecodeRune (c # cs))) @ unquote (drop (rune_width (c # cs) - 1) cs))"

section \<open>Values\<close>

text \<open>Members of arrays and objects keep the bytes of the member.\<close>

datatype json =
    JNull
  | JBool bool
  | JNum string
  | JStr string
  | JArr "(string \<times> json) list"
  | JObj "(string \<times> string \<times> json) list"

datatype frame = FArr string "(string \<times> json) list" | FObj string "(string \<times> string \<times> json) list" string

datatype expect = EVal | EValOrEnd | EKeyOrEnd | EKey | EColon | EAfter | EDone string json

definition frame_text :: "string \<Rightarrow> frame \<Rightarrow> frame" where
  "frame_text t f = (case f of FArr r es \<Rightarrow> FArr (r @ t) es | FObj r ms k \<Rightarrow> FObj (r @ t) ms k)"

definition add_text :: "string \<Rightarrow> frame list \<Rightarrow> frame list" where
  "add_text t st = (case st of [] \<Rightarrow> [] | f # fs \<Rightarrow> frame_text t f # fs)"

definition put_value :: "string \<Rightarrow> json \<Rightarrow> frame list \<Rightarrow> expect \<times> frame list" where
  "put_value raw j st =
     (case st of
        [] \<Rightarrow> (EDone raw j, [])
      | FArr r es # fs \<Rightarrow> (EAfter, FArr (r @ raw) (es @ [(raw, j)]) # fs)
      | FObj r ms k # fs \<Rightarrow> (EAfter, FObj (r @ raw) (ms @ [(k, raw, j)]) k # fs))"

definition maxNestingDepth :: nat where
  "maxNestingDepth = 10000"

definition open_frame :: "frame \<Rightarrow> expect \<Rightarrow> frame list \<Rightarrow> (expect \<times> frame list) option" where
  "open_frame f e st = (if length st < maxNestingDepth then Some (e, f # st) else None)"

definition close_frame :: "char \<Rightarrow> frame list \<Rightarrow> (expect \<times> frame list) option" where
  "close_frame c st =
     (case st of
        FArr r es # fs \<Rightarrow> if c = CHR '']'' then Some (put_value (r @ [c]) (JArr es) fs) else None
      | FObj r ms k # fs \<Rightarrow> if c = CHR ''}'' then Some (put_value (r @ [c]) (JObj ms) fs) else None
      | [] \<Rightarrow> None)"

definition unquoted :: "string \<Rightarrow> string" where
  "unquoted raw = unquote (butlast (tl raw))"

definition lit_value :: "string \<Rightarrow> json" where
  "lit_value t = (if t = ''true'' then JBool True else if t = ''false'' then JBool False else JNull)"

definition begin_value :: "tok \<Rightarrow> frame list \<Rightarrow> (expect \<times> frame list) option" where
  "begin_value t st =
     (case t of
        TStr raw \<Rightarrow> Some (put_value raw (JStr (unquoted raw)) st)
      | TNum raw \<Rightarrow> Some (put_value raw (JNum raw) st)
      | TLit raw \<Rightarrow> Some (put_value raw (lit_value raw) st)
      | TPunct c \<Rightarrow>
          if c = CHR ''['' then open_frame (FArr [c] []) EValOrEnd st
          else if c = CHR ''{'' then open_frame (FObj [c] [] []) EKeyOrEnd st
          else None
      | TSpace c \<Rightarrow> None)"

definition begin_key :: "tok \<Rightarrow> frame list \<Rightarrow> (expect \<times> frame list) option" where
  "begin_key t st =
     (case t of
        TStr raw \<Rightarrow>
          (case st of
             FObj r ms k # fs \<Rightarrow> Some (EColon, FObj (r @ raw) ms (unquoted raw) # fs)
           | _ \<Rightarrow> None)
      | _ \<Rightarrow> None)"

definition parse_step :: "expect \<times> frame list \<Rightarrow> tok \<Rightarrow> (expect \<times> frame list) option" where
  "parse_step q t =
     (let (e, st) = q in
        case t of
          TSpace c \<Rightarrow> Some (e, add_text [c] st)
        | _ \<Rightarrow>
            (case e of
               EVal \<Rightarrow> begin_value t st
             | EValOrEnd \<Rightarrow> if t = TPunct (CHR '']'') then close_frame (CHR '']'') st else begin_value t st
             | EKeyOrEnd \<Rightarrow>
                 (if t = TPunct (CHR ''}'') then close_frame (CHR ''}'') st else begin_key t st)
             | EKey \<Rightarrow> begin_key t st
             | EColon \<Rightarrow> if t = TPunct (CHR '':'') then Some (EVal, add_text '':'' st) else None
             | EAfter \<Rightarrow>
                 (case t of
                    TPunct c \<Rightarrow>
                      if c = CHR '','' then
                        (case st of
                           FArr _ _ # _ \<Rightarrow> Some (EVal, add_text [c] st)
                         | FObj _ _ _ # _ \<Rightarrow> Some (EKey, add_text [c] st)
                         | [] \<Rightarrow> None)
                      else close_frame c st
                  | _ \<Rightarrow> None)
             | EDone _ _ \<Rightarrow> None))"

fun parse_from :: "expect \<times> frame list \<Rightarrow> tok list \<Rightarrow> json option" where
  "parse_from q [] = (case q of (EDone raw j, _) \<Rightarrow> Some j | _ \<Rightarrow> None)"
| "parse_from q (t # ts) = (case parse_step q t of None \<Rightarrow> None | Some q' \<Rightarrow> parse_from q' ts)"

definition json_parse :: "string \<Rightarrow> json option" where
  "json_parse s = (case lex_from LOut s of None \<Rightarrow> None | Some ts \<Rightarrow> parse_from (EVal, []) ts)"

section \<open>Storing into Go types\<close>

text \<open>\<^verbatim>\<open>json.Unmarshal\<close> into a \<^verbatim>\<open>map[string]json.RawMessage\<close>: later members win.\<close>

definition um_raw_map :: "string \<Rightarrow> (string \<rightharpoonup> string) option" where
  "um_raw_map s =
     (case json_parse s of
        Some JNull \<Rightarrow> Some Map.empty
      | Some (JObj ms) \<Rightarrow> Some (map_of (rev (map (\<lambda>(k, r, j). (k, r)) ms)))
      | _ \<Rightarrow> None)"

definition store_int64 :: "int64 \<Rightarrow> json \<Rightarrow> int64 option" where
  "store_int64 old j =
     (case j of
        JNull \<Rightarrow> Some old
      | JNum l \<Rightarrow> if snd (ParseInt l) then Some (fst (ParseInt l)) else None
      | _ \<Rightarrow> None)"

definition um_int64 :: "string \<Rightarrow> int64 option" where
  "um_int64 s = (case json_parse s of None \<Rightarrow> None | Some j \<Rightarrow> store_int64 0 j)"

definition um_string :: "string \<Rightarrow> string option" where
  "um_string s = (case json_parse s of Some JNull \<Rightarrow> Some '''' | Some (JStr x) \<Rightarrow> Some x | _ \<Rightarrow> None)"

text \<open>Into a \<^verbatim>\<open>map[string]int64\<close>: one member of another type makes the whole call an error.\<close>

definition um_int_map :: "string \<Rightarrow> (string \<rightharpoonup> int64) option" where
  "um_int_map s =
     (case json_parse s of
        Some JNull \<Rightarrow> Some Map.empty
      | Some (JObj ms) \<Rightarrow>
          if \<forall>(k, r, j)\<in>set ms. store_int64 0 j \<noteq> None
          then Some (map_of (rev (map (\<lambda>(k, r, j). (k, the (store_int64 0 j))) ms))) else None
      | _ \<Rightarrow> None)"

text \<open>A number stored into an \<^verbatim>\<open>any\<close> becomes a double; one beyond the doubles is an error.\<close>

fun split_at :: "(char \<Rightarrow> bool) \<Rightarrow> string \<Rightarrow> string \<times> string" where
  "split_at P [] = ([], [])"
| "split_at P (c # cs) = (if P c then ([], cs) else (case split_at P cs of (a, b) \<Rightarrow> (c # a, b)))"

definition digits_value :: "string \<Rightarrow> int" where
  "digits_value s = (case parse_digits 0 s of None \<Rightarrow> 0 | Some n \<Rightarrow> n)"

definition exp_value :: "string \<Rightarrow> int" where
  "exp_value s =
     (case s of
        [] \<Rightarrow> 0
      | c # cs \<Rightarrow> if c = CHR ''-'' then - digits_value cs
                  else if c = CHR ''+'' then digits_value cs else digits_value s)"

definition num_fits :: "string \<Rightarrow> bool" where
  "num_fits l \<longleftrightarrow>
     (let (m, e) = split_at (\<lambda>c. c \<in> set ''eE'') (if take 1 l = ''-'' then drop 1 l else l);
          (i, f) = split_at (\<lambda>c. c = CHR ''.'') m;
          x = exp_value e - int (length f);
          d = digits_value (i @ f)
      in if x \<ge> 0 then d * 10 ^ nat x < 2 ^ 1024 - 2 ^ 970
         else d < (2 ^ 1024 - 2 ^ 970) * 10 ^ nat (- x))"

fun any_ok :: "json \<Rightarrow> bool" and any_ok_arr :: "(string \<times> json) list \<Rightarrow> bool"
  and any_ok_obj :: "(string \<times> string \<times> json) list \<Rightarrow> bool" where
  "any_ok (JNum l) = num_fits l"
| "any_ok (JArr es) = any_ok_arr es"
| "any_ok (JObj ms) = any_ok_obj ms"
| "any_ok _ = True"
| "any_ok_arr [] = True"
| "any_ok_arr ((r, j) # es) = (any_ok j \<and> any_ok_arr es)"
| "any_ok_obj [] = True"
| "any_ok_obj ((k, r, j) # ms) = (any_ok j \<and> any_ok_obj ms)"

text \<open>Into a \<^verbatim>\<open>[]map[string]any\<close>: per element, the decoded members (\<open>None\<close> for the nil map).\<close>

definition um_parts :: "string \<Rightarrow> (string \<rightharpoonup> json) list option" where
  "um_parts s =
     (case json_parse s of
        Some JNull \<Rightarrow> Some []
      | Some (JArr es) \<Rightarrow>
          if \<forall>(r, j)\<in>set es. (case j of JNull \<Rightarrow> True | JObj ms \<Rightarrow> any_ok j | _ \<Rightarrow> False)
          then Some (map (\<lambda>(r, j). case j of JObj ms \<Rightarrow> map_of (rev (map (\<lambda>(k, r, v). (k, v)) ms))
                                          | _ \<Rightarrow> Map.empty) es)
          else None
      | _ \<Rightarrow> None)"

text \<open>The members that go into a struct field: names match up to simple case folding, in which the
  long s and the Kelvin sign fold to letters.\<close>

fun fold_name :: "string \<Rightarrow> string" where
  "fold_name [] = []"
| "fold_name (c # cs) =
     (if byte c = 0xC5 \<and> map byte (take 1 cs) = [0xBF] then CHR ''s'' # fold_name (drop 1 cs)
      else if byte c = 0xE2 \<and> map byte (take 2 cs) = [0x84, 0xAA] then CHR ''k'' # fold_name (drop 2 cs)
      else to_lower c # fold_name cs)"

definition field :: "string \<Rightarrow> (string \<times> string \<times> json) list \<Rightarrow> (string \<times> json) list" where
  "field name ms = map snd (filter (\<lambda>(k, r, j). fold_name k = fold_name name) ms)"

text \<open>Into a \<^verbatim>\<open>[]struct\<close> with one \<^verbatim>\<open>json.RawMessage\<close> field: its bytes per element, empty when absent.\<close>

definition um_raw_field :: "string \<Rightarrow> string \<Rightarrow> string list option" where
  "um_raw_field name s =
     (case json_parse s of
        Some JNull \<Rightarrow> Some []
      | Some (JArr es) \<Rightarrow>
          if \<forall>(r, j)\<in>set es. (case j of JNull \<Rightarrow> True | JObj ms \<Rightarrow> True | _ \<Rightarrow> False)
          then Some (map (\<lambda>(r, j). case j of JObj ms \<Rightarrow> (case rev (field name ms) of [] \<Rightarrow> '''' | (raw, v) # _ \<Rightarrow> raw)
                                          | _ \<Rightarrow> '''') es)
          else None
      | _ \<Rightarrow> None)"

text \<open>Into a struct with one string field; the value of the field and whether there was no error.\<close>

definition store_string :: "string \<times> bool \<Rightarrow> json \<Rightarrow> string \<times> bool" where
  "store_string a j = (case j of JNull \<Rightarrow> a | JStr x \<Rightarrow> (x, snd a) | _ \<Rightarrow> (fst a, False))"

definition um_string_field :: "string \<Rightarrow> string \<Rightarrow> string \<times> bool" where
  "um_string_field name s =
     (case json_parse s of
        Some JNull \<Rightarrow> ('''', True)
      | Some (JObj ms) \<Rightarrow> foldl (\<lambda>a (r, j). store_string a j) ('''', True) (field name ms)
      | _ \<Rightarrow> ('''', False))"

definition store_bool :: "bool \<times> bool \<Rightarrow> json \<Rightarrow> bool \<times> bool" where
  "store_bool a j = (case j of JNull \<Rightarrow> a | JBool x \<Rightarrow> (x, snd a) | _ \<Rightarrow> (fst a, False))"

definition um_bool_field :: "string \<Rightarrow> string \<Rightarrow> bool \<times> bool" where
  "um_bool_field name s =
     (case json_parse s of
        Some JNull \<Rightarrow> (False, True)
      | Some (JObj ms) \<Rightarrow> foldl (\<lambda>a (r, j). store_bool a j) (False, True) (field name ms)
      | _ \<Rightarrow> (False, False))"

section \<open>The encoder\<close>

definition json_safe :: "int \<Rightarrow> bool" where
  "json_safe b \<longleftrightarrow> 0x20 \<le> b \<and> b < 0x80 \<and> b \<notin> {0x22, 0x5C, 0x3C, 0x3E, 0x26}"

definition quote_ascii :: "char \<Rightarrow> string" where
  "quote_ascii c =
     (let b = byte c in
      if json_safe b then [c]
      else if c = BSL \<or> c = QUOTE then [BSL, c]
      else if b = 0x08 then [BSL, CHR ''b''] else if b = 0x0C then [BSL, CHR ''f'']
      else if b = 0x0A then [BSL, CHR ''n''] else if b = 0x0D then [BSL, CHR ''r'']
      else if b = 0x09 then [BSL, CHR ''t'']
      else BSL # ''u00'' @ [hex_digit (b div 16), hex_digit b])"

fun quote_body :: "string \<Rightarrow> string" where
  "quote_body [] = []"
| "quote_body (c # cs) =
     (if byte c < 0x80 then quote_ascii c @ quote_body cs
      else
        (let (r, w) = DecodeRune (c # cs) in
         (if r = RuneError \<and> w = 1 then BSL # ''ufffd''
          else if r = 0x2028 then BSL # ''u2028'' else if r = 0x2029 then BSL # ''u2029''
          else take w (c # cs))
         @ quote_body (drop (rune_width (c # cs) - 1) cs)))"

definition json_quote :: "string \<Rightarrow> string" where
  "json_quote s = QUOTE # quote_body s @ [QUOTE]"

text \<open>Values the program encodes: the members of a map come out in the order of their keys, those of
  a struct in the order of the declaration.\<close>

datatype jout = OStr string | OInt int64 | OBool bool | OMap "(string \<times> jout) list" | OStruct "(string \<times> jout) list"

fun str_less :: "string \<Rightarrow> string \<Rightarrow> bool" where
  "str_less [] t = (t \<noteq> [])"
| "str_less (a # s) [] = False"
| "str_less (a # s) (b # t) = (byte a < byte b \<or> a = b \<and> str_less s t)"

fun ins_key :: "string \<times> 'v \<Rightarrow> (string \<times> 'v) list \<Rightarrow> (string \<times> 'v) list" where
  "ins_key p [] = [p]"
| "ins_key p (q # qs) = (if str_less (fst p) (fst q) then p # q # qs else q # ins_key p qs)"

definition by_key :: "(string \<times> 'v) list \<Rightarrow> (string \<times> 'v) list" where
  "by_key ms = foldr ins_key ms []"

fun commas :: "string list \<Rightarrow> string" where
  "commas [] = []"
| "commas [s] = s"
| "commas (s # ss) = s @ '','' @ commas ss"

definition member_text :: "string \<times> string \<Rightarrow> string" where
  "member_text kv = json_quote (fst kv) @ '':'' @ snd kv"

fun Marshal :: "jout \<Rightarrow> string" and marshal_members :: "(string \<times> jout) list \<Rightarrow> (string \<times> string) list" where
  "Marshal (OStr s) = json_quote s"
| "Marshal (OInt n) = FormatInt n"
| "Marshal (OBool b) = (if b then ''true'' else ''false'')"
| "Marshal (OMap ms) = ''{'' @ commas (map member_text (by_key (marshal_members ms))) @ ''}''"
| "Marshal (OStruct ms) = ''{'' @ commas (map member_text (marshal_members ms)) @ ''}''"
| "marshal_members [] = []"
| "marshal_members ((k, v) # ms) = (k, Marshal v) # marshal_members ms"

end
