(* ===== verification/Go_Http.thy ===== *)
theory Go_Http
  imports Api Go_Json
begin

text \<open>
  What the handlers use of \<^verbatim>\<open>net/http\<close> and \<^verbatim>\<open>context\<close>: a response writer with the header under
  construction, the status and header that went out, and the bytes of the body. What the server
  adds on its own (a sniffed content type, the length, the date) is not modelled.
\<close>

record ResponseWriter =
  wHeader :: header
  wCode :: "int option"
  wSent :: header
  wBody :: string

definition new_writer :: ResponseWriter where
  "new_writer = \<lparr>wHeader = Map.empty, wCode = None, wSent = Map.empty, wBody = []\<rparr>"

definition set_header :: "string \<Rightarrow> string \<Rightarrow> ResponseWriter \<Rightarrow> ResponseWriter" where
  "set_header k v w = w\<lparr>wHeader := header_Set (wHeader w) k v\<rparr>"

definition header_Add :: "header \<Rightarrow> string \<Rightarrow> string \<Rightarrow> header" where
  "header_Add h k v =
     (let c = CanonicalHeaderKey k in h(c \<mapsto> (case h c of None \<Rightarrow> [v] | Some vs \<Rightarrow> vs @ [v])))"

definition header_Del :: "header \<Rightarrow> string \<Rightarrow> header" where
  "header_Del h k = h(CanonicalHeaderKey k := None)"

definition WriteHeader :: "int \<Rightarrow> ResponseWriter \<Rightarrow> ResponseWriter" where
  "WriteHeader code w =
     (case wCode w of Some _ \<Rightarrow> w | None \<Rightarrow> w\<lparr>wCode := Some code, wSent := wHeader w\<rparr>)"

definition rw_Write :: "string \<Rightarrow> ResponseWriter \<Rightarrow> ResponseWriter" where
  "rw_Write bs w = (let w' = WriteHeader 200 w in w'\<lparr>wBody := wBody w' @ bs\<rparr>)"

definition NL :: char where "NL = CHR 0x0A"

definition http_Error :: "string \<Rightarrow> int \<Rightarrow> ResponseWriter \<Rightarrow> ResponseWriter" where
  "http_Error msg code w =
     (let w1 = w\<lparr>wHeader := header_Del (wHeader w) ''Content-Length''\<rparr>;
          w2 = set_header ''Content-Type'' ''text/plain; charset=utf-8'' w1;
          w3 = set_header ''X-Content-Type-Options'' ''nosniff'' w2
      in rw_Write (msg @ [NL]) (WriteHeader code w3))"

text \<open>\<^verbatim>\<open>json.NewEncoder(w).Encode(v)\<close>.\<close>

definition encode_json :: "jout \<Rightarrow> ResponseWriter \<Rightarrow> ResponseWriter" where
  "encode_json v w = rw_Write (Marshal v @ [NL]) w"

text \<open>A context maps keys, told apart by their package-private type, to values.\<close>

type_synonym ctx = "string \<times> int \<Rightarrow> string option"

definition WithValue :: "ctx \<Rightarrow> string \<times> int \<Rightarrow> string \<Rightarrow> ctx" where
  "WithValue c k v = c(k \<mapsto> v)"

section \<open>Error texts\<close>

text \<open>\<^verbatim>\<open>err.Error()\<close> of the errors of the program.\<close>

fun error_text :: "error \<Rightarrow> string" where
  "error_text ErrPartialSplit =
     ''valve: InputTokensPerMinute and OutputTokensPerMinute must both be set (or neither)''"
| "error_text (ErrInvalid msg) = ''valve: '' @ msg"
| "error_text ErrReservationNotFound = ''valve: reservation not found''"
| "error_text ErrReservationSettled = ''valve: reservation already settled''"
| "error_text ErrReservationRefunded = ''valve: reservation already refunded''"
| "error_text ErrWrongSettleMode = ''valve: wrong settle mode for reservation''"
| "error_text (ErrBackend msg) = msg"

section \<open>Facts\<close>

lemma WriteHeader_simps [simp]:
  "wHeader (WriteHeader code w) = wHeader w"
  "wBody (WriteHeader code w) = wBody w"
  "wCode (WriteHeader code w) = (case wCode w of None \<Rightarrow> Some code | Some c \<Rightarrow> Some c)"
  "wSent (WriteHeader code w) = (case wCode w of None \<Rightarrow> wHeader w | Some c \<Rightarrow> wSent w)"
  by (simp_all add: WriteHeader_def split: option.splits)

lemma rw_Write_simps [simp]:
  "wHeader (rw_Write bs w) = wHeader w"
  "wBody (rw_Write bs w) = wBody w @ bs"
  "wCode (rw_Write bs w) = (case wCode w of None \<Rightarrow> Some 200 | Some c \<Rightarrow> Some c)"
  "wSent (rw_Write bs w) = (case wCode w of None \<Rightarrow> wHeader w | Some c \<Rightarrow> wSent w)"
  by (simp_all add: rw_Write_def Let_def)

lemma set_header_simps [simp]:
  "wHeader (set_header k v w) = header_Set (wHeader w) k v"
  "wBody (set_header k v w) = wBody w" "wCode (set_header k v w) = wCode w" "wSent (set_header k v w) = wSent w"
  by (simp_all add: set_header_def)

lemma http_Error_simps [simp]:
  "wCode (http_Error msg code w) = (case wCode w of None \<Rightarrow> Some code | Some c \<Rightarrow> Some c)"
  "wBody (http_Error msg code w) = wBody w @ msg @ [NL]"
  by (simp_all add: http_Error_def Let_def split: option.splits)

lemma encode_json_simps [simp]:
  "wHeader (encode_json v w) = wHeader w"
  "wBody (encode_json v w) = wBody w @ Marshal v @ [NL]"
  "wCode (encode_json v w) = (case wCode w of None \<Rightarrow> Some 200 | Some c \<Rightarrow> Some c)"
  "wSent (encode_json v w) = (case wCode w of None \<Rightarrow> wHeader w | Some c \<Rightarrow> wSent w)"
  by (simp_all add: encode_json_def)

end
