(* ===== verification/Go_Format.thy ===== *)
theory Go_Format
  imports Go_Time Go_Float Go_Text
begin

text \<open>
  Printing of instants and durations, as package \<^verbatim>\<open>time\<close> does it: \<^verbatim>\<open>t.UTC().Format(time.RFC3339Nano)\<close>,
  \<^verbatim>\<open>d.String()\<close> and \<^verbatim>\<open>d.Seconds()\<close>.
\<close>

section \<open>Dates\<close>

text \<open>The date of the \<open>z\<close>-th day since the epoch in the proleptic Gregorian calendar; years are
  counted from March inside an era of 400 years.\<close>

definition civil :: "int \<Rightarrow> int \<times> int \<times> int" where
  "civil z0 =
     (let z = z0 + 719468; era = z div 146097; doe = z mod 146097;
          yoe = (doe - doe div 1460 + doe div 36524 - doe div 146096) div 365;
          doy = doe - (365 * yoe + yoe div 4 - yoe div 100);
          mp = (5 * doy + 2) div 153;
          d = doy - (153 * mp + 2) div 5 + 1;
          m = (if mp < 10 then mp + 3 else mp - 9);
          y = yoe + era * 400 + (if m \<le> 2 then 1 else 0)
      in (y, m, d))"

definition pad :: "nat \<Rightarrow> int \<Rightarrow> string" where
  "pad w n = (let s = dec_nat n in replicate (w - length s) (CHR ''0'') @ s)"

definition year_text :: "int \<Rightarrow> string" where
  "year_text y = (if y < 0 then ''-'' @ pad 4 (- y) else pad 4 y)"

definition trim_zeros :: "string \<Rightarrow> string" where
  "trim_zeros s = rev (dropWhile (\<lambda>c. c = CHR ''0'') (rev s))"

definition fraction :: "nat \<Rightarrow> int \<Rightarrow> string" where
  "fraction w n = (if n = 0 then [] else ''.'' @ trim_zeros (pad w n))"

definition RFC3339Nano :: "time \<Rightarrow> string" where
  "RFC3339Nano t =
     (let s = t div 1000000000; ns = t mod 1000000000;
          sod = s mod 86400; (y, m, d) = civil (s div 86400)
      in year_text y @ ''-'' @ pad 2 m @ ''-'' @ pad 2 d @ ''T''
         @ pad 2 (sod div 3600) @ '':'' @ pad 2 (sod div 60 mod 60) @ '':'' @ pad 2 (sod mod 60)
         @ fraction 9 ns @ ''Z'')"

section \<open>Durations\<close>

definition dur_String :: "duration \<Rightarrow> string" where
  "dur_String d =
     (let u = \<bar>d\<bar>; sgn = (if d < 0 then ''-'' else []) in
      if u = 0 then ''0s''
      else sgn @
        (if u < 1000 then dec_nat u @ ''ns''
         else if u < 1000000 then dec_nat (u div 1000) @ fraction 3 (u mod 1000) @ [CHR 0xC2, CHR 0xB5, CHR ''s'']
         else if u < 1000000000 then dec_nat (u div 1000000) @ fraction 6 (u mod 1000000) @ ''ms''
         else
           (let s = u div 1000000000; frac = fraction 9 (u mod 1000000000)
            in (if s \<ge> 3600 then dec_nat (s div 3600) @ ''h'' else [])
               @ (if s \<ge> 60 then dec_nat (s div 60 mod 60) @ ''m'' else [])
               @ dec_nat (s mod 60) @ frac @ ''s'')))"

definition dur_Seconds :: "duration \<Rightarrow> float64" where
  "dur_Seconds d =
     (let sec = i64_quot d Second; nsec = d - sec * Second
      in f64_add (f64_of_int sec) (f64_div (f64_of_int nsec) 1000000000))"

end
