(* ===== verification/Redis_Store.thy ===== *)
theory Redis_Store
  imports Redis_Scripts Store_Types Go_Http Go_Format
begin

text \<open>
  Package \<^verbatim>\<open>redisstore\<close> (\<^verbatim>\<open>pkg/store/redis/redis.go\<close>): the store that keeps the buckets and
  reservations in Redis. Every operation validates its arguments, names the keys, has one
  script run (\<open>run_script\<close>; \<open>Settle\<close>, \<open>SettleIO\<close> and \<open>Refund\<close> first read the mode of the
  reservation in a call of their own) and decodes the reply. The client library is the
  parameter record of theory \<open>Redis_Server\<close>: a call that is lost on the way, or whose reply is
  lost, returns an error, in the second case after the server has run it. Replies are the
  dynamic values the client decodes: integers, strings, nil and arrays of them.
\<close>

section \<open>Keys\<close>

definition modelOrDash :: "string \<Rightarrow> string" where
  "modelOrDash model = (if model = '''' then ''-'' else model)"

definition bucketKeys :: "Key \<Rightarrow> string \<times> string" where
  "bucketKeys key =
     (let m = modelOrDash (Model key);
          base = ''rl:{{{'' @ Subject key @ ''}}}:'' @ m
      in (base @ '':rpm'', base @ '':tpm''))"

definition bucketKeysIO :: "Key \<Rightarrow> string \<times> string \<times> string" where
  "bucketKeysIO key =
     (let m = modelOrDash (Model key);
          base = ''rl:{{{'' @ Subject key @ ''}}}:'' @ m
      in (base @ '':rpm'', base @ '':itpm'', base @ '':otpm''))"

definition reservationKey :: "string \<Rightarrow> string" where
  "reservationKey rid = ''rl:res:'' @ rid"

section \<open>Calls\<close>

text \<open>\<^verbatim>\<open>script.Run(...).Result()\<close> and \<^verbatim>\<open>rdb.HMGet(...).Result()\<close>; the error of a script carries
  the text the script gave.\<close>

definition run_script :: "'r RedisOps \<Rightarrow> 'r \<Rightarrow> time \<Rightarrow> string \<Rightarrow> ('r \<Rightarrow> script_result \<times> 'r) \<Rightarrow>
    (error, reply) result \<times> 'r" where
  "run_script R s t name script =
     (case rFault R s t name of
        RequestLost msg \<Rightarrow> (Inl (ErrBackend msg), s)
      | ReplyLost msg \<Rightarrow> (Inl (ErrBackend msg), snd (script s))
      | NoFault \<Rightarrow>
          (case script s of
             (Reply r, s') \<Rightarrow> (Inr r, s')
           | (ErrorReply msg, s') \<Rightarrow> (Inl (ErrBackend msg), s')))"

definition reservationMode :: "'r RedisOps \<Rightarrow> 'r \<Rightarrow> time \<Rightarrow> string \<Rightarrow> (error, string \<times> Key) result" where
  "reservationMode R s t reservationID =
     (let resKey = reservationKey reservationID;
          str = (\<lambda>v. case v of None \<Rightarrow> '''' | Some x \<Rightarrow> x)
      in case rFault R s t ''HMGET'' of
           RequestLost msg \<Rightarrow> Inl (ErrBackend msg)
         | ReplyLost msg \<Rightarrow> Inl (ErrBackend msg)
         | NoFault \<Rightarrow>
             (if rHGet R s t resKey ''subject'' = None then Inl ErrReservationNotFound
              else
                (let subject = str (rHGet R s t resKey ''subject'');
                     model = str (rHGet R s t resKey ''model'');
                     mode = str (rHGet R s t resKey ''mode'')
                 in Inr (if mode = '''' then ''classic'' else mode,
                         \<lparr>Subject = subject, Model = model\<rparr>))))"

definition mapResErr :: "error \<Rightarrow> error" where
  "mapResErr err =
     (let msg = error_text err
      in if Contains msg ''reservation not found'' then ErrReservationNotFound
         else if Contains msg ''reservation already settled'' then ErrReservationSettled
         else if Contains msg ''reservation already refunded'' then ErrReservationRefunded
         else if Contains msg ''wrong settle mode'' then ErrWrongSettleMode
         else err)"

section \<open>Replies\<close>

fun toInt64 :: "reply \<Rightarrow> int64" where
  "toInt64 (RInt n) = n"
| "toInt64 (RBulk s) = fst (ParseInt s)"
| "toInt64 _ = 0"

text \<open>\<^verbatim>\<open>fmt.Sprint(x)\<close> and \<^verbatim>\<open>fmt.Sprintf("%#v", x)\<close> of a reply. The latter quotes strings; bytes
  that are not printable ASCII are shown as they are.\<close>

fun fmt_Sprint :: "reply \<Rightarrow> string" where
  "fmt_Sprint (RInt n) = FormatInt n"
| "fmt_Sprint (RBulk s) = s"
| "fmt_Sprint RNil = ''<nil>''"
| "fmt_Sprint (RArr xs) =
     ''['' @ concat (case map fmt_Sprint xs of [] \<Rightarrow> [] | y # ys \<Rightarrow> y # map (\<lambda>z. '' '' @ z) ys) @ '']''"

fun fmt_GoSyntax :: "reply \<Rightarrow> string" where
  "fmt_GoSyntax (RInt n) = FormatInt n"
| "fmt_GoSyntax (RBulk s) =
     CHR 0x22 # concat (map (\<lambda>c. if c = CHR 0x22 \<or> c = CHR 0x5C then [CHR 0x5C, c] else [c]) s) @ [CHR 0x22]"
| "fmt_GoSyntax RNil = ''<nil>''"
| "fmt_GoSyntax (RArr xs) =
     ''[]interface {}{'' @ concat (case map fmt_GoSyntax xs of [] \<Rightarrow> [] | y # ys \<Rightarrow> y # map (\<lambda>z. '', '' @ z) ys) @ ''}''"

fun toString :: "reply \<Rightarrow> string" where
  "toString (RBulk s) = s"
| "toString r = fmt_Sprint r"

text \<open>\<^verbatim>\<open>arr, ok := raw.([]any)\<close> together with the test of the length.\<close>

definition reply_arr :: "nat \<Rightarrow> reply \<Rightarrow> reply list option" where
  "reply_arr n raw = (case raw of RArr arr \<Rightarrow> if length arr < n then None else Some arr | _ \<Rightarrow> None)"

definition unexpected :: "string \<Rightarrow> reply \<Rightarrow> error" where
  "unexpected what raw = ErrBackend (''valve: unexpected '' @ what @ '' response '' @ fmt_GoSyntax raw)"

definition ms_dur :: "reply \<Rightarrow> duration" where
  "ms_dur r = i64_mul (toInt64 r) Millisecond"

definition unix_ms :: "reply \<Rightarrow> time" where
  "unix_ms r = time_of_ms (toInt64 r)"

definition parseDecision :: "reply \<Rightarrow> Limits \<Rightarrow> string \<Rightarrow> (error, Decision) result" where
  "parseDecision raw limits reservationID =
     (case reply_arr 7 raw of
        None \<Rightarrow> Inl (unexpected ''check'' raw)
      | Some arr \<Rightarrow>
          (let allowed = (toInt64 (arr ! 0) = 1);
               dec = zero_Decision\<lparr>Allowed := allowed, LimitType := toString (arr ! 1),
                 RemainingRPM := toInt64 (arr ! 2), RemainingTPM := toInt64 (arr ! 3),
                 RetryAfter := ms_dur (arr ! 4),
                 ResetRPM := unix_ms (arr ! 5), ResetTPM := unix_ms (arr ! 6),
                 LimitRPM := RequestsPerMinute limits, LimitTPM := TokensPerMinute limits\<rparr>
           in Inr (if allowed then dec\<lparr>ReservationID := reservationID, LimitType := LimitTypeNone\<rparr>
                   else dec)))"

definition parseDecisionIO :: "reply \<Rightarrow> Limits \<Rightarrow> string \<Rightarrow> (error, Decision) result" where
  "parseDecisionIO raw limits reservationID =
     (case reply_arr 9 raw of
        None \<Rightarrow> Inl (unexpected ''check_io'' raw)
      | Some arr \<Rightarrow>
          (let allowed = (toInt64 (arr ! 0) = 1);
               dec = zero_Decision\<lparr>Allowed := allowed, LimitType := toString (arr ! 1),
                 RemainingRPM := toInt64 (arr ! 2), RemainingITPM := toInt64 (arr ! 3),
                 RemainingOTPM := toInt64 (arr ! 4), RemainingTPM := toInt64 (arr ! 4),
                 RetryAfter := ms_dur (arr ! 5),
                 ResetRPM := unix_ms (arr ! 6), ResetITPM := unix_ms (arr ! 7),
                 ResetOTPM := unix_ms (arr ! 8), ResetTPM := unix_ms (arr ! 8),
                 LimitRPM := RequestsPerMinute limits, LimitITPM := InputTokensPerMinute limits,
                 LimitOTPM := OutputTokensPerMinute limits, LimitTPM := OutputTokensPerMinute limits\<rparr>
           in Inr (if allowed then dec\<lparr>ReservationID := reservationID, LimitType := LimitTypeNone\<rparr>
                   else dec)))"

definition parseSettle :: "reply \<Rightarrow> string \<Rightarrow> (error, Decision) result" where
  "parseSettle raw reservationID =
     (case reply_arr 8 raw of
        None \<Rightarrow> Inl (unexpected ''settle'' raw)
      | Some arr \<Rightarrow>
          (let dec = zero_Decision\<lparr>Allowed := toInt64 (arr ! 0) = 1, LimitType := toString (arr ! 1),
                 RemainingRPM := toInt64 (arr ! 2), RemainingTPM := toInt64 (arr ! 3),
                 RetryAfter := ms_dur (arr ! 4),
                 ResetRPM := unix_ms (arr ! 5), ResetTPM := unix_ms (arr ! 6),
                 OvershootTPM := toInt64 (arr ! 7), ReservationID := reservationID\<rparr>
           in Inr (if length arr \<ge> 10
                   then dec\<lparr>LimitRPM := toInt64 (arr ! 8), LimitTPM := toInt64 (arr ! 9)\<rparr>
                   else dec)))"

definition parseSettleIO :: "reply \<Rightarrow> string \<Rightarrow> (error, Decision) result" where
  "parseSettleIO raw reservationID =
     (case reply_arr 11 raw of
        None \<Rightarrow> Inl (unexpected ''settle_io'' raw)
      | Some arr \<Rightarrow>
          (let dec = zero_Decision\<lparr>Allowed := toInt64 (arr ! 0) = 1, LimitType := toString (arr ! 1),
                 RemainingRPM := toInt64 (arr ! 2), RemainingITPM := toInt64 (arr ! 3),
                 RemainingOTPM := toInt64 (arr ! 4), RemainingTPM := toInt64 (arr ! 4),
                 RetryAfter := ms_dur (arr ! 5),
                 ResetRPM := unix_ms (arr ! 6), ResetITPM := unix_ms (arr ! 7),
                 ResetOTPM := unix_ms (arr ! 8), ResetTPM := unix_ms (arr ! 8),
                 OvershootITPM := toInt64 (arr ! 9), OvershootOTPM := toInt64 (arr ! 10),
                 ReservationID := reservationID\<rparr>
           in Inr (if length arr \<ge> 14
                   then dec\<lparr>LimitRPM := toInt64 (arr ! 11), LimitITPM := toInt64 (arr ! 12),
                            LimitOTPM := toInt64 (arr ! 13), LimitTPM := toInt64 (arr ! 13)\<rparr>
                   else dec)))"

section \<open>The operations\<close>

definition ttl_seconds :: int64 where
  "ttl_seconds = i64_of_f64 (dur_Seconds ReservationTTL)"

definition redis_Check :: "'r RedisOps \<Rightarrow> 'r \<Rightarrow> time \<Rightarrow> Key \<Rightarrow> Limits \<Rightarrow> Cost \<Rightarrow> string \<Rightarrow>
    (error, Decision) result \<times> 'r" where
  "redis_Check R s t key limits cost reservationID =
     (case Validate limits of
        Some err \<Rightarrow> (Inl err, s)
      | None \<Rightarrow>
          if Subject key = '''' then (Inl (ErrInvalid ''subject required''), s)
          else if reservationID = '''' then (Inl (ErrInvalid ''reservation id required''), s)
          else if Split limits then
            (let (rpmKey, itpmKey, otpmKey) = bucketKeysIO key;
                 (raw, s') = run_script R s t ''check_io''
                   (\<lambda>s. lua_check_io R s t rpmKey itpmKey otpmKey (reservationKey reservationID)
                      (RequestsPerMinute limits) (InputTokensPerMinute limits) (OutputTokensPerMinute limits)
                      (Requests cost) (InputTokens cost) (OutputTokens cost)
                      ttl_seconds (Subject key) (modelOrDash (Model key)))
             in (case raw of Inl err \<Rightarrow> Inl err | Inr r \<Rightarrow> parseDecisionIO r limits reservationID, s'))
          else
            (let (rpmKey, tpmKey) = bucketKeys key;
                 (raw, s') = run_script R s t ''check''
                   (\<lambda>s. lua_check R s t rpmKey tpmKey (reservationKey reservationID)
                      (RequestsPerMinute limits) (TokensPerMinute limits)
                      (Requests cost) (CTokens cost)
                      ttl_seconds (Subject key) (modelOrDash (Model key)))
             in (case raw of Inl err \<Rightarrow> Inl err | Inr r \<Rightarrow> parseDecision r limits reservationID, s')))"

definition redis_Settle :: "'r RedisOps \<Rightarrow> 'r \<Rightarrow> time \<Rightarrow> string \<Rightarrow> int64 \<Rightarrow>
    (error, Decision) result \<times> 'r" where
  "redis_Settle R s t reservationID actualTokens =
     (case reservationMode R s t reservationID of
        Inl err \<Rightarrow> (Inl (mapResErr err), s)
      | Inr (mode, key) \<Rightarrow>
          if mode = ''split'' then (Inl ErrWrongSettleMode, s)
          else
            (let (rpmKey, tpmKey) = bucketKeys key;
                 (raw, s') = run_script R s t ''settle''
                   (\<lambda>s. lua_settle R s t (reservationKey reservationID) rpmKey tpmKey actualTokens ttl_seconds)
             in (case raw of Inl err \<Rightarrow> Inl (mapResErr err) | Inr r \<Rightarrow> parseSettle r reservationID, s')))"

definition redis_SettleIO :: "'r RedisOps \<Rightarrow> 'r \<Rightarrow> time \<Rightarrow> string \<Rightarrow> int64 \<Rightarrow> int64 \<Rightarrow>
    (error, Decision) result \<times> 'r" where
  "redis_SettleIO R s t reservationID actualInput actualOutput =
     (case reservationMode R s t reservationID of
        Inl err \<Rightarrow> (Inl (mapResErr err), s)
      | Inr (mode, key) \<Rightarrow>
          if mode \<noteq> ''split'' then (Inl ErrWrongSettleMode, s)
          else
            (let (rpmKey, itpmKey, otpmKey) = bucketKeysIO key;
                 (raw, s') = run_script R s t ''settle_io''
                   (\<lambda>s. lua_settle_io R s t (reservationKey reservationID) rpmKey itpmKey otpmKey
                      actualInput actualOutput ttl_seconds)
             in (case raw of Inl err \<Rightarrow> Inl (mapResErr err) | Inr r \<Rightarrow> parseSettleIO r reservationID, s')))"

definition redis_Refund :: "'r RedisOps \<Rightarrow> 'r \<Rightarrow> time \<Rightarrow> string \<Rightarrow> error option \<times> 'r" where
  "redis_Refund R s t reservationID =
     (case reservationMode R s t reservationID of
        Inl err \<Rightarrow> (Some (mapResErr err), s)
      | Inr (mode, key) \<Rightarrow>
          (let resKey = reservationKey reservationID;
               (raw, s') =
                 (if mode = ''split'' then
                    (let (rpmKey, itpmKey, otpmKey) = bucketKeysIO key
                     in run_script R s t ''refund_io''
                          (\<lambda>s. lua_refund_io R s t resKey rpmKey itpmKey otpmKey ttl_seconds))
                  else
                    (let (rpmKey, tpmKey) = bucketKeys key
                     in run_script R s t ''refund''
                          (\<lambda>s. lua_refund R s t resKey rpmKey tpmKey ttl_seconds)))
           in (case raw of Inl err \<Rightarrow> Some (mapResErr err) | Inr r \<Rightarrow> None, s')))"

definition parseBorrowIO :: "reply \<Rightarrow> Limits \<Rightarrow> (error, BorrowResult) result" where
  "parseBorrowIO raw limits =
     (case reply_arr 9 raw of
        None \<Rightarrow> Inl (unexpected ''borrow_io'' raw)
      | Some arr \<Rightarrow>
          Inr (zero_BorrowResult\<lparr>BrAllowed := toInt64 (arr ! 0) = 1, BrLimitType := toString (arr ! 1),
             GotRPM := toInt64 (arr ! 2), GotITPM := toInt64 (arr ! 3), GotOTPM := toInt64 (arr ! 4),
             BrRemainingRPM := toInt64 (arr ! 5), BrRemainingITPM := toInt64 (arr ! 6),
             BrRemainingOTPM := toInt64 (arr ! 7), BrRemainingTPM := toInt64 (arr ! 7),
             BrRetryAfter := ms_dur (arr ! 8),
             BrLimitRPM := RequestsPerMinute limits, BrLimitITPM := InputTokensPerMinute limits,
             BrLimitOTPM := OutputTokensPerMinute limits, BrLimitTPM := OutputTokensPerMinute limits\<rparr>))"

definition parseBorrow :: "reply \<Rightarrow> Limits \<Rightarrow> (error, BorrowResult) result" where
  "parseBorrow raw limits =
     (case reply_arr 7 raw of
        None \<Rightarrow> Inl (unexpected ''borrow'' raw)
      | Some arr \<Rightarrow>
          Inr (zero_BorrowResult\<lparr>BrAllowed := toInt64 (arr ! 0) = 1, BrLimitType := toString (arr ! 1),
             GotRPM := toInt64 (arr ! 2), GotTPM := toInt64 (arr ! 3),
             BrRemainingRPM := toInt64 (arr ! 4), BrRemainingTPM := toInt64 (arr ! 5),
             BrRetryAfter := ms_dur (arr ! 6),
             BrLimitRPM := RequestsPerMinute limits, BrLimitTPM := TokensPerMinute limits\<rparr>))"

definition redis_Borrow :: "'r RedisOps \<Rightarrow> 'r \<Rightarrow> time \<Rightarrow> Key \<Rightarrow> Limits \<Rightarrow> BorrowSpec \<Rightarrow>
    (error, BorrowResult) result \<times> 'r" where
  "redis_Borrow R s t key limits spec =
     (case Validate limits of
        Some err \<Rightarrow> (Inl err, s)
      | None \<Rightarrow>
          if Subject key = '''' then (Inl (ErrInvalid ''subject required''), s)
          else if Split limits then
            (let (rpmKey, itpmKey, otpmKey) = bucketKeysIO key;
                 (raw, s') = run_script R s t ''borrow_io''
                   (\<lambda>s. lua_borrow_io R s t rpmKey itpmKey otpmKey
                      (RequestsPerMinute limits) (InputTokensPerMinute limits) (OutputTokensPerMinute limits)
                      (MinRPM spec) (MinITPM spec) (MinOTPM spec)
                      (ChunkRPM spec) (ChunkITPM spec) (ChunkOTPM spec))
             in (case raw of Inl err \<Rightarrow> Inl err | Inr r \<Rightarrow> parseBorrowIO r limits, s'))
          else
            (let (rpmKey, tpmKey) = bucketKeys key;
                 (raw, s') = run_script R s t ''borrow''
                   (\<lambda>s. lua_borrow R s t rpmKey tpmKey
                      (RequestsPerMinute limits) (TokensPerMinute limits)
                      (MinRPM spec) (MinTPM spec) (ChunkRPM spec) (ChunkTPM spec))
             in (case raw of Inl err \<Rightarrow> Inl err | Inr r \<Rightarrow> parseBorrow r limits, s')))"

definition redis_Return :: "'r RedisOps \<Rightarrow> 'r \<Rightarrow> time \<Rightarrow> Key \<Rightarrow> Limits \<Rightarrow>
    int64 \<Rightarrow> int64 \<Rightarrow> int64 \<Rightarrow> int64 \<Rightarrow> error option \<times> 'r" where
  "redis_Return R s t key limits rpm tpm itpm otpm =
     (if Subject key = '''' then (Some (ErrInvalid ''subject required''), s)
      else if rpm \<le> 0 \<and> tpm \<le> 0 \<and> itpm \<le> 0 \<and> otpm \<le> 0 then (None, s)
      else if Split limits then
        (let (rpmKey, itpmKey, otpmKey) = bucketKeysIO key;
             (raw, s') = run_script R s t ''return_io''
               (\<lambda>s. lua_return_io R s t rpmKey itpmKey otpmKey
                  (RequestsPerMinute limits) (InputTokensPerMinute limits) (OutputTokensPerMinute limits)
                  rpm itpm otpm)
         in (case raw of Inl err \<Rightarrow> Some err | Inr r \<Rightarrow> None, s'))
      else
        (let (rpmKey, tpmKey) = bucketKeys key;
             (raw, s') = run_script R s t ''return''
               (\<lambda>s. lua_return R s t rpmKey tpmKey
                  (RequestsPerMinute limits) (TokensPerMinute limits) rpm tpm)
         in (case raw of Inl err \<Rightarrow> Some err | Inr r \<Rightarrow> None, s')))"

text \<open>The store the limiter sees.\<close>

definition redis_store :: "'r RedisOps \<Rightarrow> 'r StoreOps" where
  "redis_store R = \<lparr>opCheck = redis_Check R, opSettle = redis_Settle R, opSettleIO = redis_SettleIO R,
     opRefund = redis_Refund R, opBorrow = redis_Borrow R, opReturn = redis_Return R\<rparr>"

end
