(* ===== verification/Lease_Pool.thy ===== *)
theory Lease_Pool
  imports Store_Types Go_Float
begin

text \<open>
  Package \<^verbatim>\<open>lease\<close>: the configuration (\<^verbatim>\<open>pkg/lease/config.go\<close>), the deny cache
  (\<^verbatim>\<open>pkg/lease/denycache.go\<close>) and the pool of borrowed credits (\<^verbatim>\<open>pkg/lease/lease.go\<close>). Each
  method runs under the mutex of its object, so it is one step on the object's state; it
  takes the instant at which it reads the clock.
\<close>

section \<open>Configuration\<close>

record Config =
  RPMChunk :: int64
  TPMChunk :: int64
  ITPMChunk :: int64
  OTPMChunk :: int64
  LeaseTTL :: duration

definition DefaultConfig :: Config where
  "DefaultConfig = \<lparr>RPMChunk = 5, TPMChunk = 500, ITPMChunk = 500, OTPMChunk = 500, LeaseTTL = 2 * Second\<rparr>"

definition normalized :: "Config \<Rightarrow> Config" where
  "normalized c =
     \<lparr>RPMChunk = (if RPMChunk c \<le> 0 then 5 else RPMChunk c),
      TPMChunk = (if TPMChunk c \<le> 0 then 500 else TPMChunk c),
      ITPMChunk = (if ITPMChunk c \<le> 0 then 500 else ITPMChunk c),
      OTPMChunk = (if OTPMChunk c \<le> 0 then 500 else OTPMChunk c),
      LeaseTTL = (if LeaseTTL c \<le> 0 then 2 * Second else LeaseTTL c)\<rparr>"

section \<open>Deny cache\<close>

record denyEntry =
  deUntil :: time
  deLimitType :: LimitType

type_synonym DenyCache = "string \<rightharpoonup> denyEntry"

definition NewDenyCache :: DenyCache where
  "NewDenyCache = Map.empty"

definition cacheKey :: "Key \<Rightarrow> string" where
  "cacheKey key =
     (let m = (if Model key = '''' then ''-'' else Model key)
      in Subject key @ [NUL] @ m)"

definition deny_Get :: "DenyCache \<Rightarrow> time \<Rightarrow> Key \<Rightarrow> (LimitType \<times> duration) option \<times> DenyCache" where
  "deny_Get c now key =
     (case c (cacheKey key) of
        None \<Rightarrow> (None, c)
      | Some e \<Rightarrow>
          if \<not> time_before now (deUntil e) then (None, c(cacheKey key := None))
          else (Some (deLimitType e, time_sub (deUntil e) now), c))"

definition deny_Set :: "DenyCache \<Rightarrow> time \<Rightarrow> Key \<Rightarrow> LimitType \<Rightarrow> duration \<Rightarrow> DenyCache" where
  "deny_Set c now key limitType retryAfter0 =
     (let ra = (if retryAfter0 \<le> 0 then Second else retryAfter0)
      in c(cacheKey key \<mapsto> \<lparr>deUntil = time_add now ra, deLimitType = limitType\<rparr>))"

definition deny_Clear :: "DenyCache \<Rightarrow> Key \<Rightarrow> DenyCache" where
  "deny_Clear c key = c(cacheKey key := None)"

section \<open>Pool\<close>

record localBucket =
  lbRpm :: int64
  lbTpm :: int64
  lbItpm :: int64
  lbOtpm :: int64
  lbExpiresAt :: time
  lbLimits :: Limits

record Reservation =
  lrKey :: Key
  lrLimits :: Limits
  lrRPMCost :: int64
  lrTPMReserved :: int64
  lrITPMReserved :: int64
  lrOTPMReserved :: int64
  lrStatus :: status
  lrLastDecision :: Decision
  lrExpiresAt :: time

record Stats =
  Hits :: int64
  Misses :: int64
  Borrows :: int64

record Pool =
  pCfg :: Config
  pDeny :: DenyCache
  pLease :: "string \<rightharpoonup> localBucket"
  pRes :: "string \<rightharpoonup> Reservation"
  pHits :: int64
  pMiss :: int64
  pBorrows :: int64

definition NewPool :: "Config \<Rightarrow> Pool" where
  "NewPool cfg = \<lparr>pCfg = normalized cfg, pDeny = NewDenyCache, pLease = Map.empty, pRes = Map.empty,
     pHits = 0, pMiss = 0, pBorrows = 0\<rparr>"

definition pool_Stats :: "Pool \<Rightarrow> Stats" where
  "pool_Stats p = \<lparr>Hits = pHits p, Misses = pMiss p, Borrows = pBorrows p\<rparr>"

definition BorrowCount :: "Pool \<Rightarrow> int64" where
  "BorrowCount p = pBorrows p"

definition keyStr :: "Key \<Rightarrow> string" where
  "keyStr key = cacheKey key"

definition purgeResLocked :: "Pool \<Rightarrow> time \<Rightarrow> Pool" where
  "purgeResLocked p now = p\<lparr>pRes := map_drop (\<lambda>r. time_after now (lrExpiresAt r)) (pRes p)\<rparr>"

definition getLeaseLocked :: "Pool \<Rightarrow> Key \<Rightarrow> time \<Rightarrow> localBucket option \<times> Pool" where
  "getLeaseLocked p key now =
     (let k = keyStr key
      in case pLease p k of
           None \<Rightarrow> (None, p)
         | Some b \<Rightarrow>
             if \<not> time_before now (lbExpiresAt b) then (None, p\<lparr>pLease := (pLease p)(k := None)\<rparr>)
             else (Some b, p))"

definition covers :: "localBucket option \<Rightarrow> Cost \<Rightarrow> bool \<Rightarrow> bool" where
  "covers bo cost split =
     (case bo of
        None \<Rightarrow> False
      | Some b \<Rightarrow>
          if lbRpm b < Requests cost then False
          else if split then lbItpm b \<ge> InputTokens cost \<and> lbOtpm b \<ge> OutputTokens cost
          else lbTpm b \<ge> CTokens cost)"

definition Has :: "Pool \<Rightarrow> time \<Rightarrow> Key \<Rightarrow> Cost \<Rightarrow> Limits \<Rightarrow> bool \<times> Pool" where
  "Has p now key cost limits =
     (let (b, p') = getLeaseLocked p key now in (covers b cost (Split limits), p'))"

text \<open>The zero value of a bucket.\<close>

definition zero_localBucket :: localBucket where
  "zero_localBucket = \<lparr>lbRpm = 0, lbTpm = 0, lbItpm = 0, lbOtpm = 0, lbExpiresAt = zero_time, lbLimits = zero_Limits\<rparr>"

definition CreditLease ::
  "Pool \<Rightarrow> time \<Rightarrow> Key \<Rightarrow> Limits \<Rightarrow> int64 \<Rightarrow> int64 \<Rightarrow> int64 \<Rightarrow> int64 \<Rightarrow> Pool" where
  "CreditLease p now key limits rpm tpm itpm otpm =
     (let k = keyStr key;
          b0 = (case pLease p k of
                  None \<Rightarrow> zero_localBucket
                | Some b \<Rightarrow> if \<not> time_before now (lbExpiresAt b) then zero_localBucket else b);
          b = b0\<lparr>lbRpm := i64_add (lbRpm b0) rpm, lbTpm := i64_add (lbTpm b0) tpm,
                 lbItpm := i64_add (lbItpm b0) itpm, lbOtpm := i64_add (lbOtpm b0) otpm,
                 lbLimits := limits, lbExpiresAt := time_add now (LeaseTTL (pCfg p))\<rparr>
      in p\<lparr>pLease := (pLease p)(k \<mapsto> b)\<rparr>)"

definition TryDebit ::
  "Pool \<Rightarrow> time \<Rightarrow> Key \<Rightarrow> Limits \<Rightarrow> Cost \<Rightarrow> string \<Rightarrow> Decision option \<times> Pool" where
  "TryDebit p0 now key limits cost reservationID =
     (let p1 = purgeResLocked p0 now;
          (bo, p) = getLeaseLocked p1 key now;
          split = Split limits
      in case bo of
           None \<Rightarrow> (None, p\<lparr>pMiss := i64_add (pMiss p) 1\<rparr>)
         | Some b0 \<Rightarrow>
             if \<not> covers (Some b0) cost split then (None, p\<lparr>pMiss := i64_add (pMiss p) 1\<rparr>)
             else
               (let b1 = b0\<lparr>lbRpm := i64_sub (lbRpm b0) (Requests cost)\<rparr>;
                    b2 = (if split then
                            b1\<lparr>lbItpm := i64_sub (lbItpm b1) (InputTokens cost),
                               lbOtpm := i64_sub (lbOtpm b1) (OutputTokens cost)\<rparr>
                          else b1\<lparr>lbTpm := i64_sub (lbTpm b1) (CTokens cost)\<rparr>);
                    b = b2\<lparr>lbExpiresAt := time_add now (LeaseTTL (pCfg p))\<rparr>;
                    r = \<lparr>lrKey = key, lrLimits = limits, lrRPMCost = Requests cost,
                         lrTPMReserved = CTokens cost, lrITPMReserved = InputTokens cost,
                         lrOTPMReserved = OutputTokens cost, lrStatus = Pending,
                         lrLastDecision = zero_Decision, lrExpiresAt = time_add now ReservationTTL\<rparr>;
                    dec0 = zero_Decision\<lparr>Allowed := True, RemainingRPM := lbRpm b,
                             LimitRPM := RequestsPerMinute limits, ReservationID := reservationID\<rparr>;
                    dec = (if split then
                             dec0\<lparr>RemainingITPM := lbItpm b, RemainingOTPM := lbOtpm b, RemainingTPM := lbOtpm b,
                                  LimitITPM := InputTokensPerMinute limits,
                                  LimitOTPM := OutputTokensPerMinute limits,
                                  LimitTPM := OutputTokensPerMinute limits\<rparr>
                           else dec0\<lparr>RemainingTPM := lbTpm b, LimitTPM := TokensPerMinute limits\<rparr>)
                in (Some dec, p\<lparr>pLease := (pLease p)(keyStr key \<mapsto> b),
                                pHits := i64_add (pHits p) 1,
                                pRes := (pRes p)(reservationID \<mapsto> r)\<rparr>)))"

definition NoteBorrow :: "Pool \<Rightarrow> Pool" where
  "NoteBorrow p = p\<lparr>pBorrows := i64_add (pBorrows p) 1\<rparr>"

definition GetReservation :: "Pool \<Rightarrow> time \<Rightarrow> string \<Rightarrow> Reservation option \<times> Pool" where
  "GetReservation p now rid = (let p' = purgeResLocked p now in (pRes p' rid, p'))"

text \<open>The bucket a settlement or a refund works on: the live lease of the key, or a new one.\<close>

definition leaseFor :: "Pool \<Rightarrow> Reservation \<Rightarrow> time \<Rightarrow> localBucket \<times> Pool" where
  "leaseFor p r now =
     (let (bo, p') = getLeaseLocked p (lrKey r) now
      in case bo of
           Some b \<Rightarrow> (b, p')
         | None \<Rightarrow>
             (let b = zero_localBucket\<lparr>lbLimits := lrLimits r, lbExpiresAt := time_add now (LeaseTTL (pCfg p'))\<rparr>
              in (b, p'\<lparr>pLease := (pLease p')(keyStr (lrKey r) \<mapsto> b)\<rparr>)))"

text \<open>The new balance, the overshoot and whether credits were restored.\<close>

definition applyLocalDelta :: "int64 \<Rightarrow> int64 \<Rightarrow> int64 \<Rightarrow> int64 \<times> int64 \<times> bool" where
  "applyLocalDelta bal reserved actual =
     (let delta = i64_sub reserved actual
      in if delta > 0 then (i64_add bal delta, 0, True)
         else if delta < 0 then
           (let need = i64_neg delta
            in if bal \<ge> need then (i64_sub bal need, 0, False)
               else (0, i64_sub need bal, False))
         else (bal, 0, False))"

definition SettleLocal :: "Pool \<Rightarrow> time \<Rightarrow> string \<Rightarrow> int64 \<Rightarrow> (error, Decision) result \<times> Pool" where
  "SettleLocal p0 now rid actual0 =
     (let p = purgeResLocked p0 now
      in case pRes p rid of
           None \<Rightarrow> (Inl ErrReservationNotFound, p)
         | Some r \<Rightarrow>
             if Split (lrLimits r) then (Inl ErrWrongSettleMode, p)
             else if lrStatus r = Settled then (Inr (lrLastDecision r), p)
             else if lrStatus r = Refunded then (Inl ErrReservationRefunded, p)
             else
               (let actualTokens = (if actual0 < 0 then 0 else actual0);
                    (b0, p1) = leaseFor p r now;
                    delta = i64_sub (lrTPMReserved r) actualTokens;
                    need = i64_neg delta;
                    (tpm, overshoot, restored) =
                      (if delta > 0 then (i64_add (lbTpm b0) delta, 0, True)
                       else if delta < 0 then
                         (if lbTpm b0 \<ge> need then (i64_sub (lbTpm b0) need, 0, False)
                          else (0, i64_sub need (lbTpm b0), False))
                       else (lbTpm b0, 0, False));
                    b = b0\<lparr>lbTpm := tpm, lbExpiresAt := time_add now (LeaseTTL (pCfg p1))\<rparr>;
                    dec = zero_Decision\<lparr>Allowed := True, RemainingRPM := lbRpm b, RemainingTPM := lbTpm b,
                            LimitRPM := RequestsPerMinute (lrLimits r), LimitTPM := TokensPerMinute (lrLimits r),
                            ReservationID := rid, OvershootTPM := overshoot\<rparr>;
                    r' = r\<lparr>lrStatus := Settled, lrLastDecision := dec,
                           lrExpiresAt := time_add now ReservationTTL\<rparr>
                in (Inr dec, p1\<lparr>pLease := (pLease p1)(keyStr (lrKey r) \<mapsto> b),
                                pRes := (pRes p1)(rid \<mapsto> r'),
                                pDeny := (if restored then deny_Clear (pDeny p1) (lrKey r) else pDeny p1)\<rparr>)))"

definition SettleLocalIO ::
  "Pool \<Rightarrow> time \<Rightarrow> string \<Rightarrow> int64 \<Rightarrow> int64 \<Rightarrow> (error, Decision) result \<times> Pool" where
  "SettleLocalIO p0 now rid actualIn0 actualOut0 =
     (let p = purgeResLocked p0 now
      in case pRes p rid of
           None \<Rightarrow> (Inl ErrReservationNotFound, p)
         | Some r \<Rightarrow>
             if \<not> Split (lrLimits r) then (Inl ErrWrongSettleMode, p)
             else if lrStatus r = Settled then (Inr (lrLastDecision r), p)
             else if lrStatus r = Refunded then (Inl ErrReservationRefunded, p)
             else
               (let actualInput = (if actualIn0 < 0 then 0 else actualIn0);
                    actualOutput = (if actualOut0 < 0 then 0 else actualOut0);
                    (b0, p1) = leaseFor p r now;
                    (itpm, overIn, restIn) = applyLocalDelta (lbItpm b0) (lrITPMReserved r) actualInput;
                    (otpm, overOut, restOut) = applyLocalDelta (lbOtpm b0) (lrOTPMReserved r) actualOutput;
                    b = b0\<lparr>lbItpm := itpm, lbOtpm := otpm, lbExpiresAt := time_add now (LeaseTTL (pCfg p1))\<rparr>;
                    dec = zero_Decision\<lparr>Allowed := True, RemainingRPM := lbRpm b, RemainingITPM := lbItpm b,
                            RemainingOTPM := lbOtpm b, RemainingTPM := lbOtpm b,
                            LimitRPM := RequestsPerMinute (lrLimits r),
                            LimitITPM := InputTokensPerMinute (lrLimits r),
                            LimitOTPM := OutputTokensPerMinute (lrLimits r),
                            LimitTPM := OutputTokensPerMinute (lrLimits r),
                            ReservationID := rid, OvershootITPM := overIn, OvershootOTPM := overOut\<rparr>;
                    r' = r\<lparr>lrStatus := Settled, lrLastDecision := dec,
                           lrExpiresAt := time_add now ReservationTTL\<rparr>
                in (Inr dec, p1\<lparr>pLease := (pLease p1)(keyStr (lrKey r) \<mapsto> b),
                                pRes := (pRes p1)(rid \<mapsto> r'),
                                pDeny := (if restIn \<or> restOut then deny_Clear (pDeny p1) (lrKey r)
                                          else pDeny p1)\<rparr>)))"

text \<open>Consuming an overshoot from a balance: the new balance and the overshoot left.\<close>

definition payOvershoot :: "int64 \<Rightarrow> int64 \<Rightarrow> int64 \<times> int64" where
  "payOvershoot bal over =
     (if over > 0 then
        (if bal \<ge> over then (i64_sub bal over, 0) else (0, i64_sub over bal))
      else (bal, over))"

definition ApplyBorrowedDeficit :: "Pool \<Rightarrow> time \<Rightarrow> string \<Rightarrow> int64 \<Rightarrow> Pool" where
  "ApplyBorrowedDeficit p now rid gotTPM =
     (case pRes p rid of
        None \<Rightarrow> p
      | Some r \<Rightarrow>
          (let (bo, p1) = getLeaseLocked p (lrKey r) now
           in case bo of
                None \<Rightarrow> p1
              | Some b0 \<Rightarrow>
                  (let over = OvershootTPM (lrLastDecision r);
                       (tpm, over') = payOvershoot (i64_add (lbTpm b0) gotTPM) over;
                       b = b0\<lparr>lbTpm := tpm\<rparr>;
                       d = (lrLastDecision r)\<lparr>OvershootTPM := over', RemainingTPM := lbTpm b,
                              RemainingRPM := lbRpm b\<rparr>
                   in p1\<lparr>pLease := (pLease p1)(keyStr (lrKey r) \<mapsto> b),
                         pRes := (pRes p1)(rid \<mapsto> r\<lparr>lrLastDecision := d\<rparr>)\<rparr>)))"

definition ApplyBorrowedDeficitIO :: "Pool \<Rightarrow> time \<Rightarrow> string \<Rightarrow> int64 \<Rightarrow> int64 \<Rightarrow> Pool" where
  "ApplyBorrowedDeficitIO p now rid gotITPM gotOTPM =
     (case pRes p rid of
        None \<Rightarrow> p
      | Some r \<Rightarrow>
          (let (bo, p1) = getLeaseLocked p (lrKey r) now
           in case bo of
                None \<Rightarrow> p1
              | Some b0 \<Rightarrow>
                  (let (itpm, overIn) = payOvershoot (i64_add (lbItpm b0) gotITPM) (OvershootITPM (lrLastDecision r));
                       (otpm, overOut) = payOvershoot (i64_add (lbOtpm b0) gotOTPM) (OvershootOTPM (lrLastDecision r));
                       b = b0\<lparr>lbItpm := itpm, lbOtpm := otpm\<rparr>;
                       d = (lrLastDecision r)\<lparr>OvershootITPM := overIn, OvershootOTPM := overOut,
                              RemainingITPM := lbItpm b, RemainingOTPM := lbOtpm b,
                              RemainingTPM := lbOtpm b, RemainingRPM := lbRpm b\<rparr>
                   in p1\<lparr>pLease := (pLease p1)(keyStr (lrKey r) \<mapsto> b),
                         pRes := (pRes p1)(rid \<mapsto> r\<lparr>lrLastDecision := d\<rparr>)\<rparr>)))"

definition RefundLocal :: "Pool \<Rightarrow> time \<Rightarrow> string \<Rightarrow> error option \<times> Pool" where
  "RefundLocal p0 now rid =
     (let p = purgeResLocked p0 now
      in case pRes p rid of
           None \<Rightarrow> (Some ErrReservationNotFound, p)
         | Some r \<Rightarrow>
             if lrStatus r = Refunded then (None, p)
             else if lrStatus r = Settled then (Some ErrReservationSettled, p)
             else
               (let (b0, p1) = leaseFor p r now;
                    b1 = b0\<lparr>lbRpm := i64_add (lbRpm b0) (lrRPMCost r)\<rparr>;
                    b2 = (if Split (lrLimits r) then
                            b1\<lparr>lbItpm := i64_add (lbItpm b1) (lrITPMReserved r),
                               lbOtpm := i64_add (lbOtpm b1) (lrOTPMReserved r)\<rparr>
                          else b1\<lparr>lbTpm := i64_add (lbTpm b1) (lrTPMReserved r)\<rparr>);
                    b = b2\<lparr>lbExpiresAt := time_add now (LeaseTTL (pCfg p1))\<rparr>;
                    r' = r\<lparr>lrStatus := Refunded, lrExpiresAt := time_add now ReservationTTL\<rparr>
                in (None, p1\<lparr>pLease := (pLease p1)(keyStr (lrKey r) \<mapsto> b),
                             pRes := (pRes p1)(rid \<mapsto> r'),
                             pDeny := deny_Clear (pDeny p1) (lrKey r)\<rparr>)))"

record LeaseSnap =
  lsKey :: Key
  lsLimits :: Limits
  lsRPM :: int64
  lsTPM :: int64
  lsITPM :: int64
  lsOTPM :: int64

definition splitKey :: "string \<Rightarrow> string \<times> string" where
  "splitKey k =
     (let (pre, post) = (takeWhile (\<lambda>c. c \<noteq> NUL) k, dropWhile (\<lambda>c. c \<noteq> NUL) k)
      in case post of [] \<Rightarrow> (k, ''-'') | _ # rest \<Rightarrow> (pre, rest))"

text \<open>The loop over the leases, in the order \<open>ks\<close> in which the map is visited.\<close>

fun SnapshotLeases :: "string list \<Rightarrow> time \<Rightarrow> Pool \<Rightarrow> LeaseSnap list \<times> Pool" where
  "SnapshotLeases [] now p = ([], p)"
| "SnapshotLeases (k # ks) now p =
     (case pLease p k of
        None \<Rightarrow> SnapshotLeases ks now p
      | Some b \<Rightarrow>
          if \<not> time_before now (lbExpiresAt b) then SnapshotLeases ks now p
          else if lbRpm b \<le> 0 \<and> lbTpm b \<le> 0 \<and> lbItpm b \<le> 0 \<and> lbOtpm b \<le> 0 then SnapshotLeases ks now p
          else
            (let (subj, mdl) = splitKey k;
                 snap = \<lparr>lsKey = \<lparr>Subject = subj, Model = mdl\<rparr>, lsLimits = lbLimits b,
                         lsRPM = lbRpm b, lsTPM = lbTpm b, lsITPM = lbItpm b, lsOTPM = lbOtpm b\<rparr>;
                 b' = b\<lparr>lbRpm := 0, lbTpm := 0, lbItpm := 0, lbOtpm := 0\<rparr>;
                 (out, p') = SnapshotLeases ks now (p\<lparr>pLease := (pLease p)(k \<mapsto> b')\<rparr>)
             in (snap # out, p')))"

definition HitRatio :: "Pool \<Rightarrow> float64" where
  "HitRatio p =
     (let s = pool_Stats p;
          total = i64_add (Hits s) (Misses s)
      in if total = 0 then 0 else f64_div (f64_of_int (Hits s)) (f64_of_int total))"

end
