(* ===== verification/Limiter.thy ===== *)
theory Limiter
  imports Lease_Pool Go_Text
begin

text \<open>
  Package \<^verbatim>\<open>limiter\<close> (\<^verbatim>\<open>pkg/limiter/limiter.go\<close>): the public operations on top of a store, with
  the fail mode and the optional fast path through the lease pool. The store is a parameter,
  the record of operations \<open>S\<close>. A call reads the clock several times and may draw a
  reservation id: the instants are \<open>ts 0\<close>, \<open>ts 1\<close>, \dots in the order of the source, the
  outcomes of \<^verbatim>\<open>newID\<close> are \<open>ids 0\<close> and \<open>ids 1\<close>. A call runs to its end before the next one; theory
  \<open>Concurrent\<close> splits calls into their atomic steps and interleaves them.
\<close>

record 's Limiter =
  limStore :: 's
  limFailMode :: FailMode
  limPool :: "Pool option"

text \<open>The functional options of \<^verbatim>\<open>New\<close>; the id generator is the parameter \<open>ids\<close>.\<close>

definition WithFailMode :: "FailMode \<Rightarrow> 's Limiter \<Rightarrow> 's Limiter" where
  "WithFailMode m l = l\<lparr>limFailMode := m\<rparr>"

definition WithFastPath :: "Config \<Rightarrow> 's Limiter \<Rightarrow> 's Limiter" where
  "WithFastPath cfg l = l\<lparr>limPool := Some (NewPool cfg)\<rparr>"

definition lim_New :: "'s \<Rightarrow> ('s Limiter \<Rightarrow> 's Limiter) list \<Rightarrow> 's Limiter" where
  "lim_New s opts = fold (\<lambda>f l. f l) opts \<lparr>limStore = s, limFailMode = FailClosed, limPool = None\<rparr>"

text \<open>\<^verbatim>\<open>randomID\<close>: sixteen random bytes, or the error of the generator, in hexadecimal.\<close>

definition randomID :: "(error, int list) result \<Rightarrow> (error, string) result" where
  "randomID r = (case r of Inl err \<Rightarrow> Inl err | Inr b \<Rightarrow> Inr (hex_EncodeToString b))"

definition denyDecision :: "Limits \<Rightarrow> LimitType \<Rightarrow> duration \<Rightarrow> Decision" where
  "denyDecision limits lt retry =
     (let d = zero_Decision\<lparr>Allowed := False, LimitType := lt, RetryAfter := retry,
                LimitRPM := RequestsPerMinute limits\<rparr>
      in if Split limits then
           d\<lparr>LimitITPM := InputTokensPerMinute limits, LimitOTPM := OutputTokensPerMinute limits,
             LimitTPM := OutputTokensPerMinute limits\<rparr>
         else d\<lparr>LimitTPM := TokensPerMinute limits\<rparr>)"

definition borrowDenyDecision :: "Limits \<Rightarrow> BorrowResult \<Rightarrow> Decision" where
  "borrowDenyDecision limits br =
     (let d = zero_Decision\<lparr>Allowed := False, LimitType := BrLimitType br,
                RemainingRPM := BrRemainingRPM br, RemainingTPM := BrRemainingTPM br,
                RemainingITPM := BrRemainingITPM br, RemainingOTPM := BrRemainingOTPM br,
                LimitRPM := RequestsPerMinute limits, RetryAfter := BrRetryAfter br\<rparr>
      in if Split limits then
           d\<lparr>LimitITPM := InputTokensPerMinute limits, LimitOTPM := OutputTokensPerMinute limits,
             LimitTPM := OutputTokensPerMinute limits, RemainingTPM := BrRemainingOTPM br\<rparr>
         else d\<lparr>LimitTPM := TokensPerMinute limits\<rparr>)"

definition onStoreErr :: "FailMode \<Rightarrow> Limits \<Rightarrow> Decision" where
  "onStoreErr mode limits =
     (case mode of
        FailOpen \<Rightarrow>
          (let d = zero_Decision\<lparr>Allowed := True, LimitType := LimitTypeNone,
                     RemainingRPM := RequestsPerMinute limits, LimitRPM := RequestsPerMinute limits\<rparr>
           in if Split limits then
                d\<lparr>RemainingITPM := InputTokensPerMinute limits, RemainingOTPM := OutputTokensPerMinute limits,
                  RemainingTPM := OutputTokensPerMinute limits, LimitITPM := InputTokensPerMinute limits,
                  LimitOTPM := OutputTokensPerMinute limits, LimitTPM := OutputTokensPerMinute limits\<rparr>
              else d\<lparr>RemainingTPM := TokensPerMinute limits, LimitTPM := TokensPerMinute limits\<rparr>)
      | FailClosed \<Rightarrow> denyDecision limits LimitTypeBackend Second)"

definition onStoreErrFast ::
  "'s Limiter \<Rightarrow> Pool \<Rightarrow> time \<Rightarrow> time \<Rightarrow> (error, string) result \<Rightarrow> Key \<Rightarrow> Limits \<Rightarrow> Cost \<Rightarrow> Decision \<times> Pool" where
  "onStoreErrFast l p0 tHas tDebit newid key limits cost =
     (let denied = denyDecision limits LimitTypeBackend Second
      in if limFailMode l = FailOpen then
           (let (has, p) = Has p0 tHas key cost limits
            in if has then
                 (case newid of
                    Inl err \<Rightarrow> (denied, p)
                  | Inr rid \<Rightarrow>
                      (case TryDebit p tDebit key limits cost rid of
                         (Some d, p') \<Rightarrow> (d, p')
                       | (None, p') \<Rightarrow> (denied, p')))
               else (denied, p))
         else (denied, p0))"

definition checkDirect ::
  "'s StoreOps \<Rightarrow> 's Limiter \<Rightarrow> (nat \<Rightarrow> time) \<Rightarrow> (nat \<Rightarrow> (error, string) result) \<Rightarrow> Key \<Rightarrow> Limits \<Rightarrow> Cost
    \<Rightarrow> (error, Decision) result \<times> 's Limiter" where
  "checkDirect S l ts ids key limits cost =
     (case ids 0 of
        Inl err \<Rightarrow> (Inr (onStoreErr (limFailMode l) limits), l)
      | Inr rid \<Rightarrow>
          (case opCheck S (limStore l) (ts 0) key limits cost rid of
             (Inl err, s) \<Rightarrow> (Inr (onStoreErr (limFailMode l) limits), l\<lparr>limStore := s\<rparr>)
           | (Inr d, s) \<Rightarrow> (Inr d, l\<lparr>limStore := s\<rparr>)))"

definition clampCosts :: "Cost \<Rightarrow> Cost" where
  "clampCosts c = c\<lparr>Requests := (if Requests c < 0 then 0 else Requests c),
     CTokens := (if CTokens c < 0 then 0 else CTokens c),
     InputTokens := (if InputTokens c < 0 then 0 else InputTokens c),
     OutputTokens := (if OutputTokens c < 0 then 0 else OutputTokens c)\<rparr>"

definition checkSpec :: "Config \<Rightarrow> Cost \<Rightarrow> BorrowSpec" where
  "checkSpec cfg cost = \<lparr>MinRPM = Requests cost, MinTPM = CTokens cost, MinITPM = InputTokens cost,
     MinOTPM = OutputTokens cost, ChunkRPM = RPMChunk cfg, ChunkTPM = TPMChunk cfg,
     ChunkITPM = ITPMChunk cfg, ChunkOTPM = OTPMChunk cfg\<rparr>"

text \<open>The fast path. The clock is read by the deny cache (\<open>ts 0\<close>), the first debit (\<open>ts 1\<close>), the
  store (\<open>ts 2\<close>), the deny cache or the lease (\<open>ts 3\<close>), the second debit (\<open>ts 4\<close>), the
  deny cache (\<open>ts 5\<close>), and on a store error by \<^verbatim>\<open>Has\<close> (\<open>ts 6\<close>) and a debit (\<open>ts 7\<close>).\<close>

definition checkFast ::
  "'s StoreOps \<Rightarrow> 's Limiter \<Rightarrow> Pool \<Rightarrow> (nat \<Rightarrow> time) \<Rightarrow> (nat \<Rightarrow> (error, string) result) \<Rightarrow> Key \<Rightarrow> Limits \<Rightarrow> Cost
    \<Rightarrow> Decision \<times> Pool \<times> 's" where
  "checkFast S l p0 ts ids key limits cost0 =
     (let cost = clampCosts cost0;
          s0 = limStore l;
          (hit, dc) = deny_Get (pDeny p0) (ts 0) key;
          p1 = p0\<lparr>pDeny := dc\<rparr>
      in case hit of
           Some (lt, retry) \<Rightarrow> (denyDecision limits lt retry, p1, s0)
         | None \<Rightarrow>
             (case ids 0 of
                Inl err \<Rightarrow>
                  (let (d, p) = onStoreErrFast l p1 (ts 6) (ts 7) (ids 1) key limits cost in (d, p, s0))
              | Inr rid \<Rightarrow>
                  (case TryDebit p1 (ts 1) key limits cost rid of
                     (Some d, p2) \<Rightarrow> (d, p2, s0)
                   | (None, p2) \<Rightarrow>
                       (let p3 = NoteBorrow p2
                        in case opBorrow S s0 (ts 2) key limits (checkSpec (pCfg p3) cost) of
                             (Inl err, s) \<Rightarrow>
                               (let (d, p) = onStoreErrFast l p3 (ts 6) (ts 7) (ids 1) key limits cost
                                in (d, p, s))
                           | (Inr br, s) \<Rightarrow>
                               if \<not> BrAllowed br then
                                 (borrowDenyDecision limits br,
                                  p3\<lparr>pDeny := deny_Set (pDeny p3) (ts 3) key (BrLimitType br) (BrRetryAfter br)\<rparr>, s)
                               else
                                 (let p4 = CreditLease p3 (ts 3) key limits (GotRPM br) (GotTPM br)
                                             (GotITPM br) (GotOTPM br)
                                  in case TryDebit p4 (ts 4) key limits cost rid of
                                       (Some d, p5) \<Rightarrow> (d, p5, s)
                                     | (None, p5) \<Rightarrow>
                                         (denyDecision limits LimitTypeBackend Second,
                                          p5\<lparr>pDeny := deny_Set (pDeny p5) (ts 5) key LimitTypeBackend Second\<rparr>, s))))))"

definition lim_Check ::
  "'s StoreOps \<Rightarrow> 's Limiter \<Rightarrow> (nat \<Rightarrow> time) \<Rightarrow> (nat \<Rightarrow> (error, string) result) \<Rightarrow> Key \<Rightarrow> Limits \<Rightarrow> Cost
    \<Rightarrow> (error, Decision) result \<times> 's Limiter" where
  "lim_Check S l ts ids key limits cost =
     (case Validate limits of
        Some err \<Rightarrow> (Inl err, l)
      | None \<Rightarrow>
          (case limPool l of
             Some p \<Rightarrow>
               (let (d, p', s) = checkFast S l p ts ids key limits cost
                in (Inr d, l\<lparr>limPool := Some p', limStore := s\<rparr>))
           | None \<Rightarrow> checkDirect S l ts ids key limits cost))"

text \<open>\<^verbatim>\<open>Settle\<close>: the clock is read by the lookup (\<open>ts 0\<close>), the local settlement (\<open>ts 1\<close>), the
  store (\<open>ts 2\<close>), the lease (\<open>ts 3\<close>), the deficit (\<open>ts 4\<close>) and the second lookup (\<open>ts 5\<close>).\<close>

definition lim_Settle ::
  "'s StoreOps \<Rightarrow> 's Limiter \<Rightarrow> (nat \<Rightarrow> time) \<Rightarrow> string \<Rightarrow> int64 \<Rightarrow> (error, Decision) result \<times> 's Limiter" where
  "lim_Settle S l ts rid actual =
     (let storeSettle = (\<lambda>l. let (r, s) = opSettle S (limStore l) (ts 2) rid actual in (r, l\<lparr>limStore := s\<rparr>))
      in case limPool l of
           None \<Rightarrow> storeSettle l
         | Some p0 \<Rightarrow>
             (case GetReservation p0 (ts 0) rid of
                (None, p1) \<Rightarrow> storeSettle (l\<lparr>limPool := Some p1\<rparr>)
              | (Some r, p1) \<Rightarrow>
                  if Split (lrLimits r) then (Inl ErrWrongSettleMode, l\<lparr>limPool := Some p1\<rparr>)
                  else
                    (case SettleLocal p1 (ts 1) rid actual of
                       (Inl err, p2) \<Rightarrow> (Inl err, l\<lparr>limPool := Some p2\<rparr>)
                     | (Inr dec, p2) \<Rightarrow>
                         if OvershootTPM dec > 0 then
                           (let need = OvershootTPM dec;
                                p3 = NoteBorrow p2;
                                (br, s) = opBorrow S (limStore l) (ts 2) (lrKey r) (lrLimits r)
                                            (zero_BorrowSpec\<lparr>MinTPM := need, ChunkTPM := need\<rparr>)
                            in case br of
                                 Inl berr \<Rightarrow> (Inr dec, l\<lparr>limPool := Some p3, limStore := s\<rparr>)
                               | Inr b \<Rightarrow>
                                   if \<not> BrAllowed b then (Inr dec, l\<lparr>limPool := Some p3, limStore := s\<rparr>)
                                   else
                                     (let p4 = CreditLease p3 (ts 3) (lrKey r) (lrLimits r) (GotRPM b) (GotTPM b) 0 0;
                                          p5 = ApplyBorrowedDeficit p4 (ts 4) rid (GotTPM b);
                                          (upd, p6) = GetReservation p5 (ts 5) rid
                                      in case upd of
                                           Some u \<Rightarrow> (Inr (lrLastDecision u), l\<lparr>limPool := Some p6, limStore := s\<rparr>)
                                         | None \<Rightarrow> (Inr dec, l\<lparr>limPool := Some p6, limStore := s\<rparr>)))
                         else (Inr dec, l\<lparr>limPool := Some p2\<rparr>))))"

definition lim_SettleIO ::
  "'s StoreOps \<Rightarrow> 's Limiter \<Rightarrow> (nat \<Rightarrow> time) \<Rightarrow> string \<Rightarrow> int64 \<Rightarrow> int64 \<Rightarrow> (error, Decision) result \<times> 's Limiter" where
  "lim_SettleIO S l ts rid actualInput actualOutput =
     (let storeSettle = (\<lambda>l. let (r, s) = opSettleIO S (limStore l) (ts 2) rid actualInput actualOutput
                              in (r, l\<lparr>limStore := s\<rparr>))
      in case limPool l of
           None \<Rightarrow> storeSettle l
         | Some p0 \<Rightarrow>
             (case GetReservation p0 (ts 0) rid of
                (None, p1) \<Rightarrow> storeSettle (l\<lparr>limPool := Some p1\<rparr>)
              | (Some r, p1) \<Rightarrow>
                  if \<not> Split (lrLimits r) then (Inl ErrWrongSettleMode, l\<lparr>limPool := Some p1\<rparr>)
                  else
                    (case SettleLocalIO p1 (ts 1) rid actualInput actualOutput of
                       (Inl err, p2) \<Rightarrow> (Inl err, l\<lparr>limPool := Some p2\<rparr>)
                     | (Inr dec, p2) \<Rightarrow>
                         if OvershootITPM dec > 0 \<or> OvershootOTPM dec > 0 then
                           (let p3 = NoteBorrow p2;
                                (br, s) = opBorrow S (limStore l) (ts 2) (lrKey r) (lrLimits r)
                                            (zero_BorrowSpec\<lparr>MinITPM := OvershootITPM dec, ChunkITPM := OvershootITPM dec,
                                               MinOTPM := OvershootOTPM dec, ChunkOTPM := OvershootOTPM dec\<rparr>)
                            in case br of
                                 Inl berr \<Rightarrow> (Inr dec, l\<lparr>limPool := Some p3, limStore := s\<rparr>)
                               | Inr b \<Rightarrow>
                                   if \<not> BrAllowed b then (Inr dec, l\<lparr>limPool := Some p3, limStore := s\<rparr>)
                                   else
                                     (let p4 = CreditLease p3 (ts 3) (lrKey r) (lrLimits r) (GotRPM b) 0 (GotITPM b) (GotOTPM b);
                                          p5 = ApplyBorrowedDeficitIO p4 (ts 4) rid (GotITPM b) (GotOTPM b);
                                          (upd, p6) = GetReservation p5 (ts 5) rid
                                      in case upd of
                                           Some u \<Rightarrow> (Inr (lrLastDecision u), l\<lparr>limPool := Some p6, limStore := s\<rparr>)
                                         | None \<Rightarrow> (Inr dec, l\<lparr>limPool := Some p6, limStore := s\<rparr>)))
                         else (Inr dec, l\<lparr>limPool := Some p2\<rparr>))))"

definition lim_Refund ::
  "'s StoreOps \<Rightarrow> 's Limiter \<Rightarrow> (nat \<Rightarrow> time) \<Rightarrow> string \<Rightarrow> error option \<times> 's Limiter" where
  "lim_Refund S l ts rid =
     (let storeRefund = (\<lambda>l. let (r, s) = opRefund S (limStore l) (ts 2) rid in (r, l\<lparr>limStore := s\<rparr>))
      in case limPool l of
           None \<Rightarrow> storeRefund l
         | Some p0 \<Rightarrow>
             (case GetReservation p0 (ts 0) rid of
                (None, p1) \<Rightarrow> storeRefund (l\<lparr>limPool := Some p1\<rparr>)
              | (Some _, p1) \<Rightarrow>
                  (let (r, p2) = RefundLocal p1 (ts 1) rid in (r, l\<lparr>limPool := Some p2\<rparr>))))"

text \<open>The loop of \<^verbatim>\<open>Close\<close>: every snapshot is returned, the first error is kept.\<close>

fun returnAll :: "'s StoreOps \<Rightarrow> (nat \<Rightarrow> time) \<Rightarrow> nat \<Rightarrow> LeaseSnap list \<Rightarrow> error option \<Rightarrow> 's \<Rightarrow> error option \<times> 's" where
  "returnAll S ts n [] first s = (first, s)"
| "returnAll S ts n (snap # snaps) first s =
     (let (err, s') = opReturn S s (ts n) (lsKey snap) (lsLimits snap) (lsRPM snap) (lsTPM snap) (lsITPM snap) (lsOTPM snap);
          first' = (if err \<noteq> None \<and> first = None then err else first)
      in returnAll S ts (Suc n) snaps first' s')"

definition lim_Close :: "'s StoreOps \<Rightarrow> 's Limiter \<Rightarrow> (nat \<Rightarrow> time) \<Rightarrow> string list \<Rightarrow> error option \<times> 's Limiter" where
  "lim_Close S l ts ks =
     (case limPool l of
        None \<Rightarrow> (None, l)
      | Some p \<Rightarrow>
          (let (snaps, p') = SnapshotLeases ks (ts 0) p;
               (err, s) = returnAll S ts 1 snaps None (limStore l)
           in (err, l\<lparr>limPool := Some p', limStore := s\<rparr>)))"

end
