(* ===== verification/Axes.thy ===== *)
theory Axes
  imports Store_Types
begin

text \<open>
  The four budgets of the program (requests, tokens, input tokens, output tokens) as the
  values of one type, with the component of every exchanged structure that belongs to each.
  The components are specified and proved per axis, so that a statement covers the four
  budgets and both modes at once.
\<close>

datatype axis = Rpm | Tpm | Itpm | Otpm

fun axis_limit :: "axis \<Rightarrow> Limits \<Rightarrow> int64" where
  "axis_limit Rpm l = RequestsPerMinute l"
| "axis_limit Tpm l = TokensPerMinute l"
| "axis_limit Itpm l = InputTokensPerMinute l"
| "axis_limit Otpm l = OutputTokensPerMinute l"

fun axis_cost :: "axis \<Rightarrow> Cost \<Rightarrow> int64" where
  "axis_cost Rpm c = Requests c"
| "axis_cost Tpm c = CTokens c"
| "axis_cost Itpm c = InputTokens c"
| "axis_cost Otpm c = OutputTokens c"

fun axis_got :: "axis \<Rightarrow> BorrowResult \<Rightarrow> int64" where
  "axis_got Rpm b = GotRPM b"
| "axis_got Tpm b = GotTPM b"
| "axis_got Itpm b = GotITPM b"
| "axis_got Otpm b = GotOTPM b"

fun axis_min :: "axis \<Rightarrow> BorrowSpec \<Rightarrow> int64" where
  "axis_min Rpm b = MinRPM b"
| "axis_min Tpm b = MinTPM b"
| "axis_min Itpm b = MinITPM b"
| "axis_min Otpm b = MinOTPM b"

fun axis_chunk :: "axis \<Rightarrow> BorrowSpec \<Rightarrow> int64" where
  "axis_chunk Rpm b = ChunkRPM b"
| "axis_chunk Tpm b = ChunkTPM b"
| "axis_chunk Itpm b = ChunkITPM b"
| "axis_chunk Otpm b = ChunkOTPM b"

fun axis_pick :: "axis \<Rightarrow> int64 \<Rightarrow> int64 \<Rightarrow> int64 \<Rightarrow> int64 \<Rightarrow> int64" where
  "axis_pick Rpm a b c d = a"
| "axis_pick Tpm a b c d = b"
| "axis_pick Itpm a b c d = c"
| "axis_pick Otpm a b c d = d"

text \<open>The axes a classic and a split configuration use.\<close>

fun active :: "axis \<Rightarrow> bool \<Rightarrow> bool" where
  "active Rpm split = True"
| "active Tpm split = (\<not> split)"
| "active Itpm split = split"
| "active Otpm split = split"

definition granted :: "(error, Decision) result \<Rightarrow> bool" where
  "granted r = (case r of Inl _ \<Rightarrow> False | Inr d \<Rightarrow> Allowed d)"

definition lent :: "(error, BorrowResult) result \<Rightarrow> bool" where
  "lent r = (case r of Inl _ \<Rightarrow> False | Inr b \<Rightarrow> BrAllowed b)"

lemma not_Pending: "st \<noteq> Pending \<longleftrightarrow> st = Settled \<or> st = Refunded"
  by (cases st) simp_all

lemma granted_simps [simp]: "granted (Inr d) = Allowed d" "\<not> granted (Inl e)"
  by (simp_all add: granted_def)

lemma lent_simps [simp]: "lent (Inr b) = BrAllowed b" "\<not> lent (Inl e)"
  by (simp_all add: lent_def)

lemma all_axes: "(\<forall>ax \<in> {Rpm, Tpm, Itpm, Otpm}. P ax) \<longleftrightarrow> (\<forall>ax. P ax)"
proof -
  have "ax \<in> {Rpm, Tpm, Itpm, Otpm}" for ax by (cases ax) simp_all
  then show ?thesis by blast
qed

text \<open>Limits that a double represents exactly.\<close>

definition cap_ok :: "int64 \<Rightarrow> bool" where
  "cap_ok c \<longleftrightarrow> 0 \<le> c \<and> c \<le> 2 ^ 53"

definition limits_ok :: "Limits \<Rightarrow> bool" where
  "limits_ok l \<longleftrightarrow> (\<forall>ax \<in> {Rpm, Tpm, Itpm, Otpm}. cap_ok (axis_limit ax l))"

lemma limits_okD: "limits_ok l \<Longrightarrow> cap_ok (axis_limit ax l)"
  by (simp only: limits_ok_def all_axes)

lemma active_all:
  "(\<forall>ax. active ax sp \<longrightarrow> P ax) \<longleftrightarrow> (if sp then P Rpm \<and> P Itpm \<and> P Otpm else P Rpm \<and> P Tpm)"
  unfolding all_axes [symmetric] by (cases sp) simp_all

end
