(* ===== verification/Lease_Facts.thy ===== *)
theory Lease_Facts
  imports Lease_Pool Axes
begin

text \<open>
  Facts about the lease pool: how keys are built and taken apart, what the deny cache
  remembers, and the exact integer accounting of borrowed credits per axis.
\<close>

section \<open>Keys\<close>

definition norm_model :: "Key \<Rightarrow> string" where
  "norm_model key = (if Model key = '''' then ''-'' else Model key)"

lemma cacheKey_norm: "cacheKey key = Subject key @ [NUL] @ norm_model key"
  by (simp add: cacheKey_def norm_model_def Let_def)

lemma splitKey_append: "NUL \<notin> set subj \<Longrightarrow> splitKey (subj @ NUL # rest) = (subj, rest)"
  by (simp add: splitKey_def takeWhile_append dropWhile_append)

text \<open>
  (Keys survive the round trip.) For subjects without a NUL character, taking apart the
  key under which a lease is stored gives the subject back, and the model with an empty one
  replaced by \<open>-\<close>; so two such keys share a lease only if they agree on both.
\<close>

theorem key_roundtrip:
  assumes "NUL \<notin> set (Subject key)"
  shows "splitKey (cacheKey key) = (Subject key, norm_model key) \<and>
    (\<forall>key'. NUL \<notin> set (Subject key') \<longrightarrow> cacheKey key' = cacheKey key \<longrightarrow>
       Subject key' = Subject key \<and> norm_model key' = norm_model key)"
  using assms splitKey_append by (auto simp: cacheKey_norm) (metis prod.inject)+

theorem key_roundtrip_witness:
  "splitKey (cacheKey \<lparr>Subject = ''user'', Model = ''''\<rparr>) = (''user'', ''-'')"
  using key_roundtrip [of "\<lparr>Subject = ''user'', Model = ''''\<rparr>"] by (simp add: NUL_def norm_model_def)

text \<open>
  Subjects with a NUL collide. Without that restriction two different subjects can
  share every bucket, lease and deny entry.
\<close>

theorem key_collision:
  "\<exists>key key'. Subject key \<noteq> Subject key' \<and> Model key \<noteq> '''' \<and> Model key' \<noteq> '''' \<and> cacheKey key = cacheKey key'"
  by (rule exI [of _ "\<lparr>Subject = [CHR ''a''], Model = [CHR ''b'', NUL, CHR ''c'']\<rparr>"],
      rule exI [of _ "\<lparr>Subject = [CHR ''a'', NUL, CHR ''b''], Model = [CHR ''c'']\<rparr>"])
     (simp add: cacheKey_def)

section \<open>Deny cache\<close>

lemma deny_Get_other: "cacheKey key' \<noteq> cacheKey key \<Longrightarrow> fst (deny_Get (deny_Set c now key lt ra) now' key') = fst (deny_Get c now' key')"
  by (simp add: deny_Get_def deny_Set_def Let_def split: option.splits)

text \<open>
  C29 (the deny cache). After a denial is recorded with a waiting time, the key is denied with
  the recorded limit type exactly until that time has passed (one second if the time is not
  positive), with the time left as the new waiting time; clearing the key ends it, and the entry of
  every other key is unaffected.
\<close>

theorem deny_cache_window:
  fixes now' :: time
  assumes "now \<le> now'" "in64 ra"
  defines "until \<equiv> time_add now (if ra \<le> 0 then Second else ra)"
  shows "fst (deny_Get (deny_Set c now key lt ra) now' key) = (if now' < until then Some (lt, until - now') else None) \<and>
    fst (deny_Get (deny_Clear (deny_Set c now key lt ra) key) now' key) = None \<and>
    (cacheKey key' \<noteq> cacheKey key \<longrightarrow>
      fst (deny_Get (deny_Set c now key lt ra) now' key') = fst (deny_Get c now' key'))"
proof -
  have "until - now' < 2 ^ 63" "- (2 ^ 63) \<le> until - now'" if "now' < until"
    using assms that by (auto simp: until_def time_add_def Second_def in64_def split: if_splits)
  then have "time_sub until now' = until - now'" if "now' < until" using that by (simp add: time_sub_def)
  moreover have "time_add now (if ra \<le> 0 then Second else ra) = until" by (simp add: until_def)
  ultimately show ?thesis
    using deny_Get_other
    by (auto simp: deny_Get_def deny_Set_def deny_Clear_def time_before_def Let_def)
qed

theorem deny_cache_window_witness:
  "fst (deny_Get (deny_Set Map.empty 0 \<lparr>Subject = ''u'', Model = ''m''\<rparr> ''tokens'' 5000) 2000
      \<lparr>Subject = ''u'', Model = ''m''\<rparr>) = Some (''tokens'', 3000)"
  using deny_cache_window [of 0 2000 5000 Map.empty "\<lparr>Subject = ''u'', Model = ''m''\<rparr>" "''tokens''"]
  by (simp add: in64_def time_add_def)

section \<open>The pool per axis\<close>

fun lb_axis :: "axis \<Rightarrow> localBucket \<Rightarrow> int64" where
  "lb_axis Rpm b = lbRpm b"
| "lb_axis Tpm b = lbTpm b"
| "lb_axis Itpm b = lbItpm b"
| "lb_axis Otpm b = lbOtpm b"

fun lr_axis :: "axis \<Rightarrow> Reservation \<Rightarrow> int64" where
  "lr_axis Rpm r = lrRPMCost r"
| "lr_axis Tpm r = lrTPMReserved r"
| "lr_axis Itpm r = lrITPMReserved r"
| "lr_axis Otpm r = lrOTPMReserved r"

text \<open>The live lease of a key, and the credits it holds.\<close>

definition live :: "Pool \<Rightarrow> time \<Rightarrow> string \<Rightarrow> localBucket option" where
  "live p now k = (case pLease p k of None \<Rightarrow> None | Some b \<Rightarrow> if time_before now (lbExpiresAt b) then Some b else None)"

definition bal :: "axis \<Rightarrow> Pool \<Rightarrow> time \<Rightarrow> string \<Rightarrow> int64" where
  "bal ax p now k = (case live p now k of None \<Rightarrow> 0 | Some b \<Rightarrow> lb_axis ax b)"

definition local_pending :: "Pool \<Rightarrow> time \<Rightarrow> string \<Rightarrow> Reservation option" where
  "local_pending p now rid =
     (case pRes p rid of
        None \<Rightarrow> None
      | Some r \<Rightarrow> if time_after now (lrExpiresAt r) \<or> lrStatus r \<noteq> Pending then None else Some r)"

definition amount_ok :: "int64 \<Rightarrow> bool" where
  "amount_ok n \<longleftrightarrow> 0 \<le> n \<and> n < 2 ^ 62"

text \<open>Credits and reservations are amounts, and a renewed lease is live.\<close>

definition pool_ok :: "Pool \<Rightarrow> bool" where
  "pool_ok p \<longleftrightarrow> 0 < LeaseTTL (pCfg p) \<and>
     (\<forall>k b. pLease p k = Some b \<longrightarrow> (\<forall>ax \<in> {Rpm, Tpm, Itpm, Otpm}. amount_ok (lb_axis ax b))) \<and>
     (\<forall>rid r. pRes p rid = Some r \<longrightarrow> (\<forall>ax \<in> {Rpm, Tpm, Itpm, Otpm}. amount_ok (lr_axis ax r)))"

definition cost_ok :: "Cost \<Rightarrow> bool" where
  "cost_ok cost \<longleftrightarrow> (\<forall>ax \<in> {Rpm, Tpm, Itpm, Otpm}. amount_ok (axis_cost ax cost))"

lemma pool_okD:
  assumes "pool_ok p"
  shows "0 < LeaseTTL (pCfg p)" "pLease p k = Some b \<Longrightarrow> amount_ok (lb_axis ax b)"
    "pRes p rid = Some r \<Longrightarrow> amount_ok (lr_axis ax r)"
  using assms unfolding pool_ok_def all_axes by blast+

lemma pool_ok_update:
  assumes "pool_ok p" "pCfg p' = pCfg p"
    and "\<And>k b. pLease p' k = Some b \<Longrightarrow> pLease p k = Some b \<or> (\<forall>ax. amount_ok (lb_axis ax b))"
    and "\<And>rid r. pRes p' rid = Some r \<Longrightarrow> pRes p rid = Some r \<or> (\<forall>ax. amount_ok (lr_axis ax r))"
  shows "pool_ok p'"
  using assms unfolding pool_ok_def all_axes by metis

lemma cost_okD: "cost_ok cost \<Longrightarrow> amount_ok (axis_cost ax cost)"
  unfolding cost_ok_def all_axes by blast

lemma amount_add [simp]: "amount_ok a \<Longrightarrow> amount_ok b \<Longrightarrow> i64_add a b = a + b"
  by (simp add: amount_ok_def i64_exact in64_def)

lemma amount_sub [simp]: "amount_ok a \<Longrightarrow> amount_ok b \<Longrightarrow> i64_sub a b = a - b"
  by (simp add: amount_ok_def i64_exact in64_def)

lemma amount_0 [simp]: "amount_ok 0"
  by (simp add: amount_ok_def)

lemma amount_diff: "amount_ok a \<Longrightarrow> amount_ok b \<Longrightarrow> b \<le> a \<Longrightarrow> amount_ok (a - b)"
  by (simp add: amount_ok_def)

lemma purge_pool [simp]:
  "pLease (purgeResLocked p now) = pLease p" "pDeny (purgeResLocked p now) = pDeny p"
  "pCfg (purgeResLocked p now) = pCfg p" "pHits (purgeResLocked p now) = pHits p"
  "pMiss (purgeResLocked p now) = pMiss p" "pBorrows (purgeResLocked p now) = pBorrows p"
  "pRes (purgeResLocked p now) = map_drop (\<lambda>r. time_after now (lrExpiresAt r)) (pRes p)"
  by (simp_all add: purgeResLocked_def)

lemma getLease_live:
  "fst (getLeaseLocked p key now) = live p now (cacheKey key)"
  "pRes (snd (getLeaseLocked p key now)) = pRes p" "pCfg (snd (getLeaseLocked p key now)) = pCfg p"
  "pDeny (snd (getLeaseLocked p key now)) = pDeny p" "pHits (snd (getLeaseLocked p key now)) = pHits p"
  "pMiss (snd (getLeaseLocked p key now)) = pMiss p"
  "live (snd (getLeaseLocked p key now)) now k = live p now k"
  by (auto simp: getLeaseLocked_def live_def keyStr_def Let_def split: option.splits)

lemma getLease_pair: "getLeaseLocked p key now = (live p now (cacheKey key), snd (getLeaseLocked p key now))"
  using getLease_live(1) by (metis prod.collapse)

lemma live_purge [simp]: "live (purgeResLocked p now') now k = live p now k"
  by (simp add: live_def)

lemma live_cong: "pLease p = pLease p' \<Longrightarrow> live p now k = live p' now k"
  by (simp add: live_def)

lemma live_upd:
  "pLease p' = (pLease p)(k \<mapsto> b) \<Longrightarrow> time_before now (lbExpiresAt b) \<Longrightarrow>
     live p' now k' = (if k' = k then Some b else live p now k')"
  by (auto simp: live_def)

lemma ttl_live: "0 < d \<Longrightarrow> time_before now (time_add now d)"
  by (simp add: time_before_def time_add_def)

lemma live_amount: "pool_ok p \<Longrightarrow> live p now k = Some b \<Longrightarrow> amount_ok (lb_axis ax b)"
  using pool_okD(2) by (auto simp: live_def split: option.splits if_splits)

lemma bal_amount: "pool_ok p \<Longrightarrow> amount_ok (bal ax p now k)"
  using live_amount by (auto simp: bal_def split: option.splits)

section \<open>Debiting a lease\<close>

lemma covers_iff:
  "covers bo cost split \<longleftrightarrow> (\<exists>b. bo = Some b \<and> (\<forall>ax. active ax split \<longrightarrow> axis_cost ax cost \<le> lb_axis ax b))"
  by (auto simp: covers_def active_all split: option.splits)

lemma TryDebit_miss:
  assumes "\<not> covers (live p now (cacheKey key)) cost (Split limits)"
  shows "fst (TryDebit p now key limits cost rid) = None"
    "live (snd (TryDebit p now key limits cost rid)) now k = live p now k"
    "pRes (snd (TryDebit p now key limits cost rid)) = pRes (purgeResLocked p now)"
    "pMiss (snd (TryDebit p now key limits cost rid)) = i64_add (pMiss p) 1"
    "pHits (snd (TryDebit p now key limits cost rid)) = pHits p"
proof -
  define p1 where "p1 = snd (getLeaseLocked (purgeResLocked p now) key now)"
  note gl = getLease_live(2-7) [of "purgeResLocked p now" key now, folded p1_def, simplified]
  have "getLeaseLocked (purgeResLocked p now) key now = (live p now (cacheKey key), p1)"
    using getLease_pair [of "purgeResLocked p now" key now] by (simp add: p1_def)
  then have d: "TryDebit p now key limits cost rid = (None, p1\<lparr>pMiss := i64_add (pMiss p) 1\<rparr>)"
    using assms gl by (cases "live p now (cacheKey key)") (simp_all add: TryDebit_def Let_def)
  show "fst (TryDebit p now key limits cost rid) = None"
    "live (snd (TryDebit p now key limits cost rid)) now k = live p now k"
    "pRes (snd (TryDebit p now key limits cost rid)) = pRes (purgeResLocked p now)"
    "pMiss (snd (TryDebit p now key limits cost rid)) = i64_add (pMiss p) 1"
    "pHits (snd (TryDebit p now key limits cost rid)) = pHits p"
    using gl live_cong [of "p1\<lparr>pMiss := i64_add (pMiss p) 1\<rparr>" p1] by (simp_all add: d)
qed

lemma TryDebit_hit:
  assumes c: "covers (live p now (cacheKey key)) cost (Split limits)"
    and ok: "pool_ok p" and cost: "cost_ok cost"
  shows "\<exists>d. fst (TryDebit p now key limits cost rid) = Some d \<and> Allowed d \<and> ReservationID d = rid"
    "bal ax (snd (TryDebit p now key limits cost rid)) now k =
       (if k = cacheKey key \<and> active ax (Split limits) then bal ax p now k - axis_cost ax cost else bal ax p now k)"
    "pool_ok (snd (TryDebit p now key limits cost rid))"
    "pHits (snd (TryDebit p now key limits cost rid)) = i64_add (pHits p) 1"
    "\<exists>r. local_pending (snd (TryDebit p now key limits cost rid)) now rid = Some r \<and> lrKey r = key \<and>
       lrLimits r = limits \<and> (\<forall>ax. lr_axis ax r = axis_cost ax cost)"
proof -
  obtain b where b: "live p now (cacheKey key) = Some b"
    and le: "\<And>ax. active ax (Split limits) \<Longrightarrow> axis_cost ax cost \<le> lb_axis ax b"
    using c by (auto simp: covers_iff)
  define p1 where "p1 = snd (getLeaseLocked (purgeResLocked p now) key now)"
  define ttl where "ttl = time_add now (LeaseTTL (pCfg p))"
  define b' where "b' = (if Split limits
      then b\<lparr>lbRpm := lbRpm b - Requests cost, lbItpm := lbItpm b - InputTokens cost,
             lbOtpm := lbOtpm b - OutputTokens cost, lbExpiresAt := ttl\<rparr>
      else b\<lparr>lbRpm := lbRpm b - Requests cost, lbTpm := lbTpm b - CTokens cost, lbExpiresAt := ttl\<rparr>)"
  define r where "r = \<lparr>lrKey = key, lrLimits = limits, lrRPMCost = Requests cost,
      lrTPMReserved = CTokens cost, lrITPMReserved = InputTokens cost, lrOTPMReserved = OutputTokens cost,
      lrStatus = Pending, lrLastDecision = zero_Decision, lrExpiresAt = time_add now ReservationTTL\<rparr>"
  have a: "amount_ok (lb_axis ax b)" "amount_ok (axis_cost ax cost)" for ax
    using live_amount [OF ok b] cost_okD [OF cost] by blast+
  note aa = a [of Rpm, simplified] a [of Tpm, simplified] a [of Itpm, simplified] a [of Otpm, simplified]
  have g: "getLeaseLocked (purgeResLocked p now) key now = (Some b, p1)"
    using getLease_pair [of "purgeResLocked p now" key now] b by (simp add: p1_def)
  note gl = getLease_live(2-7) [of "purgeResLocked p now" key now, folded p1_def, simplified]
  have res: "fst (TryDebit p now key limits cost rid) = Some d \<Longrightarrow> Allowed d \<and> ReservationID d = rid" for d
    using c b by (auto simp: TryDebit_def Let_def g zero_Decision_def split: if_splits)
  have snd: "snd (TryDebit p now key limits cost rid) = p1\<lparr>pLease := (pLease p1)(cacheKey key \<mapsto> b'),
      pHits := i64_add (pHits p) 1, pRes := (pRes p1)(rid \<mapsto> r)\<rparr>"
    and some: "fst (TryDebit p now key limits cost rid) \<noteq> None"
    using c b aa gl by (auto simp: TryDebit_def Let_def g b'_def r_def ttl_def keyStr_def)
  show "\<exists>d. fst (TryDebit p now key limits cost rid) = Some d \<and> Allowed d \<and> ReservationID d = rid"
    using res some by blast
  have t0: "0 < LeaseTTL (pCfg p)" using pool_okD(1) [OF ok] .
  have l: "time_before now (lbExpiresAt b')" using ttl_live [OF t0] by (simp add: b'_def ttl_def)
  have b': "lb_axis ax b' = (if active ax (Split limits) then lb_axis ax b - axis_cost ax cost else lb_axis ax b)" for ax
    by (cases ax) (simp_all add: b'_def)
  show "bal ax (snd (TryDebit p now key limits cost rid)) now k =
       (if k = cacheKey key \<and> active ax (Split limits) then bal ax p now k - axis_cost ax cost else bal ax p now k)"
    using gl(6) b' b by (simp add: snd bal_def live_upd [where p = p1, OF _ l])
  have le1: "pLease p1 k = Some x \<Longrightarrow> pLease p k = Some x" for k x
    by (auto simp: p1_def getLeaseLocked_def Let_def split: option.splits if_splits)
  have "amount_ok (lb_axis ax b')" for ax using b' a le by (auto intro: amount_diff)
  moreover have lr: "lr_axis ax r = axis_cost ax cost" for ax by (cases ax) (simp_all add: r_def)
  then have "amount_ok (lr_axis ax r)" for ax using a(2) by simp
  ultimately show "pool_ok (snd (TryDebit p now key limits cost rid))"
    by (intro pool_ok_update [OF ok]) (auto simp: snd gl dest: le1 split: if_splits)
  show "pHits (snd (TryDebit p now key limits cost rid)) = i64_add (pHits p) 1" by (simp add: snd)
  show "\<exists>r. local_pending (snd (TryDebit p now key limits cost rid)) now rid = Some r \<and> lrKey r = key \<and>
       lrLimits r = limits \<and> (\<forall>ax. lr_axis ax r = axis_cost ax cost)"
    using lr by (intro exI [of _ r])
      (simp add: snd local_pending_def r_def time_after_def time_add_def ReservationTTL_def Minute_def)
qed

lemma CreditLease_bal:
  assumes ok: "pool_ok p" and a: "amount_ok r" "amount_ok t" "amount_ok i" "amount_ok out"
  shows "bal ax (CreditLease p now key limits r t i out) now k =
      (if k = cacheKey key then bal ax p now k + axis_pick ax r t i out else bal ax p now k)"
    "live (CreditLease p now key limits r t i out) now (cacheKey key) \<noteq> None"
proof -
  define b0 where "b0 = (case live p now (cacheKey key) of None \<Rightarrow> zero_localBucket | Some b \<Rightarrow> b)"
  have bal0: "lb_axis ax b0 = bal ax p now (cacheKey key)" for ax
    by (cases ax) (auto simp: b0_def bal_def zero_localBucket_def split: option.splits)
  then have am: "amount_ok (lb_axis ax b0)" for ax using bal_amount [OF ok] by simp
  note aa = am [of Rpm, simplified] am [of Tpm, simplified] am [of Itpm, simplified] am [of Otpm, simplified]
  define b where "b = b0\<lparr>lbRpm := lbRpm b0 + r, lbTpm := lbTpm b0 + t, lbItpm := lbItpm b0 + i,
      lbOtpm := lbOtpm b0 + out, lbLimits := limits, lbExpiresAt := time_add now (LeaseTTL (pCfg p))\<rparr>"
  have b0': "(case pLease p (cacheKey key) of None \<Rightarrow> zero_localBucket
      | Some b \<Rightarrow> if \<not> time_before now (lbExpiresAt b) then zero_localBucket else b) = b0"
    by (auto simp: b0_def live_def split: option.splits)
  have cl: "CreditLease p now key limits r t i out = p\<lparr>pLease := (pLease p)(cacheKey key \<mapsto> b)\<rparr>"
    using aa a by (simp add: CreditLease_def Let_def keyStr_def b0' b_def)
  have l: "time_before now (lbExpiresAt b)" using ttl_live pool_okD(1) [OF ok] by (simp add: b_def)
  have "lb_axis ax b = lb_axis ax b0 + axis_pick ax r t i out" by (cases ax) (simp_all add: b_def)
  then show "bal ax (CreditLease p now key limits r t i out) now k =
      (if k = cacheKey key then bal ax p now k + axis_pick ax r t i out else bal ax p now k)"
    using bal0 by (simp add: cl bal_def live_upd [where p = p, OF _ l])
  show "live (CreditLease p now key limits r t i out) now (cacheKey key) \<noteq> None"
    by (simp add: cl live_upd [where p = p, OF _ l])
qed

lemma CreditLease_ok:
  assumes ok: "pool_ok p" and a: "amount_ok r" "amount_ok t" "amount_ok i" "amount_ok out"
    and room: "\<And>ax. amount_ok (bal ax p now (cacheKey key) + axis_pick ax r t i out)"
  shows "pool_ok (CreditLease p now key limits r t i out)"
proof (rule pool_ok_update [OF ok])
  let ?p' = "CreditLease p now key limits r t i out"
  fix k b assume b: "pLease ?p' k = Some b"
  show "pLease p k = Some b \<or> (\<forall>ax. amount_ok (lb_axis ax b))"
  proof (cases "k = cacheKey key")
    case True
    obtain b' where b': "live ?p' now (cacheKey key) = Some b'" using CreditLease_bal(2) [OF ok a] by blast
    then have "b' = b" using b True by (auto simp: live_def split: option.splits if_splits)
    then have "lb_axis ax b = bal ax ?p' now (cacheKey key)" for ax using b' by (simp add: bal_def)
    then show ?thesis using CreditLease_bal(1) [OF ok a] room by simp
  next
    case False
    then show ?thesis using b by (simp add: CreditLease_def Let_def keyStr_def)
  qed
qed (simp_all add: CreditLease_def Let_def)

section \<open>Settling and refunding locally\<close>

lemma leaseFor_props:
  assumes ok: "pool_ok p" and r: "leaseFor p r now = (b0, p1)"
  shows "lb_axis ax b0 = bal ax p now (cacheKey (lrKey r))" "pCfg p1 = pCfg p" "pRes p1 = pRes p"
    "pDeny p1 = pDeny p" "k \<noteq> cacheKey (lrKey r) \<Longrightarrow> live p1 now' k = live p now' k"
    "k \<noteq> cacheKey (lrKey r) \<Longrightarrow> pLease p1 k = pLease p k"
proof -
  let ?k = "cacheKey (lrKey r)"
  have g: "getLeaseLocked p (lrKey r) now = (live p now ?k, snd (getLeaseLocked p (lrKey r) now))"
    by (rule getLease_pair)
  have other: "k \<noteq> ?k \<Longrightarrow> pLease (snd (getLeaseLocked p (lrKey r) now)) k = pLease p k" for k
    by (auto simp: getLeaseLocked_def Let_def keyStr_def split: option.splits)
  show "lb_axis ax b0 = bal ax p now ?k" "pCfg p1 = pCfg p" "pRes p1 = pRes p" "pDeny p1 = pDeny p"
    using r g getLease_live(2-4) [of p "lrKey r" now]
    by (cases ax; auto simp: leaseFor_def Let_def bal_def zero_localBucket_def split: option.splits prod.splits)+
  show 1: "k \<noteq> ?k \<Longrightarrow> pLease p1 k = pLease p k" for k
    using r g other by (auto simp: leaseFor_def Let_def keyStr_def split: option.splits prod.splits)
  show "k \<noteq> ?k \<Longrightarrow> live p1 now' k = live p now' k" using 1 by (simp add: live_def)
qed

lemma applyLocalDelta_spec:
  assumes "amount_ok b" "amount_ok res" "amount_ok act"
  shows "applyLocalDelta b res act = (b + res - act + max 0 (act - res - b), max 0 (act - res - b), act < res)"
proof -
  have s: "i64_sub res act = res - act" using assms by simp
  have n: "i64_neg (res - act) = act - res" using assms by (simp add: amount_ok_def i64_exact in64_def)
  have "res < act \<Longrightarrow> amount_ok (act - res)" "act < res \<Longrightarrow> amount_ok (res - act)"
    using assms by (simp_all add: amount_ok_def)
  moreover have "0 \<le> b" using assms(1) by (simp add: amount_ok_def)
  ultimately show ?thesis using assms by (auto simp: applyLocalDelta_def Let_def s n)
qed

lemma local_pending_purge:
  "local_pending p now rid = Some r \<longleftrightarrow> pRes (purgeResLocked p now) rid = Some r \<and> lrStatus r = Pending"
  by (auto simp: local_pending_def split: option.splits)

lemma local_pending_amount: "pool_ok p \<Longrightarrow> local_pending p now rid = Some r \<Longrightarrow> amount_ok (lr_axis ax r)"
  using pool_okD(3) by (auto simp: local_pending_def split: option.splits if_splits)

lemma pool_ok_purge: "pool_ok p \<Longrightarrow> pool_ok (purgeResLocked p now)"
  by (erule pool_ok_update) simp_all

lemma bal_purge [simp]: "bal ax (purgeResLocked p now') now k = bal ax p now k"
  by (simp add: bal_def)

text \<open>Writing the bucket back with a renewed lease time.\<close>

lemma bal_written:
  assumes "pool_ok p" "leaseFor (purgeResLocked p now) r now = (b0, p1)"
    and "pLease p' = (pLease p1)(cacheKey (lrKey r) \<mapsto> b)" "lbExpiresAt b = time_add now (LeaseTTL (pCfg p))"
  shows "bal ax p' now k = (if k = cacheKey (lrKey r) then lb_axis ax b else bal ax p now k)"
proof -
  have l: "time_before now (lbExpiresAt b)" using ttl_live pool_okD(1) [OF assms(1)] assms(4) by simp
  show ?thesis
    using leaseFor_props(5) [OF pool_ok_purge [OF assms(1)] assms(2)]
    by (simp add: bal_def live_upd [OF assms(3) l])
qed

text \<open>A local reservation that a settlement or a refund has finished.\<close>

definition local_finish :: "Reservation \<Rightarrow> status \<Rightarrow> Decision \<Rightarrow> time \<Rightarrow> Reservation" where
  "local_finish r st d now = r\<lparr>lrStatus := st, lrLastDecision := d, lrExpiresAt := time_add now ReservationTTL\<rparr>"

lemma local_finish_simps [simp]:
  "lrStatus (local_finish r st d now) = st" "lrKey (local_finish r st d now) = lrKey r"
  "lrLimits (local_finish r st d now) = lrLimits r" "lrLastDecision (local_finish r st d now) = d"
  "lrExpiresAt (local_finish r st d now) = time_add now ReservationTTL"
  "lr_axis ax (local_finish r st d now) = lr_axis ax r"
  by (simp_all add: local_finish_def) (cases ax; simp)

lemma SettleLocal_pending:
  assumes p: "local_pending p now rid = Some r" "\<not> Split (lrLimits r)"
    and l: "leaseFor (purgeResLocked p now) r now = (b0, p1)"
    and d: "applyLocalDelta (lbTpm b0) (lrTPMReserved r) (max 0 a) = (tpm, over, restored)"
  shows "\<exists>dec. SettleLocal p now rid a =
      (Inr dec, p1\<lparr>pLease := (pLease p1)(cacheKey (lrKey r) \<mapsto>
                     b0\<lparr>lbTpm := tpm, lbExpiresAt := time_add now (LeaseTTL (pCfg p1))\<rparr>),
                   pRes := (pRes p1)(rid \<mapsto> local_finish r Settled dec now),
                   pDeny := (if restored then deny_Clear (pDeny p1) (lrKey r) else pDeny p1)\<rparr>) \<and>
      Allowed dec \<and> OvershootTPM dec = over \<and> RemainingTPM dec = tpm \<and> ReservationID dec = rid"
proof -
  have r: "pRes (purgeResLocked p now) rid = Some r" "lrStatus r = Pending"
    using p(1) by (simp_all add: local_pending_purge del: purge_pool)
  have m: "(if a < 0 then 0 else a) = max 0 a" by simp
  show ?thesis
    using d unfolding SettleLocal_def Let_def r(1) option.case m l prod.case
    using r(2) p(2)
    by (auto simp: applyLocalDelta_def Let_def keyStr_def local_finish_def zero_Decision_def split: if_splits)
qed

lemma SettleLocalIO_pending:
  assumes p: "local_pending p now rid = Some r" "Split (lrLimits r)"
    and l: "leaseFor (purgeResLocked p now) r now = (b0, p1)"
    and d: "applyLocalDelta (lbItpm b0) (lrITPMReserved r) (max 0 i) = (itpm, overI, restI)"
      "applyLocalDelta (lbOtpm b0) (lrOTPMReserved r) (max 0 out) = (otpm, overO, restO)"
  shows "\<exists>dec. SettleLocalIO p now rid i out =
      (Inr dec, p1\<lparr>pLease := (pLease p1)(cacheKey (lrKey r) \<mapsto>
                     b0\<lparr>lbItpm := itpm, lbOtpm := otpm, lbExpiresAt := time_add now (LeaseTTL (pCfg p1))\<rparr>),
                   pRes := (pRes p1)(rid \<mapsto> local_finish r Settled dec now),
                   pDeny := (if restI \<or> restO then deny_Clear (pDeny p1) (lrKey r) else pDeny p1)\<rparr>) \<and>
      Allowed dec \<and> OvershootITPM dec = overI \<and> OvershootOTPM dec = overO \<and> ReservationID dec = rid"
proof -
  have r: "pRes (purgeResLocked p now) rid = Some r" "lrStatus r = Pending"
    using p(1) by (simp_all add: local_pending_purge del: purge_pool)
  have m: "(if i < 0 then 0 else i) = max 0 i" "(if out < 0 then 0 else out) = max 0 out" by simp_all
  show ?thesis
    unfolding SettleLocalIO_def Let_def r(1) option.case m l prod.case d
    using r(2) p(2) by (simp add: keyStr_def local_finish_def zero_Decision_def)
qed

lemma RefundLocal_pending:
  assumes p: "local_pending p now rid = Some r"
    and l: "leaseFor (purgeResLocked p now) r now = (b0, p1)"
  defines "sp \<equiv> Split (lrLimits r)"
  shows "RefundLocal p now rid =
      (None, p1\<lparr>pLease := (pLease p1)(cacheKey (lrKey r) \<mapsto>
                     b0\<lparr>lbRpm := i64_add (lbRpm b0) (lrRPMCost r),
                        lbTpm := (if sp then lbTpm b0 else i64_add (lbTpm b0) (lrTPMReserved r)),
                        lbItpm := (if sp then i64_add (lbItpm b0) (lrITPMReserved r) else lbItpm b0),
                        lbOtpm := (if sp then i64_add (lbOtpm b0) (lrOTPMReserved r) else lbOtpm b0),
                        lbExpiresAt := time_add now (LeaseTTL (pCfg p1))\<rparr>),
                   pRes := (pRes p1)(rid \<mapsto> local_finish r Refunded (lrLastDecision r) now),
                   pDeny := deny_Clear (pDeny p1) (lrKey r)\<rparr>)"
proof -
  have r: "pRes (purgeResLocked p now) rid = Some r" "lrStatus r = Pending"
    using p(1) by (simp_all add: local_pending_purge del: purge_pool)
  show ?thesis
    unfolding RefundLocal_def Let_def r(1) option.case l prod.case
    using r(2) by (simp add: keyStr_def local_finish_def sp_def)
qed

section \<open>Properties of the pool\<close>

text \<open>
  C27 (a lease never overdraws). A debit succeeds exactly when the key has a live lease whose
  balances cover the cost on every axis the configuration uses. It then takes exactly the cost
  from that key, keeps every balance non-negative, and reserves the cost under the given id;
  when it fails, no balance of any key changes.
\<close>

theorem try_debit_exact:
  assumes ok: "pool_ok p" "cost_ok cost"
  shows "(fst (TryDebit p now key limits cost rid) \<noteq> None \<longleftrightarrow>
       live p now (cacheKey key) \<noteq> None \<and>
       (\<forall>ax. active ax (Split limits) \<longrightarrow> axis_cost ax cost \<le> bal ax p now (cacheKey key))) \<and>
    bal ax (snd (TryDebit p now key limits cost rid)) now k = bal ax p now k -
       (if fst (TryDebit p now key limits cost rid) \<noteq> None \<and> k = cacheKey key \<and> active ax (Split limits)
        then axis_cost ax cost else 0) \<and>
    0 \<le> bal ax (snd (TryDebit p now key limits cost rid)) now k"
proof (cases "covers (live p now (cacheKey key)) cost (Split limits)")
  case True
  note h = TryDebit_hit [OF True ok, where rid = rid]
  have "fst (TryDebit p now key limits cost rid) \<noteq> None" using h(1) by auto
  moreover have "0 \<le> bal ax (snd (TryDebit p now key limits cost rid)) now k"
    using bal_amount [OF h(3)] by (simp add: amount_ok_def)
  ultimately show ?thesis using True h(2) by (auto simp: covers_iff bal_def)
next
  case False
  note m = TryDebit_miss [OF False, where rid = rid]
  have "bal ax (snd (TryDebit p now key limits cost rid)) now k = bal ax p now k" using m(2) by (simp add: bal_def)
  moreover have "live p now (cacheKey key) \<noteq> None \<Longrightarrow>
      \<not> (\<forall>ax. active ax (Split limits) \<longrightarrow> axis_cost ax cost \<le> bal ax p now (cacheKey key))"
    using False by (auto simp: covers_iff bal_def)
  moreover have "0 \<le> bal ax p now k" using bal_amount [OF ok(1)] by (simp add: amount_ok_def)
  ultimately show ?thesis unfolding m(1) by (metis diff_zero)
qed

text \<open>
  C28 (local settlement is exact). Settling a pending local reservation of \<open>R\<close> tokens with
  usage \<open>a\<close> turns a balance \<open>B\<close> into \<open>B + R - a + o\<close>, where the overshoot \<open>o = max 0 (a - R - B)\<close>
  is reported in the decision; no other balance changes, and credits that come back clear the
  denial of the key.
\<close>

theorem local_settle_exact:
  assumes ok: "pool_ok p" "amount_ok a" and p: "local_pending p now rid = Some r" "\<not> Split (lrLimits r)"
  defines "B \<equiv> bal Tpm p now (cacheKey (lrKey r))"
  defines "over \<equiv> max 0 (a - lrTPMReserved r - B)"
  shows "\<exists>d p'. SettleLocal p now rid a = (Inr d, p') \<and> Allowed d \<and> OvershootTPM d = over \<and>
    bal ax p' now k = (if k = cacheKey (lrKey r) \<and> ax = Tpm then B + lrTPMReserved r - a + over else bal ax p now k) \<and>
    (a < lrTPMReserved r \<longrightarrow> fst (deny_Get (pDeny p') now' (lrKey r)) = None)"
proof -
  obtain b0 p1 where l: "leaseFor (purgeResLocked p now) r now = (b0, p1)" by fastforce
  note lp = leaseFor_props [OF pool_ok_purge [OF ok(1)] l]
  have b0: "lb_axis ax b0 = bal ax p now (cacheKey (lrKey r))" for ax using lp(1) by simp
  have am: "amount_ok (lbTpm b0)" "amount_ok (lrTPMReserved r)" "amount_ok (max 0 a)"
    using b0 [of Tpm] bal_amount [OF ok(1)] local_pending_amount [OF ok(1) p(1), of Tpm] ok(2)
    by (simp_all add: max_def amount_ok_def)
  have a: "max 0 a = a" using ok(2) by (simp add: amount_ok_def)
  have B: "lbTpm b0 = B" using b0 [of Tpm] by (simp add: B_def)
  from SettleLocal_pending [OF p l applyLocalDelta_spec [OF am]]
  obtain d where d: "SettleLocal p now rid a = (Inr d, p1\<lparr>pLease := (pLease p1)(cacheKey (lrKey r) \<mapsto>
        b0\<lparr>lbTpm := B + lrTPMReserved r - a + over, lbExpiresAt := time_add now (LeaseTTL (pCfg p1))\<rparr>),
      pRes := (pRes p1)(rid \<mapsto> local_finish r Settled d now),
      pDeny := (if a < lrTPMReserved r then deny_Clear (pDeny p1) (lrKey r) else pDeny p1)\<rparr>)"
    "Allowed d" "OvershootTPM d = over"
    unfolding a B over_def by blast
  define b where "b = b0\<lparr>lbTpm := B + lrTPMReserved r - a + over, lbExpiresAt := time_add now (LeaseTTL (pCfg p1))\<rparr>"
  have w: "bal ax (snd (SettleLocal p now rid a)) now k =
      (if k = cacheKey (lrKey r) then lb_axis ax b else bal ax p now k)"
    by (rule bal_written [OF ok(1) l]) (simp_all add: d(1) b_def lp(2))
  have "lb_axis ax b = (if ax = Tpm then B + lrTPMReserved r - a + over else bal ax p now (cacheKey (lrKey r)))"
    using b0 [of ax] by (cases ax) (simp_all add: b_def)
  then have "bal ax (snd (SettleLocal p now rid a)) now k =
      (if k = cacheKey (lrKey r) \<and> ax = Tpm then B + lrTPMReserved r - a + over else bal ax p now k)"
    unfolding w by (cases ax) simp_all
  moreover have "a < lrTPMReserved r \<Longrightarrow> fst (deny_Get (pDeny (snd (SettleLocal p now rid a))) now' (lrKey r)) = None"
    by (simp add: d(1) deny_Get_def deny_Clear_def)
  moreover have "SettleLocal p now rid a = (Inr d, snd (SettleLocal p now rid a))" by (simp add: d(1))
  ultimately show ?thesis using d(2,3) by blast
qed

text \<open>
  A local refund undoes a local debit. If a debit succeeded and its reservation is
  refunded at once, the refund succeeds and every balance of every key is back to exactly what
  it was.
\<close>

theorem local_refund_roundtrip:
  assumes ok: "pool_ok p" "cost_ok cost" and hit: "fst (TryDebit p now key limits cost rid) \<noteq> None"
  defines "p1 \<equiv> snd (TryDebit p now key limits cost rid)"
  shows "fst (RefundLocal p1 now rid) = None \<and> bal ax (snd (RefundLocal p1 now rid)) now k = bal ax p now k"
proof -
  have c: "covers (live p now (cacheKey key)) cost (Split limits)" using hit TryDebit_miss(1) by metis
  note h = TryDebit_hit [OF c ok, where rid = rid, folded p1_def]
  obtain r where r: "local_pending p1 now rid = Some r" "lrKey r = key" "lrLimits r = limits"
    "\<And>ax. lr_axis ax r = axis_cost ax cost" using h(5) by blast
  obtain b0 p2 where l: "leaseFor (purgeResLocked p1 now) r now = (b0, p2)" by fastforce
  note lp = leaseFor_props [OF pool_ok_purge [OF h(3)] l] and R = RefundLocal_pending [OF r(1) l]
  have b0: "lb_axis ax b0 = bal ax p1 now (cacheKey key)" for ax using lp(1) r(2) by simp
  have am: "amount_ok (lb_axis ax b0)" "amount_ok (lr_axis ax r)" for ax
    using b0 bal_amount [OF h(3)] local_pending_amount [OF h(3) r(1)] by simp_all
  note aa = am [of Rpm, simplified] am [of Tpm, simplified] am [of Itpm, simplified] am [of Otpm, simplified]
  define b where "b = b0\<lparr>lbRpm := lbRpm b0 + lrRPMCost r,
      lbTpm := (if Split limits then lbTpm b0 else lbTpm b0 + lrTPMReserved r),
      lbItpm := (if Split limits then lbItpm b0 + lrITPMReserved r else lbItpm b0),
      lbOtpm := (if Split limits then lbOtpm b0 + lrOTPMReserved r else lbOtpm b0),
      lbExpiresAt := time_add now (LeaseTTL (pCfg p2))\<rparr>"
  have w: "bal ax (snd (RefundLocal p1 now rid)) now k =
      (if k = cacheKey (lrKey r) then lb_axis ax b else bal ax p1 now k)" for ax
    by (rule bal_written [OF h(3) l]) (use aa in \<open>simp_all add: R b_def r(3) lp(2)\<close>)
  have "lb_axis ax b = bal ax p now (cacheKey key)"
    using b0 [of ax] h(2) [of ax "cacheKey key"] r(4) [of ax]
    by (cases ax; cases "Split limits") (simp_all add: b_def)
  then show ?thesis using w h(2) [of ax k] by (auto simp: R r(2))
qed

section \<open>Draining the pool\<close>

definition drained :: "Pool \<Rightarrow> time \<Rightarrow> string \<Rightarrow> bool" where
  "drained p now k \<longleftrightarrow> (\<forall>ax \<in> {Rpm, Tpm, Itpm, Otpm}. bal ax p now k \<le> 0)"

definition snap_of :: "string \<Rightarrow> localBucket \<Rightarrow> LeaseSnap" where
  "snap_of k b = \<lparr>lsKey = \<lparr>Subject = fst (splitKey k), Model = snd (splitKey k)\<rparr>, lsLimits = lbLimits b,
     lsRPM = lbRpm b, lsTPM = lbTpm b, lsITPM = lbItpm b, lsOTPM = lbOtpm b\<rparr>"

definition wipe :: "Pool \<Rightarrow> time \<Rightarrow> string \<Rightarrow> Pool" where
  "wipe p now k = p\<lparr>pLease := (pLease p)(k \<mapsto>
     (the (live p now k))\<lparr>lbRpm := 0, lbTpm := 0, lbItpm := 0, lbOtpm := 0\<rparr>)\<rparr>"

lemma SnapshotLeases_Cons:
  "SnapshotLeases (k # ks) now p =
     (if drained p now k then SnapshotLeases ks now p
      else (snap_of k (the (live p now k)) # fst (SnapshotLeases ks now (wipe p now k)),
            snd (SnapshotLeases ks now (wipe p now k))))"
  by (auto simp: drained_def bal_def live_def snap_of_def wipe_def Let_def split: option.splits prod.splits)

lemma wipe_props:
  "drained (wipe p now k) now k" "k' \<noteq> k \<Longrightarrow> drained (wipe p now k) now k' = drained p now k'"
  "k' \<noteq> k \<Longrightarrow> live (wipe p now k) now k' = live p now k'"
  by (simp_all add: wipe_def drained_def bal_def live_def)

declare SnapshotLeases.simps(2) [simp del]

lemma SnapshotLeases_drained:
  "k \<in> set ks \<or> drained p now k \<Longrightarrow> drained (snd (SnapshotLeases ks now p)) now k"
proof (induction ks arbitrary: p)
  case (Cons a ks)
  show ?case using Cons.IH [of p] Cons.IH [of "wipe p now a"] Cons.prems wipe_props
    by (cases "k = a") (auto simp: SnapshotLeases_Cons)
qed simp

lemma SnapshotLeases_list:
  "distinct ks \<Longrightarrow> fst (SnapshotLeases ks now p) =
     map (\<lambda>k. snap_of k (the (live p now k))) (filter (\<lambda>k. \<not> drained p now k) ks)"
proof (induction ks arbitrary: p)
  case (Cons a ks)
  have "k \<in> set ks \<Longrightarrow> drained (wipe p now a) now k = drained p now k \<and>
      live (wipe p now a) now k = live p now k" for k
    using wipe_props(2,3) Cons.prems by (cases "k = a") auto
  then have "map (\<lambda>k. snap_of k (the (live (wipe p now a) now k))) (filter (\<lambda>k. \<not> drained (wipe p now a) now k) ks) =
      map (\<lambda>k. snap_of k (the (live p now k))) (filter (\<lambda>k. \<not> drained p now k) ks)"
    by (intro map_cong filter_cong) auto
  then show ?case using Cons by (simp add: SnapshotLeases_Cons)
qed simp

text \<open>
  Closing drains the pool once. Whatever the order in which the leases are visited, the
  snapshot lists every live lease with a positive balance once, with its balances, and leaves
  no positive balance behind, so a second snapshot at that instant is empty.
\<close>

theorem snapshot_drains:
  assumes "distinct ks" "dom (pLease p) \<subseteq> set ks"
  shows "fst (SnapshotLeases ks now p) =
      map (\<lambda>k. snap_of k (the (live p now k))) (filter (\<lambda>k. \<not> drained p now k) ks) \<and>
    bal ax (snd (SnapshotLeases ks now p)) now k \<le> 0 \<and>
    fst (SnapshotLeases ks now (snd (SnapshotLeases ks now p))) = []"
proof -
  have d: "drained (snd (SnapshotLeases ks now p)) now k" for k
  proof (cases "k \<in> set ks")
    case False
    then have "pLease p k = None" using assms(2) by blast
    then have "drained p now k" by (simp add: drained_def bal_def live_def)
    then show ?thesis by (intro SnapshotLeases_drained) simp
  qed (simp add: SnapshotLeases_drained)
  then have "bal ax (snd (SnapshotLeases ks now p)) now k \<le> 0"
    unfolding drained_def all_axes by blast
  then show ?thesis using d SnapshotLeases_list [OF assms(1)] by simp
qed

section \<open>Witnesses\<close>

definition ex_pool :: Pool where
  "ex_pool = CreditLease (NewPool DefaultConfig) 0 \<lparr>Subject = ''u'', Model = ''m''\<rparr>
     \<lparr>RequestsPerMinute = 60, TokensPerMinute = 6000, InputTokensPerMinute = 0, OutputTokensPerMinute = 0\<rparr>
     5 500 0 0"

lemmas ex_pool_defs = ex_pool_def CreditLease_def NewPool_def DefaultConfig_def normalized_def
  zero_localBucket_def keyStr_def cacheKey_def NUL_def NewDenyCache_def

definition ex_lcost :: Cost where
  "ex_lcost = \<lparr>Requests = 1, CTokens = 200, InputTokens = 0, OutputTokens = 0\<rparr>"

definition ex_llimits :: Limits where
  "ex_llimits = \<lparr>RequestsPerMinute = 60, TokensPerMinute = 6000, InputTokensPerMinute = 0, OutputTokensPerMinute = 0\<rparr>"

lemma ex_pool_ok: "pool_ok ex_pool"
  by (simp add: pool_ok_def ex_pool_defs Second_def amount_ok_def i64_exact in64_def Let_def)

lemma ex_lcost_ok: "cost_ok ex_lcost"
  by (simp add: cost_ok_def ex_lcost_def amount_ok_def)

lemma ex_pool_covers: "covers (live ex_pool 0 (cacheKey \<lparr>Subject = ''u'', Model = ''m''\<rparr>)) ex_lcost (Split ex_llimits)"
  by (simp add: live_def ex_pool_defs Let_def time_before_def time_add_def Second_def covers_def
      ex_lcost_def ex_llimits_def Split_def i64_exact in64_def)

lemma ex_pool_bal: "bal Tpm ex_pool 0 (cacheKey \<lparr>Subject = ''u'', Model = ''m''\<rparr>) = 500"
  by (simp add: bal_def live_def ex_pool_defs Let_def time_before_def time_add_def Second_def i64_exact in64_def)

theorem try_debit_exact_witness:
  "bal Tpm (snd (TryDebit ex_pool 0 \<lparr>Subject = ''u'', Model = ''m''\<rparr> ex_llimits ex_lcost ''r'')) 0
     (cacheKey \<lparr>Subject = ''u'', Model = ''m''\<rparr>) = 300"
proof -
  obtain d where "fst (TryDebit ex_pool 0 \<lparr>Subject = ''u'', Model = ''m''\<rparr> ex_llimits ex_lcost ''r'') = Some d"
    using TryDebit_hit(1) [OF ex_pool_covers ex_pool_ok ex_lcost_ok] by blast
  then show ?thesis
    using try_debit_exact [OF ex_pool_ok ex_lcost_ok, of 0 "\<lparr>Subject = ''u'', Model = ''m''\<rparr>" ex_llimits "''r''" Tpm
        "cacheKey \<lparr>Subject = ''u'', Model = ''m''\<rparr>"] ex_pool_bal
    by (simp add: ex_llimits_def Split_def ex_lcost_def)
qed

theorem local_refund_roundtrip_witness:
  "fst (RefundLocal (snd (TryDebit ex_pool 0 \<lparr>Subject = ''u'', Model = ''m''\<rparr> ex_llimits ex_lcost ''r'')) 0 ''r'') = None"
  using local_refund_roundtrip [OF ex_pool_ok ex_lcost_ok, of 0 "\<lparr>Subject = ''u'', Model = ''m''\<rparr>" ex_llimits "''r''"]
    TryDebit_hit(1) [OF ex_pool_covers ex_pool_ok ex_lcost_ok, of "''r''"] by auto

theorem local_settle_exact_witness:
  "\<exists>d p'. SettleLocal (snd (TryDebit ex_pool 0 \<lparr>Subject = ''u'', Model = ''m''\<rparr> ex_llimits ex_lcost ''r'')) 0 ''r'' 600 =
     (Inr d, p') \<and> OvershootTPM d = 100"
proof -
  let ?key = "\<lparr>Subject = ''u'', Model = ''m''\<rparr>"
  let ?p = "snd (TryDebit ex_pool 0 ?key ex_llimits ex_lcost ''r'')"
  note h = TryDebit_hit [OF ex_pool_covers ex_pool_ok ex_lcost_ok, where rid = "''r''"]
  obtain r where r: "local_pending ?p 0 ''r'' = Some r" "lrKey r = ?key" "lrLimits r = ex_llimits"
    "\<forall>ax. lr_axis ax r = axis_cost ax ex_lcost" using h(5) by blast
  have sp: "\<not> Split (lrLimits r)" "active Tpm (Split ex_llimits)" by (simp_all add: r(3) ex_llimits_def Split_def)
  have "bal Tpm ?p 0 (cacheKey ?key) = 300" "lrTPMReserved r = 200"
    using h(2) [of Tpm "cacheKey ?key"] sp(2) ex_pool_bal r(4) [THEN spec, of Tpm] by (simp_all add: ex_lcost_def)
  then have o: "max 0 (600 - lrTPMReserved r - bal Tpm ?p 0 (cacheKey (lrKey r))) = 100" using r(2) by simp
  have "amount_ok 600" by (simp add: amount_ok_def)
  from local_settle_exact [OF h(3) this r(1) sp(1), of Tpm "[]" 0] show ?thesis unfolding o by blast
qed

theorem snapshot_drains_witness:
  "fst (SnapshotLeases [cacheKey \<lparr>Subject = ''u'', Model = ''m''\<rparr>] 0
     (snd (SnapshotLeases [cacheKey \<lparr>Subject = ''u'', Model = ''m''\<rparr>] 0 ex_pool))) = []"
proof -
  have "dom (pLease ex_pool) \<subseteq> set [cacheKey \<lparr>Subject = ''u'', Model = ''m''\<rparr>]"
    by (simp add: ex_pool_defs Let_def)
  then show ?thesis using snapshot_drains [of "[cacheKey \<lparr>Subject = ''u'', Model = ''m''\<rparr>]" ex_pool 0] by simp
qed

end
