(* ===== verification/Bucket.thy ===== *)
theory Bucket
  imports Go_Float Go_Time
begin

text \<open>
  Package \<^verbatim>\<open>bucket\<close> (\<^verbatim>\<open>pkg/bucket/bucket.go\<close>): one token bucket, refilled at a sixtieth
  of its capacity per second. The state and every function of the package are here, over
  the binary64 arithmetic of theory \<open>Go_Float\<close> and wrapping 64-bit integers, followed by
  the well-formedness invariant \<open>bucket_ok\<close>, its preservation by every operation, the
  soundness and completeness of \<open>TryConsume\<close>, and the accounting lemmas (how much a refill
  can add, how much a debit takes) from which the store's rate bounds are derived.
\<close>

record State =
  Tokens :: float64
  LastMs :: int64
  Capacity :: int64

definition RefillPerSec :: "int64 \<Rightarrow> float64" where
  "RefillPerSec capacity = (if capacity \<le> 0 then 0 else f64_div (f64_of_int capacity) 60)"

definition Refill :: "State \<Rightarrow> int64 \<Rightarrow> State" where
  "Refill s nowMs =
     (if Capacity s \<le> 0 then s\<lparr>Tokens := 0, LastMs := nowMs\<rparr>
      else if LastMs s = 0 then s\<lparr>Tokens := f64_of_int (Capacity s), LastMs := nowMs\<rparr>
      else if nowMs < LastMs s then s\<lparr>LastMs := nowMs\<rparr>
      else
        (let elapsed = f64_div (f64_of_int (i64_sub nowMs (LastMs s))) 1000;
             rate = RefillPerSec (Capacity s)
         in s\<lparr>Tokens := min (f64_of_int (Capacity s)) (f64_add (Tokens s) (f64_mul elapsed rate)),
              LastMs := nowMs\<rparr>))"

record Result =
  ResAllowed :: bool
  ResTokens :: float64
  ResRemaining :: int64
  ResRetryAfter :: duration
  ResResetAt :: time

definition retryAfter :: "State \<Rightarrow> float64 \<Rightarrow> duration" where
  "retryAfter s need =
     (let rate = RefillPerSec (Capacity s) in
      if rate \<le> 0 then Hour
      else
        (let deficit = f64_sub need (Tokens s) in
         if deficit \<le> 0 then 0
         else
           (let secs = f64_ceil (f64_div deficit rate)
            in i64_mul (i64_of_f64 secs) Second)))"

definition ResetAt :: "State \<Rightarrow> int64 \<Rightarrow> time" where
  "ResetAt s nowMs =
     (let rate = RefillPerSec (Capacity s); now = time_of_ms nowMs in
      if rate \<le> 0 then now
      else
        (let need = f64_sub (f64_of_int (Capacity s)) (Tokens s) in
         if need \<le> 0 then now
         else
           (let secs = f64_div need rate
            in time_add now (i64_of_f64 (f64_mul secs (f64_of_int Second))))))"

definition RemainingInt :: "float64 \<Rightarrow> int64" where
  "RemainingInt tokens = i64_of_f64 (f64_floor tokens)"

text \<open>The constant \<^verbatim>\<open>1e-9\<close> as a double.\<close>

definition f64_eps :: float64 where
  "f64_eps = rnd64 (1 / 1000000000)"

definition TryConsume :: "State \<Rightarrow> int64 \<Rightarrow> int64 \<Rightarrow> State \<times> Result" where
  "TryConsume s0 nowMs cost0 =
     (let s = Refill s0 nowMs;
          remaining = i64_of_f64 (f64_floor (Tokens s));
          resetAt = ResetAt s nowMs;
          cost = (if cost0 < 0 then 0 else cost0)
      in if cost > Capacity s then
           (s, \<lparr>ResAllowed = False, ResTokens = Tokens s, ResRemaining = remaining,
                ResRetryAfter = retryAfter s (f64_of_int cost), ResResetAt = resetAt\<rparr>)
         else if f64_add (Tokens s) f64_eps < f64_of_int cost then
           (s, \<lparr>ResAllowed = False, ResTokens = Tokens s, ResRemaining = remaining,
                ResRetryAfter = retryAfter s (f64_of_int cost), ResResetAt = resetAt\<rparr>)
         else
           (let s' = s\<lparr>Tokens := f64_sub (Tokens s) (f64_of_int cost)\<rparr>;
                rem = i64_of_f64 (f64_floor (Tokens s'))
            in (s', \<lparr>ResAllowed = True, ResTokens = Tokens s', ResRemaining = rem,
                     ResRetryAfter = 0, ResResetAt = ResetAt s' nowMs\<rparr>)))"

definition Credit :: "State \<Rightarrow> int64 \<Rightarrow> int64 \<Rightarrow> State" where
  "Credit s0 nowMs amount =
     (let s = Refill s0 nowMs in
      if amount \<le> 0 then s
      else s\<lparr>Tokens := min (f64_of_int (Capacity s)) (f64_add (Tokens s) (f64_of_int amount))\<rparr>)"

definition DebitFloor :: "State \<Rightarrow> int64 \<Rightarrow> int64 \<Rightarrow> State \<times> int64 \<times> int64" where
  "DebitFloor s0 nowMs amount =
     (let s = Refill s0 nowMs in
      if amount \<le> 0 then (s, 0, 0)
      else
        (let avail = i64_of_f64 (f64_floor (Tokens s)) in
         if avail \<ge> amount then
           (s\<lparr>Tokens := f64_sub (Tokens s) (f64_of_int amount)\<rparr>, amount, 0)
         else
           (let overshoot = i64_sub amount avail;
                t = f64_sub (Tokens s) (f64_of_int avail);
                t' = (if t < 0 then 0 else t)
            in (s\<lparr>Tokens := t'\<rparr>, avail, overshoot))))"

section \<open>The invariant\<close>

text \<open>
  A bucket is well formed when its token count is a double between \<open>- 2 \<epsilon>\<close> (twice the
  tolerance \<^verbatim>\<open>1e-9\<close> of the comparison in \<open>TryConsume\<close>) and its capacity, the capacity is a
  non-negative integer that a double represents exactly, and its timestamp is not before
  the epoch.
\<close>

definition bucket_ok :: "State \<Rightarrow> bool" where
  "bucket_ok s \<longleftrightarrow> is_f64 (Tokens s) \<and> - (2 * f64_eps) \<le> Tokens s \<and>
     Tokens s \<le> of_int (Capacity s) \<and> 0 \<le> Capacity s \<and> Capacity s \<le> 2 ^ 53 \<and>
     0 \<le> LastMs s \<and> in64 (LastMs s)"

text \<open>A usable clock reading is after the epoch: the timestamp \<open>0\<close> marks a fresh bucket.\<close>

definition clock_ok :: "int64 \<Rightarrow> bool" where
  "clock_ok nowMs \<longleftrightarrow> 0 < nowMs \<and> in64 nowMs"

lemma f64_eps_pos: "0 < f64_eps" and f64_eps_small: "f64_eps \<le> 1 / 2 ^ 29"
  by code_simp+

lemma f64_eps_nonneg [simp]: "0 \<le> f64_eps"
  using f64_eps_pos by simp

lemma is_f64_eps [simp]: "is_f64 f64_eps"
  by (simp add: f64_eps_def rnd64_f64)

lemma is_f64_neg_2eps [simp]: "is_f64 (- (2 * f64_eps))"
  by (simp add: is_f64_neg is_f64_double)

lemma bucket_okD:
  assumes "bucket_ok s"
  shows "is_f64 (Tokens s)" "- (2 * f64_eps) \<le> Tokens s" "Tokens s \<le> of_int (Capacity s)"
    "Capacity s \<le> 2 ^ 53" "0 \<le> LastMs s" "in64 (LastMs s)" "0 \<le> Capacity s"
  using assms by (simp_all add: bucket_ok_def)

lemma neg_2eps_le: "0 \<le> x \<Longrightarrow> - (2 * f64_eps) \<le> x"
  using f64_eps_pos by linarith

lemma two_eps_le_1: "2 * f64_eps \<le> 1"
  using f64_eps_small by simp

text \<open>On integral token counts the tolerance does not change the comparison.\<close>

lemma f64_eps_compare:
  assumes "\<bar>m\<bar> \<le> 2 ^ 53" "\<bar>n\<bar> \<le> 2 ^ 53"
  shows "f64_add (of_int m) f64_eps < of_int n \<longleftrightarrow> m < n"
proof
  assume "m < n"
  have "f64_eps < 1 / 2" using f64_eps_small by (rule le_less_trans) simp
  then have "(of_int m :: rat) + 2 * f64_eps < of_int m + 1" by linarith
  also have "\<dots> \<le> of_int n" using \<open>m < n\<close> by (metis of_int_1 of_int_add of_int_le_iff zless_imp_add1_zle)
  finally show "f64_add (of_int m) f64_eps < of_int n"
    using f64.rnd_tolerance [OF is_f64_int [OF assms(1)] f64_eps_nonneg, of "of_int n"]
    by (force simp: f64_add_def not_le [symmetric])
next
  assume "f64_add (of_int m) f64_eps < of_int n"
  moreover have "of_int m \<le> f64_add (of_int m) f64_eps"
    unfolding f64_add_def using is_f64_int [OF assms(1)] by (intro f64.rnd_lower) simp
  ultimately show "m < n" by (metis le_less_trans of_int_less_iff)
qed

lemma f64_eps_compare_numeral [f64_simps]:
  "(numeral m :: int) \<le> 2 ^ 53 \<Longrightarrow> (numeral n :: int) \<le> 2 ^ 53 \<Longrightarrow>
     f64_add (numeral m) f64_eps < numeral n \<longleftrightarrow> (numeral m :: int) < numeral n"
  "(numeral n :: int) \<le> 2 ^ 53 \<Longrightarrow> f64_add 0 f64_eps < numeral n"
  "(numeral n :: int) \<le> 2 ^ 53 \<Longrightarrow> f64_add 1 f64_eps < numeral n \<longleftrightarrow> (1 :: int) < numeral n"
  "(numeral m :: int) \<le> 2 ^ 53 \<Longrightarrow> \<not> f64_add (numeral m) f64_eps < 0"
  "(numeral m :: int) \<le> 2 ^ 53 \<Longrightarrow> f64_add (numeral m) f64_eps < 1 \<longleftrightarrow> (numeral m :: int) < 1"
  "f64_add 0 f64_eps < 1" "\<not> f64_add 0 f64_eps < 0" "\<not> f64_add 1 f64_eps < 0" "\<not> f64_add 1 f64_eps < 1"
  using f64_eps_compare [of "numeral m" "numeral n"] f64_eps_compare [of 0 "numeral n"]
    f64_eps_compare [of 1 "numeral n"] f64_eps_compare [of "numeral m" 0]
    f64_eps_compare [of "numeral m" 1] f64_eps_compare [of 0 1] f64_eps_compare [of 0 0]
    f64_eps_compare [of 1 0] f64_eps_compare [of 1 1]
  by simp_all

text \<open>Capacities are exact as doubles.\<close>

lemma f64_capacity: "0 \<le> c \<Longrightarrow> c \<le> 2 ^ 53 \<Longrightarrow> f64_of_int c = of_int c"
  by (simp add: f64_of_int_exact)

lemma is_f64_capacity: "0 \<le> c \<Longrightarrow> c \<le> 2 ^ 53 \<Longrightarrow> is_f64 (of_int c)"
  by (simp add: is_f64_int)

lemma RefillPerSec_pos:
  assumes "0 < c" shows "1 / 64 \<le> RefillPerSec c"
proof -
  have r: "is_f64 (1 / 64)" using is_f64_inv_pow2 [of 6] by simp
  have "1 \<le> f64_of_int c" using assms by (rule f64_of_int_pos)
  then have "1 / 64 \<le> f64_of_int c / 60" by simp
  from f64.rnd_lower [OF this r] show ?thesis using assms by (simp add: RefillPerSec_def f64_div_def)
qed

lemma RefillPerSec_nonpos: "c \<le> 0 \<Longrightarrow> RefillPerSec c = 0"
  by (simp add: RefillPerSec_def)

lemma powi_tiny: "(1::rat) / 2 ^ 100 \<le> x \<Longrightarrow> 2 powi -1022 \<le> x"
proof -
  assume "(1::rat) / 2 ^ 100 \<le> x"
  moreover have "(2::rat) powi -1022 \<le> 2 powi -100" by (rule powi2_mono) simp
  moreover have "(2::rat) powi -100 = 1 / 2 ^ 100" using powi2_neg [of 100] by simp
  ultimately show ?thesis by linarith
qed

lemma RefillPerSec_upper:
  assumes "0 < c" "c \<le> 2 ^ 53"
  shows "RefillPerSec c \<le> of_int c / 60 * (1 + 1 / 2 ^ 53)"
proof -
  have "(1::rat) \<le> of_int c" using assms(1) by simp
  then have "1 / 2 ^ 100 \<le> (of_int c / 60 :: rat)" by simp
  then have "rnd64 (of_int c / 60) \<le> of_int c / 60 * (1 + 1 / 2 ^ 53)"
    by (intro rnd64_rel_upper powi_tiny)
  then show ?thesis using assms by (simp add: RefillPerSec_def f64_div_def f64_capacity)
qed

text \<open>The elapsed time in seconds, as \<open>Refill\<close> computes it.\<close>

definition elapsed_secs :: "int64 \<Rightarrow> float64" where
  "elapsed_secs d = f64_div (f64_of_int d) 1000"

lemma elapsed_secs_nonneg: "0 \<le> d \<Longrightarrow> 0 \<le> elapsed_secs d"
  by (simp add: elapsed_secs_def f64_div_def f64.rnd_lower)

lemma elapsed_secs_pos:
  assumes "0 < d" shows "1 / 1024 \<le> elapsed_secs d"
proof -
  have r: "is_f64 (1 / 1024)" using is_f64_inv_pow2 [of 10] by simp
  have "1 \<le> f64_of_int d" using assms by (rule f64_of_int_pos)
  then have "1 / 1024 \<le> f64_of_int d / 1000" by simp
  from f64.rnd_lower [OF this r] show ?thesis by (simp add: elapsed_secs_def f64_div_def)
qed

lemma f64_of_int_upper:
  assumes "0 < d" shows "f64_of_int d \<le> of_int d * (1 + 1 / 2 ^ 53)"
  using assms unfolding f64_of_int_def by (intro rnd64_rel_upper powi_tiny) simp

lemma elapsed_secs_upper:
  assumes "0 < d"
  shows "elapsed_secs d \<le> of_int d / 1000 * (1 + 1 / 2 ^ 53) ^ 2"
proof -
  let ?u = "1 + 1 / 2 ^ 53 :: rat"
  have "1 \<le> f64_of_int d" using assms by (rule f64_of_int_pos)
  then have "1 / 2 ^ 100 \<le> f64_of_int d / 1000" by simp
  then have "elapsed_secs d \<le> f64_of_int d / 1000 * ?u"
    unfolding elapsed_secs_def f64_div_def by (intro rnd64_rel_upper powi_tiny)
  also have "\<dots> \<le> (of_int d * ?u) / 1000 * ?u"
    using f64_of_int_upper [OF assms] by (intro mult_right_mono divide_right_mono) auto
  finally show ?thesis by (simp add: power2_eq_square)
qed

section \<open>Refill\<close>

text \<open>The exact amount a bucket of capacity \<open>c\<close> earns in \<open>d\<close> milliseconds.\<close>

definition earned :: "int64 \<Rightarrow> int64 \<Rightarrow> rat" where
  "earned c d = of_int c * of_int d / 60000"

lemma earned_nonneg: "0 \<le> c \<Longrightarrow> 0 \<le> d \<Longrightarrow> 0 \<le> earned c d"
  by (simp add: earned_def)

lemma Refill_Capacity [simp]: "Capacity (Refill s t) = Capacity s"
  by (simp add: Refill_def Let_def)

lemma Refill_LastMs [simp]: "LastMs (Refill s t) = t"
  by (simp add: Refill_def Let_def)

lemma Refill_warm:
  assumes "0 < Capacity s" "Capacity s \<le> 2 ^ 53" "0 < LastMs s" "LastMs s \<le> t" "in64 (LastMs s)" "in64 t"
  shows "Tokens (Refill s t) =
    min (of_int (Capacity s))
        (f64_add (Tokens s) (f64_mul (elapsed_secs (t - LastMs s)) (RefillPerSec (Capacity s))))"
proof -
  have "i64_sub t (LastMs s) = t - LastMs s"
    using assms by (intro i64_exact in64_diff_nonneg) auto
  then show ?thesis using assms by (simp add: Refill_def elapsed_secs_def f64_capacity Let_def)
qed

lemma accrual_nonneg: "0 \<le> d \<Longrightarrow> 0 \<le> f64_mul (elapsed_secs d) (RefillPerSec c)"
  using elapsed_secs_nonneg [of d] RefillPerSec_pos [of c] RefillPerSec_nonpos [of c]
  by (cases "0 < c") (simp_all add: f64_mul_def f64.rnd_lower)

text \<open>Four roundings separate the accrued amount from the exact one.\<close>

lemma accrual_upper:
  assumes "0 \<le> d" "0 < c" "c \<le> 2 ^ 53"
  shows "f64_mul (elapsed_secs d) (RefillPerSec c) \<le> earned c d * (1 + 1 / 2 ^ 53) ^ 4"
proof (cases "d = 0")
  case True
  then show ?thesis by (simp add: elapsed_secs_def f64_div_def f64_mul_def earned_def)
next
  case False
  then have d: "0 < d" using assms by simp
  let ?u = "1 + 1 / 2 ^ 53 :: rat"
  have lo: "1 / 1024 * (1 / 64) \<le> elapsed_secs d * RefillPerSec c"
    by (intro mult_mono elapsed_secs_pos RefillPerSec_pos) (use d assms elapsed_secs_nonneg [of d] in auto)
  have "f64_mul (elapsed_secs d) (RefillPerSec c) \<le> (elapsed_secs d * RefillPerSec c) * ?u"
    unfolding f64_mul_def by (intro rnd64_rel_upper powi_tiny) (rule order_trans [OF _ lo], simp)
  also have "\<dots> \<le> ((of_int d / 1000 * ?u ^ 2) * (of_int c / 60 * ?u)) * ?u"
    using elapsed_secs_upper [OF d] RefillPerSec_upper [OF assms(2,3)] assms d
      RefillPerSec_pos [OF assms(2)]
    by (intro mult_right_mono mult_mono) auto
  also have "\<dots> = earned c d * ?u ^ 4"
    by (simp add: earned_def power2_eq_square power4_eq_xxxx mult.commute mult.left_commute)
  finally show ?thesis .
qed

text \<open>Without the upper bound, which a refill establishes: a stored bucket may have been
  filled under a larger limit.\<close>

definition bucket_pre :: "State \<Rightarrow> bool" where
  "bucket_pre s \<longleftrightarrow> is_f64 (Tokens s) \<and> - (2 * f64_eps) \<le> Tokens s \<and>
     0 \<le> Capacity s \<and> Capacity s \<le> 2 ^ 53 \<and> 0 \<le> LastMs s \<and> in64 (LastMs s)"

lemma bucket_ok_pre: "bucket_ok s \<Longrightarrow> bucket_pre s"
  by (simp add: bucket_ok_def bucket_pre_def)

lemma Refill_caps:
  assumes pre: "bucket_pre s" and t: "clock_ok t" and lt: "LastMs s \<le> t"
  shows "bucket_ok (Refill s t)"
proof -
  have cap: "f64_of_int (Capacity s) = of_int (Capacity s)" "is_f64 (of_int (Capacity s))"
    "- (2 * f64_eps) \<le> of_int (Capacity s)" "- (2 * f64_eps) \<le> 0"
    using pre by (simp_all add: bucket_pre_def f64_capacity is_f64_capacity neg_2eps_le)
  consider "Capacity s \<le> 0" | "0 < Capacity s" "LastMs s = 0" | "0 < Capacity s" "0 < LastMs s"
    using pre by (fastforce simp: bucket_pre_def)
  then show ?thesis
  proof cases
    case 3
    let ?a = "f64_mul (elapsed_secs (t - LastMs s)) (RefillPerSec (Capacity s))"
    have "- (2 * f64_eps) \<le> Tokens s" using pre by (simp add: bucket_pre_def)
    then have "- (2 * f64_eps) \<le> Tokens s + ?a"
      using accrual_nonneg [of "t - LastMs s" "Capacity s"] lt by linarith
    then have "- (2 * f64_eps) \<le> f64_add (Tokens s) ?a" by (simp add: f64_add_def f64.rnd_lower)
    with cap(3) have lo: "- (2 * f64_eps) \<le> min (of_int (Capacity s)) (f64_add (Tokens s) ?a)"
      by (rule min.boundedI)
    have "is_f64 (min (of_int (Capacity s)) (f64_add (Tokens s) ?a))"
      using cap(2) by (simp add: min_def)
    with lo show ?thesis
      using 3 pre t lt cap(1) Refill_warm [of s t]
      by (simp add: bucket_ok_def bucket_pre_def clock_ok_def del: min_le_iff_disj)
  qed (use pre t cap in \<open>simp_all add: bucket_ok_def bucket_pre_def clock_ok_def Refill_def neg_2eps_le\<close>)
qed

lemma Refill_ok:
  assumes ok: "bucket_ok s" and t: "clock_ok t"
  shows "bucket_ok (Refill s t)"
proof (cases "LastMs s \<le> t")
  case True
  then show ?thesis using Refill_caps bucket_ok_pre ok t by blast
next
  case False
  then show ?thesis
    using ok t f64_eps_nonneg
    by (auto simp: bucket_ok_def clock_ok_def Refill_def f64_capacity is_f64_capacity)
qed

text \<open>Refilling twice at the same instant is refilling once.\<close>

lemma Refill_same:
  assumes ok: "bucket_ok s" and t: "clock_ok t" and l: "LastMs s = t" and c: "0 < Capacity s"
  shows "Refill s t = s"
proof -
  note okD = bucket_okD [OF ok]
  have "elapsed_secs 0 = 0" by (simp add: elapsed_secs_def f64_div_def)
  then have "f64_mul (elapsed_secs (t - LastMs s)) (RefillPerSec (Capacity s)) = 0"
    by (simp add: l f64_mul_def)
  then have "Tokens (Refill s t) = Tokens s"
    using Refill_warm [of s t] okD t l c by (simp add: clock_ok_def f64_add_def f64.rnd_id)
  moreover have "LastMs (Refill s t) = LastMs s" by (simp add: l)
  ultimately show ?thesis by (cases s) (cases "Refill s t", metis Refill_Capacity State.select_convs)
qed

lemma Refill_idem:
  assumes pre: "bucket_pre s" and t: "clock_ok t" and lt: "LastMs s \<le> t"
  shows "Refill (Refill s t) t = Refill s t"
proof (cases "0 < Capacity s")
  case True
  then show ?thesis using Refill_same [OF Refill_caps [OF pre t lt] t] by simp
qed (simp add: Refill_def)

text \<open>A refill never takes tokens away, as long as the clock does not run backwards.\<close>

lemma Refill_mono:
  assumes ok: "bucket_ok s" and t: "clock_ok t" and c: "0 < Capacity s" and lt: "LastMs s \<le> t"
  shows "Tokens s \<le> Tokens (Refill s t)"
proof (cases "LastMs s = 0")
  case True
  then show ?thesis using c bucket_okD [OF ok] by (simp add: Refill_def f64_capacity)
next
  case False
  note okD = bucket_okD [OF ok]
  let ?a = "f64_mul (elapsed_secs (t - LastMs s)) (RefillPerSec (Capacity s))"
  have "Tokens s \<le> f64_add (Tokens s) ?a"
    using accrual_nonneg [of "t - LastMs s" "Capacity s"] lt okD(1)
    by (simp add: f64_add_def f64.rnd_lower)
  then show ?thesis using Refill_warm [of s t] False c okD lt t by (simp add: clock_ok_def)
qed

text \<open>What one rounding of a token amount costs, for a bucket of capacity \<open>c\<close>.\<close>

lemma rnd64_slack:
  assumes "\<bar>x\<bar> \<le> of_int c + y" "0 < c" "0 \<le> y"
  shows "rnd64 x \<le> x + of_int c / 2 ^ 52 + y / 2 ^ 53"
proof -
  have c: "(1::rat) \<le> of_int c" using assms(2) by simp
  have "rnd64 x - x \<le> \<bar>x\<bar> / 2 ^ 53 + 1 / 2 ^ 1075" using rnd64_error [of x] by linarith
  also have "\<dots> \<le> (of_int c + y) / 2 ^ 53 + 1 / 2 ^ 53"
    using assms by (intro add_mono divide_right_mono divide_left_mono power_increasing) auto
  also have "\<dots> \<le> of_int c / 2 ^ 53 + y / 2 ^ 53 + of_int c / 2 ^ 53"
    using c by (simp add: add_divide_distrib divide_right_mono)
  finally show ?thesis by simp
qed

lemma Refill_gain:
  assumes ok: "bucket_ok s" and t: "clock_ok t" and c: "0 < Capacity s"
    and last: "0 < LastMs s" "LastMs s \<le> t"
  shows "Tokens (Refill s t) \<le>
    Tokens s + earned (Capacity s) (t - LastMs s) * (1 + 6 / 2 ^ 53) + of_int (Capacity s) / 2 ^ 52"
proof -
  note okD = bucket_okD [OF ok]
  let ?c = "Capacity s" let ?d = "t - LastMs s" let ?u = "1 + 1 / 2 ^ 53 :: rat"
  let ?a = "f64_mul (elapsed_secs ?d) (RefillPerSec ?c)"
  have a: "0 \<le> ?a" using last by (simp add: accrual_nonneg)
  have e: "0 \<le> earned ?c ?d" using c last by (simp add: earned_nonneg)
  have c1: "(1::rat) \<le> of_int ?c" using c by simp
  have "\<bar>Tokens s + ?a\<bar> \<le> of_int ?c + ?a"
    using okD(2,3) a c1 f64_eps_small c by (simp add: abs_le_iff)
  then have "f64_add (Tokens s) ?a \<le> Tokens s + ?a + of_int ?c / 2 ^ 52 + ?a / 2 ^ 53"
    unfolding f64_add_def using c a by (rule rnd64_slack)
  also have "\<dots> = Tokens s + ?a * ?u + of_int ?c / 2 ^ 52"
    by (simp only: distrib_left mult_1_right times_divide_eq_right add.assoc add.left_commute add.commute)
  also have "\<dots> \<le> Tokens s + (earned ?c ?d * ?u ^ 4) * ?u + of_int ?c / 2 ^ 52"
    using accrual_upper [of ?d ?c] c okD(4) last by (intro add_mono mult_right_mono) auto
  also have "\<dots> \<le> Tokens s + earned ?c ?d * (1 + 6 / 2 ^ 53) + of_int ?c / 2 ^ 52"
  proof -
    have "?u ^ 4 * ?u \<le> 1 + 6 / 2 ^ 53" by code_simp
    from mult_left_mono [OF this e] show ?thesis by (simp add: mult.assoc)
  qed
  finally show ?thesis using Refill_warm [of s t] c okD last t by (simp add: clock_ok_def min_le_iff_disj)
qed

section \<open>TryConsume\<close>

lemma TryConsume_Capacity [simp]: "Capacity (fst (TryConsume s t c)) = Capacity s"
  by (simp add: TryConsume_def Let_def)

lemma TryConsume_LastMs [simp]: "LastMs (fst (TryConsume s t c)) = t"
  by (simp add: TryConsume_def Let_def)

text \<open>The test: the cost fits the capacity and the refilled bucket covers it up to the
  tolerance. A denied request leaves the bucket refilled and otherwise untouched; an
  allowed one takes its cost.\<close>

lemma TryConsume_allowed_iff:
  "ResAllowed (snd (TryConsume s t c)) \<longleftrightarrow>
     max 0 c \<le> Capacity s \<and> f64_of_int (max 0 c) \<le> f64_add (Tokens (Refill s t)) f64_eps"
  by (auto simp: TryConsume_def Let_def max_def)

lemma TryConsume_denied_state:
  "\<not> ResAllowed (snd (TryConsume s t c)) \<Longrightarrow> fst (TryConsume s t c) = Refill s t"
  by (auto simp: TryConsume_def Let_def split: if_splits)

lemma TryConsume_allowed_state:
  "ResAllowed (snd (TryConsume s t c)) \<Longrightarrow>
     fst (TryConsume s t c) =
       (Refill s t)\<lparr>Tokens := f64_sub (Tokens (Refill s t)) (f64_of_int (max 0 c))\<rparr>"
  by (auto simp: TryConsume_def Let_def max_def split: if_splits)

lemma TryConsume_remaining:
  "ResRemaining (snd (TryConsume s t c)) = RemainingInt (Tokens (fst (TryConsume s t c)))"
  by (simp add: TryConsume_def Let_def RemainingInt_def)

lemma TryConsume_reset:
  "ResResetAt (snd (TryConsume s t c)) = ResetAt (fst (TryConsume s t c)) t"
  by (simp add: TryConsume_def Let_def)

lemma TryConsume_retry_allowed:
  "ResAllowed (snd (TryConsume s t c)) \<Longrightarrow> ResRetryAfter (snd (TryConsume s t c)) = 0"
  by (auto simp: TryConsume_def Let_def split: if_splits)

lemma TryConsume_retry_denied:
  "\<not> ResAllowed (snd (TryConsume s t c)) \<Longrightarrow>
     ResRetryAfter (snd (TryConsume s t c)) = retryAfter (Refill s t) (f64_of_int (max 0 c))"
  by (auto simp: TryConsume_def Let_def max_def split: if_splits)

text \<open>Soundness: an allowed cost exceeds the tokens at hand by at most the tolerance.\<close>

lemma TryConsume_sound:
  assumes "bucket_ok s" "clock_ok t" "ResAllowed (snd (TryConsume s t c))"
  shows "of_int (max 0 c) \<le> Tokens (Refill s t) + 2 * f64_eps"
proof -
  note okD = bucket_okD [OF Refill_ok [OF assms(1,2)]]
  have c: "max 0 c \<le> Capacity s" "f64_of_int (max 0 c) \<le> rnd64 (Tokens (Refill s t) + f64_eps)"
    using assms(3) by (simp_all add: TryConsume_allowed_iff f64_add_def)
  moreover have "f64_of_int (max 0 c) = of_int (max 0 c)"
    using c(1) okD(4) by (intro f64_capacity) auto
  ultimately show ?thesis
    using f64.rnd_tolerance [OF okD(1), of f64_eps "of_int (max 0 c)"] f64_eps_pos by simp
qed

text \<open>Completeness: a cost the refilled bucket holds is allowed.\<close>

lemma TryConsume_complete:
  assumes "bucket_ok s" "clock_ok t" "max 0 c \<le> Capacity s"
    and "of_int (max 0 c) \<le> Tokens (Refill s t) + f64_eps"
  shows "ResAllowed (snd (TryConsume s t c))"
proof -
  have cap: "max 0 c \<le> 2 ^ 53" using assms(3) bucket_okD(4) [OF assms(1)] by simp
  have "is_f64 (of_int (max 0 c))" using cap by (intro is_f64_capacity) auto
  then have "of_int (max 0 c) \<le> f64_add (Tokens (Refill s t)) f64_eps"
    using assms(4) unfolding f64_add_def by (intro f64.rnd_lower)
  moreover have "f64_of_int (max 0 c) = of_int (max 0 c)" using cap by (intro f64_capacity) auto
  ultimately show ?thesis using assms(3) by (simp add: TryConsume_allowed_iff)
qed

lemma TryConsume_ok:
  assumes ok: "bucket_ok s" and t: "clock_ok t"
  shows "bucket_ok (fst (TryConsume s t c))"
proof (cases "ResAllowed (snd (TryConsume s t c))")
  case True
  let ?r = "Refill s t"
  note okD = bucket_okD [OF Refill_ok [OF ok t]]
  have c: "max 0 c \<le> Capacity s" using True by (simp add: TryConsume_allowed_iff)
  have e: "f64_of_int (max 0 c) = of_int (max 0 c)" using c okD(4) by (intro f64_capacity) auto
  have "- (2 * f64_eps) \<le> Tokens ?r - of_int (max 0 c)"
    using TryConsume_sound [OF ok t True] by linarith
  then have lo: "- (2 * f64_eps) \<le> f64_sub (Tokens ?r) (of_int (max 0 c))"
    by (simp add: f64_sub_def f64.rnd_lower)
  have "(0::rat) \<le> of_int (max 0 c)" by simp
  then have "Tokens ?r - of_int (max 0 c) \<le> of_int (Capacity s)"
    using okD(3) by (simp only: Refill_Capacity)
  then have "f64_sub (Tokens ?r) (of_int (max 0 c)) \<le> of_int (Capacity s)"
    unfolding f64_sub_def using okD(4,7) by (intro f64.rnd_upper is_f64_capacity) auto
  with lo okD show ?thesis
    by (simp add: TryConsume_allowed_state [OF True] bucket_ok_def e)
next
  case False
  then show ?thesis using Refill_ok [OF ok t] by (simp add: TryConsume_denied_state)
qed

text \<open>Accounting: an allowed cost is taken from the bucket, up to one rounding.\<close>

lemma TryConsume_debit:
  assumes ok: "bucket_ok s" and t: "clock_ok t" and cap: "0 < Capacity s"
    and allowed: "ResAllowed (snd (TryConsume s t c))"
  shows "of_int (max 0 c) \<le>
    Tokens (Refill s t) - Tokens (fst (TryConsume s t c)) + of_int (Capacity s) / 2 ^ 52"
proof -
  let ?T = "Tokens (Refill s t)"
  note okD = bucket_okD [OF Refill_ok [OF ok t]]
  have c: "max 0 c \<le> Capacity s" using allowed by (simp add: TryConsume_allowed_iff)
  define C where "C = (of_int (max 0 c) :: rat)"
  have C: "0 \<le> C" "C \<le> of_int (Capacity s)" "f64_of_int (max 0 c) = C" "C \<le> ?T + 2 * f64_eps"
    using c okD(4) TryConsume_sound [OF ok t allowed] by (simp_all add: C_def f64_capacity)
  have c1: "(1::rat) \<le> of_int (Capacity s)" using cap by simp
  have T: "?T \<le> of_int (Capacity s)" using okD(3) cap by simp
  have "\<bar>?T - C\<bar> \<le> of_int (Capacity s) + 0"
    using C T c1 two_eps_le_1 by (simp only: abs_le_iff add_0_right) linarith
  from rnd64_slack [OF this cap] have "rnd64 (?T - C) \<le> ?T - C + of_int (Capacity s) / 2 ^ 52" by simp
  then show ?thesis
    unfolding C_def [symmetric] by (simp add: TryConsume_allowed_state [OF allowed] C(3) f64_sub_def)
qed

section \<open>Credit and DebitFloor\<close>

lemma Credit_Capacity [simp]: "Capacity (Credit s t a) = Capacity s"
  by (simp add: Credit_def Let_def)

lemma Credit_LastMs [simp]: "LastMs (Credit s t a) = t"
  by (simp add: Credit_def Let_def)

lemma Credit_ok:
  assumes ok: "bucket_ok s" and t: "clock_ok t"
  shows "bucket_ok (Credit s t a)"
proof (cases "0 < a")
  case True
  note okD = bucket_okD [OF Refill_ok [OF ok t]]
  have cap: "f64_of_int (Capacity s) = of_int (Capacity s)" "is_f64 (of_int (Capacity s))"
    "- (2 * f64_eps) \<le> of_int (Capacity s)"
    using okD(4,7) by (simp_all add: f64_capacity is_f64_capacity neg_2eps_le)
  have "0 \<le> f64_of_int a" using True by simp
  then have "- (2 * f64_eps) \<le> Tokens (Refill s t) + f64_of_int a" using okD(2) by linarith
  then have "- (2 * f64_eps) \<le> f64_add (Tokens (Refill s t)) (f64_of_int a)"
    by (simp add: f64_add_def f64.rnd_lower)
  then show ?thesis
    using True okD cap by (simp add: Credit_def Let_def bucket_ok_def min_def)
next
  case False
  then show ?thesis using Refill_ok [OF ok t] by (simp add: Credit_def)
qed

lemma Credit_mono:
  assumes ok: "bucket_ok s" and t: "clock_ok t"
  shows "Tokens (Refill s t) \<le> Tokens (Credit s t a)"
proof (cases "0 < a")
  case True
  note okD = bucket_okD [OF Refill_ok [OF ok t]]
  have "0 \<le> f64_of_int a" using True by simp
  then have "Tokens (Refill s t) \<le> Tokens (Refill s t) + f64_of_int a" by linarith
  then have "Tokens (Refill s t) \<le> f64_add (Tokens (Refill s t)) (f64_of_int a)"
    using okD(1) by (simp add: f64_add_def f64.rnd_lower)
  then show ?thesis using True okD by (simp add: Credit_def Let_def f64_capacity)
qed (simp add: Credit_def)

text \<open>What a bucket has left, as an integer.\<close>

lemma floor_tokens:
  assumes "bucket_ok s"
  shows "-1 \<le> \<lfloor>Tokens s\<rfloor>" "\<lfloor>Tokens s\<rfloor> \<le> Capacity s" "RemainingInt (Tokens s) = \<lfloor>Tokens s\<rfloor>"
    "f64_of_int \<lfloor>Tokens s\<rfloor> = of_int \<lfloor>Tokens s\<rfloor>"
proof -
  note okD = bucket_okD [OF assms]
  have "of_int (-1) \<le> Tokens s" using okD(2) two_eps_le_1 by simp
  then show 1: "-1 \<le> \<lfloor>Tokens s\<rfloor>" by (simp only: le_floor_iff)
  show 2: "\<lfloor>Tokens s\<rfloor> \<le> Capacity s" using floor_mono [OF okD(3)] by simp
  have "in64 \<lfloor>Tokens s\<rfloor>" using 1 2 okD(4) by (intro in64_small) linarith+
  then show "RemainingInt (Tokens s) = \<lfloor>Tokens s\<rfloor>" by (simp add: RemainingInt_def i64_of_f64_floor)
  have "(1::int) \<le> 2 ^ 53" by simp
  then have "\<bar>\<lfloor>Tokens s\<rfloor>\<bar> \<le> 2 ^ 53" using 1 2 okD(4) by (intro abs_leI) linarith+
  then show "f64_of_int \<lfloor>Tokens s\<rfloor> = of_int \<lfloor>Tokens s\<rfloor>" by (rule f64_of_int_exact)
qed

lemma DebitFloor_cases:
  assumes ok: "bucket_ok s" and t: "clock_ok t" and a: "in64 a"
  defines "T \<equiv> Tokens (Refill s t)"
  shows "DebitFloor s t a =
    (if a \<le> 0 then (Refill s t, 0, 0)
     else if a \<le> \<lfloor>T\<rfloor> then ((Refill s t)\<lparr>Tokens := f64_sub T (of_int a)\<rparr>, a, 0)
     else ((Refill s t)\<lparr>Tokens := max 0 (f64_sub T (of_int \<lfloor>T\<rfloor>))\<rparr>, \<lfloor>T\<rfloor>, wrap64 (a - \<lfloor>T\<rfloor>)))"
proof -
  have ok': "bucket_ok (Refill s t)" using ok t by (rule Refill_ok)
  note ft = floor_tokens [OF ok', folded T_def RemainingInt_def]
  have "f64_of_int a = of_int a" if "0 < a" "a \<le> \<lfloor>T\<rfloor>"
    using that ft(2) bucket_okD(4) [OF ok'] by (intro f64_of_int_exact) simp
  then show ?thesis
    using ft(3,4) by (auto simp: DebitFloor_def Let_def RemainingInt_def i64_sub_def max_def
        simp flip: T_def)
qed

lemma DebitFloor_Capacity [simp]: "Capacity (fst (DebitFloor s t a)) = Capacity s"
  by (simp add: DebitFloor_def Let_def)

lemma DebitFloor_LastMs [simp]: "LastMs (fst (DebitFloor s t a)) = t"
  by (simp add: DebitFloor_def Let_def)

lemma DebitFloor_ok:
  assumes ok: "bucket_ok s" and t: "clock_ok t" and a: "in64 a"
  shows "bucket_ok (fst (DebitFloor s t a))"
proof -
  let ?T = "Tokens (Refill s t)"
  have ok': "bucket_ok (Refill s t)" using ok t by (rule Refill_ok)
  note okD = bucket_okD [OF ok'] and ft = floor_tokens [OF ok']
  have cap: "is_f64 (of_int (Capacity s))" using okD(4,7) by (simp add: is_f64_capacity)
  have less: "- (2 * f64_eps) \<le> f64_sub ?T (of_int a)" "f64_sub ?T (of_int a) \<le> of_int (Capacity s)"
    if "0 < a" "a \<le> \<lfloor>?T\<rfloor>"
  proof -
    have "of_int a \<le> ?T" using that(2) by (simp add: le_floor_iff)
    then have d: "0 \<le> ?T - of_int a" "?T - of_int a \<le> of_int (Capacity s)"
      using okD(3) that(1) by simp_all
    from neg_2eps_le [OF d(1)] show "- (2 * f64_eps) \<le> f64_sub ?T (of_int a)"
      unfolding f64_sub_def by (intro f64.rnd_lower) simp_all
    show "f64_sub ?T (of_int a) \<le> of_int (Capacity s)"
      unfolding f64_sub_def using d(2) cap by (rule f64.rnd_upper)
  qed
  have rest: "f64_sub ?T (of_int \<lfloor>?T\<rfloor>) \<le> of_int (Capacity s)" if "0 < Capacity s"
  proof -
    have "?T - of_int \<lfloor>?T\<rfloor> \<le> 1" using floor_correct [of ?T] by linarith
    also have "1 \<le> (of_int (Capacity s) :: rat)" using that by simp
    finally show ?thesis unfolding f64_sub_def using cap by (intro f64.rnd_upper)
  qed
  have zero: "Tokens (Refill s t) = 0" if "\<not> 0 < Capacity s" using that by (simp add: Refill_def)
  show ?thesis
    using okD less rest zero neg_2eps_le
    by (cases "0 < Capacity s")
       (auto simp: DebitFloor_cases [OF ok t a] bucket_ok_def max_def f64_sub_def rnd64_f64)
qed

text \<open>\<open>DebitFloor\<close> splits the amount into what it took and the overshoot.\<close>

lemma DebitFloor_split:
  assumes ok: "bucket_ok s" and t: "clock_ok t" and a: "in64 a" "0 < a" "a < 2 ^ 62"
  shows "fst (snd (DebitFloor s t a)) + snd (snd (DebitFloor s t a)) = a"
    and "0 \<le> snd (snd (DebitFloor s t a))"
    and "fst (snd (DebitFloor s t a)) = min a \<lfloor>Tokens (Refill s t)\<rfloor>"
proof -
  note ft = floor_tokens [OF Refill_ok [OF ok t]]
  have "in64 (a - \<lfloor>Tokens (Refill s t)\<rfloor>)" if "\<lfloor>Tokens (Refill s t)\<rfloor> < a"
    using a ft(1) that by (simp add: in64_def)
  then show "fst (snd (DebitFloor s t a)) + snd (snd (DebitFloor s t a)) = a"
    and "0 \<le> snd (snd (DebitFloor s t a))"
    and "fst (snd (DebitFloor s t a)) = min a \<lfloor>Tokens (Refill s t)\<rfloor>"
    using a ft(1) by (simp_all add: DebitFloor_cases [OF ok t a(1)])
qed

section \<open>Waiting for the time a denial reports\<close>

text \<open>
  The lower counterparts of the accrual bounds, and the main fact about \<open>retryAfter\<close>: a
  bucket that denies a cost within its capacity allows it once the reported time has
  passed.
\<close>

lemma f64_of_int_lower:
  assumes "0 < d" shows "of_int d * (1 - 1 / 2 ^ 53) \<le> f64_of_int d"
  using assms unfolding f64_of_int_def by (intro rnd64_rel_lower powi_tiny) simp

lemma RefillPerSec_lower:
  assumes "0 < c" "c \<le> 2 ^ 53"
  shows "of_int c / 60 * (1 - 1 / 2 ^ 53) \<le> RefillPerSec c"
proof -
  have "(1::rat) \<le> of_int c" using assms(1) by simp
  then have "1 / 2 ^ 100 \<le> (of_int c / 60 :: rat)" by simp
  then have "of_int c / 60 * (1 - 1 / 2 ^ 53) \<le> rnd64 (of_int c / 60)"
    by (intro rnd64_rel_lower powi_tiny)
  then show ?thesis using assms by (simp add: RefillPerSec_def f64_div_def f64_capacity)
qed

lemma elapsed_secs_lower:
  assumes "0 < d"
  shows "of_int d / 1000 * (1 - 1 / 2 ^ 53) ^ 2 \<le> elapsed_secs d"
proof -
  let ?u = "1 - 1 / 2 ^ 53 :: rat"
  have "1 \<le> f64_of_int d" using assms by (rule f64_of_int_pos)
  then have l: "1 / 2 ^ 100 \<le> f64_of_int d / 1000" by simp
  have "of_int d / 1000 * ?u ^ 2 = (of_int d * ?u) / 1000 * ?u" by (simp add: power2_eq_square)
  also have "\<dots> \<le> f64_of_int d / 1000 * ?u"
    using f64_of_int_lower [OF assms] by (intro mult_right_mono divide_right_mono) auto
  also have "\<dots> \<le> elapsed_secs d"
    unfolding elapsed_secs_def f64_div_def using l by (intro rnd64_rel_lower powi_tiny)
  finally show ?thesis .
qed

lemma accrual_lower:
  assumes "0 \<le> d" "0 < c" "c \<le> 2 ^ 53"
  shows "earned c d * (1 - 1 / 2 ^ 53) ^ 4 \<le> f64_mul (elapsed_secs d) (RefillPerSec c)"
proof (cases "d = 0")
  case True
  then show ?thesis by (simp add: elapsed_secs_def f64_div_def f64_mul_def earned_def)
next
  case False
  then have d: "0 < d" using assms by simp
  let ?u = "1 - 1 / 2 ^ 53 :: rat"
  have lo: "1 / 1024 * (1 / 64) \<le> elapsed_secs d * RefillPerSec c"
    by (intro mult_mono elapsed_secs_pos RefillPerSec_pos) (use d assms elapsed_secs_nonneg [of d] in auto)
  have "earned c d * ?u ^ 4 = ((of_int d / 1000 * ?u ^ 2) * (of_int c / 60 * ?u)) * ?u"
    by (simp add: earned_def power2_eq_square power4_eq_xxxx mult.commute mult.left_commute)
  also have "\<dots> \<le> (elapsed_secs d * RefillPerSec c) * ?u"
    using elapsed_secs_lower [OF d] RefillPerSec_lower [OF assms(2,3)] assms d
      elapsed_secs_nonneg [of d]
    by (intro mult_right_mono mult_mono) auto
  also have "\<dots> \<le> f64_mul (elapsed_secs d) (RefillPerSec c)"
    unfolding f64_mul_def by (intro rnd64_rel_lower powi_tiny) (rule order_trans [OF _ lo], simp)
  finally show ?thesis .
qed

lemma rnd64_slack_lower:
  assumes "\<bar>x\<bar> \<le> of_int c + y" "0 < c" "0 \<le> y"
  shows "x - of_int c / 2 ^ 52 - y / 2 ^ 53 \<le> rnd64 x"
proof -
  have c: "(1::rat) \<le> of_int c" using assms(2) by simp
  have "x - rnd64 x \<le> \<bar>x\<bar> / 2 ^ 53 + 1 / 2 ^ 1075" using rnd64_error [of x] by linarith
  also have "\<dots> \<le> (of_int c + y) / 2 ^ 53 + 1 / 2 ^ 53"
    using assms by (intro add_mono divide_right_mono divide_left_mono power_increasing) auto
  also have "\<dots> \<le> of_int c / 2 ^ 53 + y / 2 ^ 53 + of_int c / 2 ^ 53"
    using c by (simp add: add_divide_distrib divide_right_mono)
  finally show ?thesis by simp
qed

text \<open>A refill brings at least the earned amount, up to the roundings, or fills the bucket.\<close>

lemma Refill_gain_lower:
  assumes ok: "bucket_ok s" and t: "clock_ok t" and c: "0 < Capacity s"
    and last: "0 < LastMs s" "LastMs s \<le> t"
  shows "min (of_int (Capacity s))
    (Tokens s + earned (Capacity s) (t - LastMs s) * (1 - 6 / 2 ^ 53) - of_int (Capacity s) / 2 ^ 52)
    \<le> Tokens (Refill s t)"
proof -
  note okD = bucket_okD [OF ok]
  let ?c = "Capacity s" let ?d = "t - LastMs s" let ?u = "1 - 1 / 2 ^ 53 :: rat"
  let ?a = "f64_mul (elapsed_secs ?d) (RefillPerSec ?c)"
  have a: "0 \<le> ?a" using last by (simp add: accrual_nonneg)
  have e: "0 \<le> earned ?c ?d" using c last by (simp add: earned_nonneg)
  have c1: "(1::rat) \<le> of_int ?c" using c by simp
  have "1 - 6 / 2 ^ 53 \<le> ?u ^ 4 * ?u" by code_simp
  from mult_left_mono [OF this e]
  have "earned ?c ?d * (1 - 6 / 2 ^ 53) \<le> (earned ?c ?d * ?u ^ 4) * ?u" by (simp only: mult.assoc)
  also have "\<dots> \<le> ?a * ?u"
    using accrual_lower [of ?d ?c] c okD(4) last by (intro mult_right_mono) auto
  finally have "earned ?c ?d * (1 - 6 / 2 ^ 53) \<le> ?a - ?a / 2 ^ 53"
    by (simp only: right_diff_distrib mult_1_right times_divide_eq_right)
  moreover have "Tokens s + ?a - of_int ?c / 2 ^ 52 - ?a / 2 ^ 53 \<le> f64_add (Tokens s) ?a"
  proof -
    have "\<bar>Tokens s + ?a\<bar> \<le> of_int ?c + ?a"
      using okD(2,3) a c1 two_eps_le_1 c by (simp only: abs_le_iff) linarith
    then show ?thesis unfolding f64_add_def using c a by (rule rnd64_slack_lower)
  qed
  ultimately have "Tokens s + earned ?c ?d * (1 - 6 / 2 ^ 53) - of_int ?c / 2 ^ 52 \<le> f64_add (Tokens s) ?a"
    by linarith
  then show ?thesis using Refill_warm [of s t] c okD last t by (simp add: clock_ok_def min_le_iff_disj)
qed

text \<open>Refilling later never yields less.\<close>

lemma Refill_time_mono:
  assumes ok: "bucket_ok s" and c: "0 < Capacity s" and last: "0 < LastMs s" "LastMs s \<le> t"
    and t: "t \<le> t'" "in64 t" "in64 t'"
  shows "Tokens (Refill s t) \<le> Tokens (Refill s t')"
proof -
  note okD = bucket_okD [OF ok]
  let ?d = "t - LastMs s" let ?d' = "t' - LastMs s" let ?r = "RefillPerSec (Capacity s)"
  have "f64_of_int ?d \<le> f64_of_int ?d'" using t by (intro f64_of_int_mono) simp
  then have "elapsed_secs ?d \<le> elapsed_secs ?d'"
    by (simp add: elapsed_secs_def f64_div_def f64.rnd_mono)
  moreover have "0 \<le> ?r" using RefillPerSec_pos [OF c] by linarith
  ultimately have "elapsed_secs ?d * ?r \<le> elapsed_secs ?d' * ?r" by (rule mult_right_mono)
  then have "f64_mul (elapsed_secs ?d) ?r \<le> f64_mul (elapsed_secs ?d') ?r"
    by (simp add: f64_mul_def f64.rnd_mono)
  then have "f64_add (Tokens s) (f64_mul (elapsed_secs ?d) ?r) \<le>
      f64_add (Tokens s) (f64_mul (elapsed_secs ?d') ?r)"
    by (simp add: f64_add_def f64.rnd_mono)
  then show ?thesis
    using Refill_warm [of s t] Refill_warm [of s t'] c okD last t by (simp add: min_le_iff_disj)
qed

text \<open>The number of seconds \<open>retryAfter\<close> computes for a deficit \<open>d\<close>, and its bounds.\<close>

definition retry_secs :: "int64 \<Rightarrow> rat \<Rightarrow> int" where
  "retry_secs c d = \<lceil>rnd64 (rnd64 d / RefillPerSec c)\<rceil>"

lemma retry_quotient:
  assumes c: "0 < c" "c \<le> 2 ^ 53" and d: "1 / 2 ^ 31 \<le> d"
  shows "d * (1 - 1 / 2 ^ 53) \<le> rnd64 d" and "rnd64 d \<le> d * (1 + 1 / 2 ^ 53)" and "0 < rnd64 d"
    and "rnd64 d / RefillPerSec c * (1 - 1 / 2 ^ 53) \<le> rnd64 (rnd64 d / RefillPerSec c)"
    and "rnd64 (rnd64 d / RefillPerSec c) \<le> rnd64 d / RefillPerSec c * (1 + 1 / 2 ^ 53)"
proof -
  let ?R = "RefillPerSec c"
  have d': "2 powi -1022 \<le> d" by (rule powi_tiny [OF order_trans [OF _ d]]) simp
  from rnd64_rel_lower [OF d'] show "d * (1 - 1 / 2 ^ 53) \<le> rnd64 d" .
  from rnd64_rel_upper [OF d'] show "rnd64 d \<le> d * (1 + 1 / 2 ^ 53)" .
  have r31: "is_f64 (1 / 2 ^ 31)" by (rule is_f64_inv_pow2) simp
  have de: "1 / 2 ^ 31 \<le> rnd64 d" using d r31 by (rule f64.rnd_lower)
  show "0 < rnd64 d" by (rule less_le_trans [OF _ de]) simp
  have R0: "0 < ?R" by (rule less_le_trans [OF _ RefillPerSec_pos [OF c(1)]]) simp
  have c1: "(1::rat) \<le> of_int c" "of_int c \<le> (2 ^ 53 :: rat)"
    using c by simp (metis c(2) of_int_le_iff of_int_numeral of_int_power)
  have "?R \<le> 2 ^ 53" using RefillPerSec_upper [OF c] c1 by simp
  then have q: "1 / 2 ^ 31 / 2 ^ 53 \<le> rnd64 d / ?R" using de R0 by (intro frac_le) auto
  have q': "2 powi -1022 \<le> rnd64 d / ?R" by (rule powi_tiny [OF order_trans [OF _ q]]) simp
  from rnd64_rel_lower [OF q'] show "rnd64 d / ?R * (1 - 1 / 2 ^ 53) \<le> rnd64 (rnd64 d / ?R)" .
  from rnd64_rel_upper [OF q'] show "rnd64 (rnd64 d / ?R) \<le> rnd64 d / ?R * (1 + 1 / 2 ^ 53)" .
qed

lemma retry_secs_bounds:
  assumes c: "0 < c" "c \<le> 2 ^ 53" and d: "1 / 2 ^ 31 \<le> d" "d \<le> of_int c + 1"
  shows "0 < retry_secs c d" and "retry_secs c d < 200"
proof -
  let ?R = "RefillPerSec c" and ?u = "1 + 1 / 2 ^ 53 :: rat" and ?l = "1 - 1 / 2 ^ 53 :: rat"
  let ?q = "rnd64 (rnd64 d / ?R)"
  note q = retry_quotient [OF c d(1)]
  have R0: "0 < ?R" by (rule less_le_trans [OF _ RefillPerSec_pos [OF c(1)]]) simp
  have c1: "(1::rat) \<le> of_int c" using c by simp
  have "0 < rnd64 d / ?R * ?l" using q(3) R0 by simp
  then show "0 < retry_secs c d" using q(4) by (simp add: retry_secs_def)
  have "rnd64 d \<le> (2 * of_int c) * ?u"
    using q(2) mult_right_mono [of d "2 * of_int c" ?u] d(2) c1 by simp
  also have "\<dots> \<le> 121 * (of_int c / 60 * ?l)" using c1 by simp
  also have "\<dots> \<le> 121 * ?R" using RefillPerSec_lower [OF c] by simp
  finally have "rnd64 d / ?R \<le> 121" using R0 by (simp add: pos_divide_le_eq)
  then have "rnd64 d / ?R * ?u \<le> 121 * ?u" by (rule mult_right_mono) simp
  then have "?q \<le> 199" using q(5) by simp
  then have "?q \<le> of_int 199" by simp
  then have "retry_secs c d \<le> 199" unfolding retry_secs_def by (simp only: ceiling_le_iff)
  then show "retry_secs c d < 200" by simp
qed

lemma retry_secs_enough:
  assumes c: "0 < c" "c \<le> 2 ^ 53" and d: "1 / 2 ^ 31 \<le> d"
  shows "d * (1 - 4 / 2 ^ 53) \<le> of_int c * of_int (retry_secs c d) / 60"
proof -
  let ?R = "RefillPerSec c" and ?u = "1 + 1 / 2 ^ 53 :: rat" and ?l = "1 - 1 / 2 ^ 53 :: rat"
  define k where "k = (of_int (retry_secs c d) :: rat)"
  note q = retry_quotient [OF c d]
  have R0: "0 < ?R" by (rule less_le_trans [OF _ RefillPerSec_pos [OF c(1)]]) simp
  have d0: "0 \<le> d" by (rule order_trans [OF _ d]) simp
  have k: "rnd64 (rnd64 d / ?R) \<le> k" unfolding k_def retry_secs_def by (rule le_of_int_ceiling)
  have "0 \<le> rnd64 d / ?R * ?l" using q(3) R0 by simp
  then have k0: "0 \<le> k" using q(4) k by linarith
  have "(1 - 4 / 2 ^ 53) * ?u \<le> ?l * ?l" by code_simp
  from mult_right_mono [OF this d0]
  have "(1 - 4 / 2 ^ 53) * ?u * d \<le> (d * ?l) * ?l" by (simp only: mult.commute mult.left_commute)
  also have "\<dots> \<le> rnd64 d * ?l" using q(1) by (rule mult_right_mono) simp
  also have "\<dots> = (rnd64 d / ?R * ?l) * ?R" using R0 by simp
  also have "\<dots> \<le> k * ?R" using q(4) k R0 by (intro mult_right_mono) linarith+
  also have "\<dots> \<le> k * (of_int c / 60 * ?u)"
    using RefillPerSec_upper [OF c] k0 by (rule mult_left_mono)
  finally have "(d * (1 - 4 / 2 ^ 53)) * ?u \<le> (of_int c * k / 60) * ?u"
    by (simp add: mult.commute mult.left_commute)
  then show ?thesis unfolding k_def by (rule mult_right_le_imp_le) simp
qed

lemma retryAfter_secs:
  assumes c: "0 < Capacity r" "Capacity r \<le> 2 ^ 53"
    and d: "1 / 2 ^ 31 \<le> need - Tokens r" "need - Tokens r \<le> of_int (Capacity r) + 1"
  shows "retryAfter r need = retry_secs (Capacity r) (need - Tokens r) * Second"
proof -
  let ?k = "retry_secs (Capacity r) (need - Tokens r)"
  have R0: "0 < RefillPerSec (Capacity r)" by (rule less_le_trans [OF _ RefillPerSec_pos [OF c(1)]]) simp
  have "retryAfter r need = i64_mul (i64_of_f64 (of_int ?k)) Second"
    using R0 retry_quotient(3) [OF c d(1)]
    by (simp add: retryAfter_def Let_def f64_sub_def f64_div_def f64_ceil_def retry_secs_def)
  also have "\<dots> = ?k * Second"
    using retry_secs_bounds [OF c d]
    by (simp add: i64_of_f64_def f64_trunc_def in64_def i64_exact Second_def)
  finally show ?thesis .
qed

lemma earned_add: "earned c (a + b) = earned c a + earned c b"
  by (simp add: earned_def distrib_left add_divide_distrib)

lemma earned_secs: "earned c (k * 1000) = of_int c * of_int k / 60"
  by (simp add: earned_def)

text \<open>What a bucket that denies has earned since its last update is less than its capacity.\<close>

lemma denied_earned:
  assumes ok: "bucket_ok s" and t: "clock_ok t" and c: "0 < Capacity s"
    and last: "0 < LastMs s" "LastMs s \<le> t"
    and T: "Tokens (Refill s t) < of_int (Capacity s)" and small: "Capacity s \<le> 2 ^ 50"
  shows "earned (Capacity s) (t - LastMs s) \<le> of_int (Capacity s) + 2"
proof -
  note okD = bucket_okD [OF ok]
  let ?c = "of_int (Capacity s) :: rat" and ?E = "earned (Capacity s) (t - LastMs s)"
  let ?a = "f64_mul (elapsed_secs (t - LastMs s)) (RefillPerSec (Capacity s))"
  have c50: "?c \<le> 2 ^ 50" using small by (metis of_int_le_iff of_int_numeral of_int_power)
  have "Tokens s + ?a < ?c"
  proof (rule ccontr)
    assume "\<not> Tokens s + ?a < ?c"
    then have "?c \<le> f64_add (Tokens s) ?a"
      unfolding f64_add_def using okD(4,7) by (intro f64.rnd_lower is_f64_capacity) auto
    then show False using T Refill_warm [of s t] c okD last t by (simp add: clock_ok_def)
  qed
  then have "?a \<le> ?c + 1" using okD(2) two_eps_le_1 by linarith
  moreover have "?E * (1 - 1 / 2 ^ 53) ^ 4 \<le> ?a" using c okD(4) last by (intro accrual_lower) auto
  ultimately have "?E * (1 - 1 / 2 ^ 53) ^ 4 \<le> ?c + 1" by linarith
  also have "\<dots> \<le> (?c + 2) * (1 - 1 / 2 ^ 53) ^ 4"
  proof -
    have "(?c + 2) * (1 - (1 - 1 / 2 ^ 53) ^ 4) \<le> (2 ^ 50 + 2) * (1 - (1 - 1 / 2 ^ 53) ^ 4)"
      using c50 by (intro mult_right_mono) (simp, code_simp)
    also have "\<dots> \<le> 1" by code_simp
    finally show ?thesis by (simp only: right_diff_distrib mult_1_right)
  qed
  finally show ?thesis by (rule mult_right_le_imp_le) simp
qed

text \<open>The roundings of two refills and of the waiting time stay below the tolerance of the
  comparison, for capacities up to a quarter of a million.\<close>

lemma wait_slack:
  fixes c E1 D :: rat
  assumes "c \<le> 250000" "E1 \<le> c + 2" "D \<le> c + 1"
  shows "12 / 2 ^ 53 * E1 + 4 / 2 ^ 53 * c + 10 / 2 ^ 53 * D \<le> f64_eps"
proof -
  have "12 / 2 ^ 53 * E1 + 4 / 2 ^ 53 * c + 10 / 2 ^ 53 * D
      \<le> 12 / 2 ^ 53 * 250002 + 4 / 2 ^ 53 * 250000 + 10 / 2 ^ 53 * 250001"
    using assms by (intro add_mono mult_left_mono) auto
  also have "\<dots> \<le> f64_eps" by code_simp
  finally show ?thesis .
qed

lemma wait_arith:
  fixes E1 G c D T X N e :: rat
  assumes "12 / 2 ^ 53 * E1 + 4 / 2 ^ 53 * c + 10 / 2 ^ 53 * D \<le> e"
    and "D - 10 / 2 ^ 53 * D \<le> G * (1 - 6 / 2 ^ 53)"
    and "T \<le> X + E1 * (1 + 6 / 2 ^ 53) + c / 2 ^ 52" and "N = T + D"
  shows "N \<le> X + (E1 + G) * (1 - 6 / 2 ^ 53) - c / 2 ^ 52 + e"
proof -
  define u :: rat where "u = 1 / 2 ^ 53"
  have u: "k / 2 ^ 53 = k * u" "c / 2 ^ 52 = 2 * (u * c)" for k by (simp_all add: u_def)
  have eq: "(E1 + G) * (1 - 6 * u) = E1 + G - 6 * (u * E1) - 6 * (u * G)"
    "G * (1 - 6 * u) = G - 6 * (u * G)" "E1 * (1 + 6 * u) = E1 + 6 * (u * E1)"
    by (simp_all add: algebra_simps)
  show ?thesis
    using assms(1-3) [unfolded u eq mult.assoc] assms(4) unfolding u eq by linarith
qed

lemma Refill_after_wait:
  assumes ok: "bucket_ok s" and t: "clock_ok t" and c: "0 < Capacity s" "Capacity s \<le> 250000"
    and last: "0 < LastMs s" "LastMs s \<le> t"
    and n: "n \<le> Capacity s" and D: "1 / 2 ^ 31 \<le> of_int n - Tokens (Refill s t)"
    and k: "k = retry_secs (Capacity s) (of_int n - Tokens (Refill s t))"
    and t': "clock_ok (t + k * 1000)" "0 \<le> k"
  shows "of_int n \<le> Tokens (Refill s (t + k * 1000)) + f64_eps"
proof -
  note okD = bucket_okD [OF ok] and rokD = bucket_okD [OF Refill_ok [OF ok t]]
  let ?c = "of_int (Capacity s) :: rat" and ?d = "t - LastMs s"
  define E1 where "E1 = earned (Capacity s) ?d"
  define G where "G = ?c * of_int k / 60"
  define T where "T = Tokens (Refill s t)"
  define D where "D = of_int n - T"
  have cR: "?c \<le> 250000" "1 \<le> ?c" using c by simp_all
  have nR: "of_int n \<le> ?c" using n by simp
  have D0: "0 < D" using less_le_trans [OF _ assms(8), of 0] by (simp add: D_def T_def)
  have Tc: "T < ?c" using D0 nR unfolding D_def by linarith
  have D1: "D \<le> ?c + 1" using rokD(2) two_eps_le_1 nR unfolding D_def T_def by linarith
  have E1: "0 \<le> E1" "E1 \<le> ?c + 2"
    using earned_nonneg [of "Capacity s" ?d] denied_earned [OF ok t c(1) last] Tc c last
    by (simp_all add: E1_def T_def)
  have G: "D * (1 - 4 / 2 ^ 53) \<le> G"
    using retry_secs_enough [OF c(1) okD(4) assms(8)] by (simp add: G_def D_def T_def k)
  have up: "T \<le> Tokens s + E1 * (1 + 6 / 2 ^ 53) + ?c / 2 ^ 52"
    using Refill_gain [OF ok t c(1) last] by (simp add: E1_def T_def)
  have "t + k * 1000 - LastMs s = ?d + k * 1000" by simp
  then have e: "earned (Capacity s) (t + k * 1000 - LastMs s) = E1 + G"
    by (simp only: earned_add earned_secs E1_def G_def)
  have lo: "min ?c (Tokens s + (E1 + G) * (1 - 6 / 2 ^ 53) - ?c / 2 ^ 52) \<le> Tokens (Refill s (t + k * 1000))"
    using Refill_gain_lower [OF ok t'(1) c(1) last(1)] last(2) t'(2) by (simp only: e)
  have GD: "D - 10 / 2 ^ 53 * D \<le> G * (1 - 6 / 2 ^ 53)"
  proof -
    have "(1 - 10 / 2 ^ 53 :: rat) \<le> (1 - 4 / 2 ^ 53) * (1 - 6 / 2 ^ 53)" by code_simp
    from mult_left_mono [OF this less_imp_le [OF D0]]
    have "D - 10 / 2 ^ 53 * D \<le> D * (1 - 4 / 2 ^ 53) * (1 - 6 / 2 ^ 53)" by (simp add: algebra_simps)
    also have "\<dots> \<le> G * (1 - 6 / 2 ^ 53)" using G by (rule mult_right_mono) simp
    finally show ?thesis .
  qed
  have "of_int n \<le> Tokens s + (E1 + G) * (1 - 6 / 2 ^ 53) - ?c / 2 ^ 52 + f64_eps"
    using wait_slack [OF cR(1) E1(2) D1] GD up by (rule wait_arith) (simp add: D_def)
  then show ?thesis using lo nR f64_eps_pos by linarith
qed

lemma TryConsume_denied_deficit:
  assumes ok: "bucket_ok s" and t: "clock_ok t" and n: "n \<le> Capacity s"
    and denied: "\<not> ResAllowed (snd (TryConsume s t n))"
  shows "0 < Capacity s" and "f64_eps < of_int (max 0 n) - Tokens (Refill s t)"
proof -
  have n': "max 0 n \<le> Capacity s" using n bucket_okD(7) [OF ok] by simp
  have "\<not> of_int (max 0 n) \<le> Tokens (Refill s t) + f64_eps"
    using TryConsume_complete [OF ok t n'] denied by blast
  then show d: "f64_eps < of_int (max 0 n) - Tokens (Refill s t)" by linarith
  show "0 < Capacity s"
  proof (rule ccontr)
    assume "\<not> 0 < Capacity s"
    then have "max 0 n = 0" "Tokens (Refill s t) = 0" using n' by (simp_all add: Refill_def)
    then show False using d f64_eps_nonneg by (simp only: of_int_0)
  qed
qed

text \<open>The waiting time of a denial whose cost fits the capacity is a whole, positive number of
  seconds, and a retry after it succeeds.\<close>

lemma denied_wait:
  assumes ok: "bucket_ok s" and last: "0 < LastMs s" "LastMs s \<le> t"
    and t: "clock_ok t" and cap: "Capacity s \<le> 250000" and n: "n \<le> Capacity s"
    and denied: "\<not> ResAllowed (snd (TryConsume s t n))"
  obtains k where "ResRetryAfter (snd (TryConsume s t n)) = k * Second" and "0 < k" and "k < 200"
    and "\<And>t'. clock_ok t' \<Longrightarrow> t + k * 1000 \<le> t' \<Longrightarrow> ResAllowed (snd (TryConsume s t' n))"
proof -
  let ?N = "max 0 n" and ?c = "Capacity s"
  note c0 = TryConsume_denied_deficit(1) [OF ok t n denied]
    and def = TryConsume_denied_deficit(2) [OF ok t n denied]
  note okD = bucket_okD [OF ok] and rokD = bucket_okD [OF Refill_ok [OF ok t]]
  have N: "?N \<le> ?c" "f64_of_int ?N = of_int ?N" "of_int ?N \<le> (of_int ?c :: rat)"
    using n c0 okD(4) by (simp_all add: f64_capacity)
  have "1 / 2 ^ 31 \<le> f64_eps" by code_simp
  then have D: "1 / 2 ^ 31 \<le> of_int ?N - Tokens (Refill s t)" using def by linarith
  have D1: "of_int ?N - Tokens (Refill s t) \<le> of_int (Capacity (Refill s t)) + 1"
    using rokD(2) two_eps_le_1 N(3) unfolding Refill_Capacity by linarith
  define k where "k = retry_secs ?c (of_int ?N - Tokens (Refill s t))"
  have k: "0 < k" "k < 200" unfolding k_def
    using retry_secs_bounds [OF c0 okD(4) D] D1 by (simp_all only: Refill_Capacity)
  have secs: "ResRetryAfter (snd (TryConsume s t n)) = k * Second"
    using retryAfter_secs [of "Refill s t" "of_int ?N"] c0 okD(4) D D1 N(2)
    by (simp only: TryConsume_retry_denied [OF denied] Refill_Capacity k_def)
  have again: "ResAllowed (snd (TryConsume s t' n))" if t': "clock_ok t'" and tk: "t + k * 1000 \<le> t'" for t'
  proof -
    have ck: "clock_ok (t + k * 1000)" using t t' tk k by (simp add: clock_ok_def in64_def)
    have "of_int ?N \<le> Tokens (Refill s (t + k * 1000)) + f64_eps"
      using Refill_after_wait [OF ok t c0 cap last N(1) D k_def ck] k by simp
    also have "\<dots> \<le> Tokens (Refill s t') + f64_eps"
      using Refill_time_mono [OF ok c0 last(1) _ tk] last k ck t' by (simp add: clock_ok_def)
    finally show ?thesis by (rule TryConsume_complete [OF ok t' N(1)])
  qed
  show thesis by (rule that [OF secs k again])
qed

text \<open>
  C5 (waiting as told is enough). A bucket of at most 250000 tokens per minute denies a
  cost that fits its capacity. If nothing else touches the bucket, the same request made
  at any time at or after the reported \<open>RetryAfter\<close> has passed is allowed: the roundings
  of the two refills, of the deficit and of the quotient together stay below the
  tolerance \<^verbatim>\<open>1e-9\<close> of the comparison.
\<close>

theorem retry_after_sufficient:
  assumes ok: "bucket_ok s" and last: "0 < LastMs s" "LastMs s \<le> t"
    and t: "clock_ok t" "clock_ok t'" and cap: "Capacity s \<le> 250000" and n: "n \<le> Capacity s"
    and denied: "\<not> ResAllowed (snd (TryConsume s t n))"
    and wait: "time_add (time_of_ms t) (ResRetryAfter (snd (TryConsume s t n))) \<le> time_of_ms t'"
  shows "ResAllowed (snd (TryConsume s t' n))"
proof -
  obtain k where k: "ResRetryAfter (snd (TryConsume s t n)) = k * Second"
    and again: "\<And>t'. clock_ok t' \<Longrightarrow> t + k * 1000 \<le> t' \<Longrightarrow> ResAllowed (snd (TryConsume s t' n))"
    using denied_wait [OF ok last t(1) cap n denied] by metis
  have "t + k * 1000 \<le> t'" using wait by (simp add: k time_add_def time_of_ms_def Second_def)
  then show ?thesis by (rule again [OF t(2)])
qed

lemmas bucket_eval = f64_simps RefillPerSec_def Refill_def retryAfter_def TryConsume_def Credit_def
  DebitFloor_def RemainingInt_def f64_div_def f64_mul_def f64_sub_def f64_floor_def f64_ceil_def
  f64_trunc_def i64_of_f64_def in64_def i64_sub_def i64_mul_def wrap64_def Let_def

theorem retry_after_sufficient_witness:
  "ResAllowed (snd (TryConsume \<lparr>Tokens = 1, LastMs = 1000, Capacity = 60\<rparr> 4500 3))"
proof (rule retry_after_sufficient [where t = 1000])
  show "bucket_ok \<lparr>Tokens = 1, LastMs = 1000, Capacity = 60\<rparr>"
    using f64_eps_pos by (simp add: bucket_ok_def in64_def)
  show "\<not> ResAllowed (snd (TryConsume \<lparr>Tokens = 1, LastMs = 1000, Capacity = 60\<rparr> 1000 3))"
    by (simp add: bucket_eval f64_add_def [of 1 0])
  show "time_add (time_of_ms 1000)
      (ResRetryAfter (snd (TryConsume \<lparr>Tokens = 1, LastMs = 1000, Capacity = 60\<rparr> 1000 3)))
      \<le> time_of_ms 4500"
    by (simp add: bucket_eval f64_add_def [of 1 0] time_add_def time_of_ms_def Second_def)
qed (simp_all add: clock_ok_def in64_def)

section \<open>Edges\<close>

definition near_one :: State where
  "near_one = \<lparr>Tokens = 1 - 1 / 2 ^ 53, LastMs = 1000, Capacity = 1\<rparr>"

lemma near_one_ok: "bucket_ok near_one"
proof -
  have "rnd64 (1 - 1 / 2 ^ 53) = 1 - 1 / 2 ^ 53" by code_simp
  then have "is_f64 (1 - 1 / 2 ^ 53)" by (metis rnd64_f64)
  then show ?thesis using neg_2eps_le [of "1 - 1 / 2 ^ 53"] by (simp add: bucket_ok_def near_one_def in64_def)
qed

text \<open>
  The tolerance lets a bucket go below zero. A well-formed bucket that is one rounding
  short of a token still grants a request for one token, and then reports \<open>-1\<close> remaining. A
  debit of five tokens from the bucket in that state is reported as \<open>-1\<close> taken and an
  overshoot of six.
\<close>

theorem tolerance_overdraws:
  "bucket_ok near_one \<and> ResAllowed (snd (TryConsume near_one 1000 1)) \<and>
   ResRemaining (snd (TryConsume near_one 1000 1)) = -1 \<and>
   fst (snd (DebitFloor (fst (TryConsume near_one 1000 1)) 1000 5)) = -1 \<and>
   snd (snd (DebitFloor (fst (TryConsume near_one 1000 1)) 1000 5)) = 6"
proof -
  have t: "clock_ok 1000" by (simp add: clock_ok_def in64_def)
  have r: "Refill near_one 1000 = near_one" by (rule Refill_same [OF near_one_ok t]) (simp_all add: near_one_def)
  have "1 / 2 ^ 31 \<le> f64_eps" by code_simp
  then have a: "ResAllowed (snd (TryConsume near_one 1000 1))"
    by (intro TryConsume_complete [OF near_one_ok t]) (simp_all add: r, simp_all add: near_one_def)
  let ?s = "fst (TryConsume near_one 1000 1)"
  have "rnd64 (- (1 / 2 ^ 53)) = - (1 / 2 ^ 53)"
    using is_f64_neg [OF is_f64_inv_pow2 [of 53]] by (intro f64.rnd_id) simp
  then have s: "?s = \<lparr>Tokens = - (1 / 2 ^ 53), LastMs = 1000, Capacity = 1\<rparr>"
    using TryConsume_allowed_state [OF a] f64_of_int_exact [of 1]
    by (simp add: r) (simp add: near_one_def f64_sub_def)
  have ok: "bucket_ok ?s" by (rule TryConsume_ok [OF near_one_ok t])
  have r2: "Refill ?s 1000 = ?s" by (rule Refill_same [OF ok t]) (simp_all add: s)
  have f: "\<lfloor>Tokens ?s\<rfloor> = -1" unfolding s by (simp add: floor_eq_iff)
  have "ResRemaining (snd (TryConsume near_one 1000 1)) = -1"
    unfolding TryConsume_remaining using floor_tokens(3) [OF ok] f by simp
  moreover have "DebitFloor ?s 1000 5 = (fst (DebitFloor ?s 1000 5), -1, 6)"
    using DebitFloor_cases [OF ok t, of 5] f by (simp add: r2 in64_def)
  ultimately show ?thesis using near_one_ok a by (metis fst_conv snd_conv)
qed

text \<open>
  The waiting time can wrap. For a cost far above the capacity the number of seconds to
  wait does not fit a duration, and the reported waiting time is negative.
\<close>

theorem retry_after_overflow:
  "ResRetryAfter (snd (TryConsume \<lparr>Tokens = 60, LastMs = 1000, Capacity = 60\<rparr> 1000 10000000060))
     = - 8446744073709551616"
  by (simp add: bucket_eval Second_def)

text \<open>
  The bound on the capacity is needed. In this bucket of 50 million tokens per minute, a request that waits exactly the
  33 seconds it was told is denied again: at this size a double next to the cost is \<open>3.7e-9\<close> away from it, more
  than the tolerance of the comparison.
\<close>

lemma wait_too_short:
  defines "s \<equiv> \<lparr>Tokens = 1073741819 / 1073741824, LastMs = 1000, Capacity = 50000000\<rparr>"
  shows "bucket_ok s" "\<not> ResAllowed (snd (TryConsume s 1000 27500001))"
    "ResRetryAfter (snd (TryConsume s 1000 27500001)) = 33 * Second"
    "\<not> ResAllowed (snd (TryConsume s 34000 27500001))"
proof -
  show "\<not> ResAllowed (snd (TryConsume s 1000 27500001))" unfolding s_def by code_simp
  show "ResRetryAfter (snd (TryConsume s 1000 27500001)) = 33 * Second" unfolding s_def by code_simp
  show "\<not> ResAllowed (snd (TryConsume s 34000 27500001))" unfolding s_def by code_simp
  have "is_f64 (1073741819 / 1073741824)" using is_f64_mult_powi [of 1073741819 "-30"] by (simp add: power_int_minus)
  then show "bucket_ok s" using f64_eps_pos unfolding s_def by (simp add: bucket_ok_def in64_def)
qed

end
