(* ===== verification/Memory_Store.thy ===== *)
theory Memory_Store
  imports Store_Types Bucket
begin

text \<open>
  Package \<^verbatim>\<open>memory\<close> (\<^verbatim>\<open>pkg/store/memory/memory.go\<close>): the in-process store. The state is the
  struct's five maps; the mutex makes every exported method one atomic step, so a method
  is a function from the state and the instant it reads the clock to its result and the
  new state.
\<close>

record bucketState =
  bsTokens :: float64
  bsLastMs :: int64

record reservation =
  rSubject :: string
  rModel :: string
  rSplit :: bool
  rRpmCost :: int64
  rTpmReserved :: int64
  rItpmReserved :: int64
  rOtpmReserved :: int64
  rLimitRPM :: int64
  rLimitTPM :: int64
  rLimitITPM :: int64
  rLimitOTPM :: int64
  rStatus :: status
  rCreatedMs :: int64
  rExpiresAt :: time
  rLastDecision :: Decision

type_synonym buckets = "string \<rightharpoonup> bucketState"

record Store =
  sRpm :: buckets
  sTpm :: buckets
  sItpm :: buckets
  sOtpm :: buckets
  sRes :: "string \<rightharpoonup> reservation"

definition mem_New :: Store where
  "mem_New = \<lparr>sRpm = Map.empty, sTpm = Map.empty, sItpm = Map.empty, sOtpm = Map.empty,
     sRes = Map.empty\<rparr>"

definition bucketKey :: "Key \<Rightarrow> string" where
  "bucketKey key =
     (let model = (if Model key = '''' then ''-'' else Model key)
      in Subject key @ [NUL] @ model)"

definition purgeExpired :: "Store \<Rightarrow> time \<Rightarrow> Store" where
  "purgeExpired s now = s\<lparr>sRes := map_drop (\<lambda>r. time_after now (rExpiresAt r)) (sRes s)\<rparr>"

definition loadBucket :: "buckets \<Rightarrow> string \<Rightarrow> int64 \<Rightarrow> int64 \<Rightarrow> State" where
  "loadBucket m k capacity nowMs =
     (let st = (case m k of
                  None \<Rightarrow> \<lparr>Tokens = 0, LastMs = 0, Capacity = capacity\<rparr>
                | Some b \<Rightarrow>
                    if bsLastMs b = 0 then \<lparr>Tokens = 0, LastMs = 0, Capacity = capacity\<rparr>
                    else \<lparr>Tokens = bsTokens b, LastMs = bsLastMs b, Capacity = capacity\<rparr>)
      in Refill st nowMs)"

definition saveBucket :: "buckets \<Rightarrow> string \<Rightarrow> State \<Rightarrow> buckets" where
  "saveBucket m k st = m(k \<mapsto> \<lparr>bsTokens = Tokens st, bsLastMs = LastMs st\<rparr>)"

definition clampCost :: "int64 \<Rightarrow> int64" where
  "clampCost n = (if n < 0 then 0 else n)"

section \<open>Check\<close>

definition checkClassicLocked ::
  "Store \<Rightarrow> Key \<Rightarrow> Limits \<Rightarrow> Cost \<Rightarrow> string \<Rightarrow> time \<Rightarrow> int64 \<Rightarrow> (error, Decision) result \<times> Store" where
  "checkClassicLocked s key limits cost reservationID now nowMs =
     (let bk = bucketKey key;
          rpm = loadBucket (sRpm s) bk (RequestsPerMinute limits) nowMs;
          tpm = loadBucket (sTpm s) bk (TokensPerMinute limits) nowMs;
          dec = zero_Decision\<lparr>LimitRPM := RequestsPerMinute limits,
                              LimitTPM := TokensPerMinute limits\<rparr>;
          (rpm2, rpmRes) = TryConsume rpm nowMs (Requests cost)
      in if \<not> ResAllowed rpmRes then
           (Inr (dec\<lparr>Allowed := False, LimitType := LimitTypeRequests,
                     RemainingRPM := ResRemaining rpmRes,
                     RemainingTPM := RemainingInt (Tokens tpm),
                     ResetRPM := ResResetAt rpmRes, ResetTPM := ResetAt tpm nowMs,
                     RetryAfter := ResRetryAfter rpmRes\<rparr>), s)
         else
           (let (tpm2, tpmRes) = TryConsume tpm nowMs (CTokens cost)
            in if \<not> ResAllowed tpmRes then
                 (Inr (dec\<lparr>Allowed := False, LimitType := LimitTypeTokens,
                           RemainingRPM := RemainingInt (Tokens rpm),
                           RemainingTPM := ResRemaining tpmRes,
                           ResetRPM := ResetAt rpm nowMs, ResetTPM := ResResetAt tpmRes,
                           RetryAfter := ResRetryAfter tpmRes\<rparr>), s)
               else
                 (let res = \<lparr>rSubject = Subject key, rModel = Model key, rSplit = False,
                             rRpmCost = Requests cost, rTpmReserved = CTokens cost,
                             rItpmReserved = 0, rOtpmReserved = 0,
                             rLimitRPM = RequestsPerMinute limits, rLimitTPM = TokensPerMinute limits,
                             rLimitITPM = 0, rLimitOTPM = 0,
                             rStatus = Pending, rCreatedMs = nowMs,
                             rExpiresAt = time_add now ReservationTTL,
                             rLastDecision = zero_Decision\<rparr>
                  in (Inr (dec\<lparr>Allowed := True,
                               RemainingRPM := ResRemaining rpmRes, RemainingTPM := ResRemaining tpmRes,
                               ResetRPM := ResResetAt rpmRes, ResetTPM := ResResetAt tpmRes,
                               ReservationID := reservationID\<rparr>),
                      s\<lparr>sRpm := saveBucket (sRpm s) bk rpm2,
                        sTpm := saveBucket (sTpm s) bk tpm2,
                        sRes := (sRes s)(reservationID \<mapsto> res)\<rparr>))))"

definition checkSplitLocked ::
  "Store \<Rightarrow> Key \<Rightarrow> Limits \<Rightarrow> Cost \<Rightarrow> string \<Rightarrow> time \<Rightarrow> int64 \<Rightarrow> (error, Decision) result \<times> Store" where
  "checkSplitLocked s key limits cost reservationID now nowMs =
     (let bk = bucketKey key;
          rpm = loadBucket (sRpm s) bk (RequestsPerMinute limits) nowMs;
          itpm = loadBucket (sItpm s) bk (InputTokensPerMinute limits) nowMs;
          otpm = loadBucket (sOtpm s) bk (OutputTokensPerMinute limits) nowMs;
          dec = zero_Decision\<lparr>LimitRPM := RequestsPerMinute limits,
                              LimitITPM := InputTokensPerMinute limits,
                              LimitOTPM := OutputTokensPerMinute limits,
                              LimitTPM := OutputTokensPerMinute limits\<rparr>;
          (rpm2, rpmRes) = TryConsume rpm nowMs (Requests cost)
      in if \<not> ResAllowed rpmRes then
           (Inr (dec\<lparr>Allowed := False, LimitType := LimitTypeRequests,
                     RemainingRPM := ResRemaining rpmRes,
                     RemainingITPM := RemainingInt (Tokens itpm),
                     RemainingOTPM := RemainingInt (Tokens otpm),
                     RemainingTPM := RemainingInt (Tokens otpm),
                     ResetRPM := ResResetAt rpmRes, ResetITPM := ResetAt itpm nowMs,
                     ResetOTPM := ResetAt otpm nowMs, ResetTPM := ResetAt otpm nowMs,
                     RetryAfter := ResRetryAfter rpmRes\<rparr>), s)
         else
           (let (itpm2, itpmRes) = TryConsume itpm nowMs (InputTokens cost)
            in if \<not> ResAllowed itpmRes then
                 (Inr (dec\<lparr>Allowed := False, LimitType := LimitTypeInputTokens,
                           RemainingRPM := RemainingInt (Tokens rpm),
                           RemainingITPM := ResRemaining itpmRes,
                           RemainingOTPM := RemainingInt (Tokens otpm),
                           RemainingTPM := RemainingInt (Tokens otpm),
                           ResetRPM := ResetAt rpm nowMs, ResetITPM := ResResetAt itpmRes,
                           ResetOTPM := ResetAt otpm nowMs, ResetTPM := ResetAt otpm nowMs,
                           RetryAfter := ResRetryAfter itpmRes\<rparr>), s)
               else
                 (let (otpm2, otpmRes) = TryConsume otpm nowMs (OutputTokens cost)
                  in if \<not> ResAllowed otpmRes then
                       (Inr (dec\<lparr>Allowed := False, LimitType := LimitTypeOutputTokens,
                                 RemainingRPM := RemainingInt (Tokens rpm),
                                 RemainingITPM := RemainingInt (Tokens itpm),
                                 RemainingOTPM := ResRemaining otpmRes,
                                 RemainingTPM := ResRemaining otpmRes,
                                 ResetRPM := ResetAt rpm nowMs, ResetITPM := ResetAt itpm nowMs,
                                 ResetOTPM := ResResetAt otpmRes, ResetTPM := ResResetAt otpmRes,
                                 RetryAfter := ResRetryAfter otpmRes\<rparr>), s)
                     else
                       (let res = \<lparr>rSubject = Subject key, rModel = Model key, rSplit = True,
                                   rRpmCost = Requests cost, rTpmReserved = 0,
                                   rItpmReserved = InputTokens cost,
                                   rOtpmReserved = OutputTokens cost,
                                   rLimitRPM = RequestsPerMinute limits, rLimitTPM = 0,
                                   rLimitITPM = InputTokensPerMinute limits,
                                   rLimitOTPM = OutputTokensPerMinute limits,
                                   rStatus = Pending, rCreatedMs = nowMs,
                                   rExpiresAt = time_add now ReservationTTL,
                                   rLastDecision = zero_Decision\<rparr>
                        in (Inr (dec\<lparr>Allowed := True,
                                     RemainingRPM := ResRemaining rpmRes,
                                     RemainingITPM := ResRemaining itpmRes,
                                     RemainingOTPM := ResRemaining otpmRes,
                                     RemainingTPM := ResRemaining otpmRes,
                                     ResetRPM := ResResetAt rpmRes, ResetITPM := ResResetAt itpmRes,
                                     ResetOTPM := ResResetAt otpmRes, ResetTPM := ResResetAt otpmRes,
                                     ReservationID := reservationID\<rparr>),
                            s\<lparr>sRpm := saveBucket (sRpm s) bk rpm2,
                              sItpm := saveBucket (sItpm s) bk itpm2,
                              sOtpm := saveBucket (sOtpm s) bk otpm2,
                              sRes := (sRes s)(reservationID \<mapsto> res)\<rparr>)))))"

definition mem_Check ::
  "Store \<Rightarrow> time \<Rightarrow> Key \<Rightarrow> Limits \<Rightarrow> Cost \<Rightarrow> string \<Rightarrow> (error, Decision) result \<times> Store" where
  "mem_Check s0 now key limits cost0 reservationID =
     (case Validate limits of
        Some err \<Rightarrow> (Inl err, s0)
      | None \<Rightarrow>
          (let nowMs = ms_of_time now;
               s = purgeExpired s0 now
           in if Subject key = '''' then (Inl (ErrInvalid ''subject required''), s)
              else if reservationID = '''' then (Inl (ErrInvalid ''reservation id required''), s)
              else
                (let cost = cost0\<lparr>Requests := clampCost (Requests cost0),
                                  CTokens := clampCost (CTokens cost0),
                                  InputTokens := clampCost (InputTokens cost0),
                                  OutputTokens := clampCost (OutputTokens cost0)\<rparr>
                 in if Split limits then checkSplitLocked s key limits cost reservationID now nowMs
                    else checkClassicLocked s key limits cost reservationID now nowMs)))"

section \<open>Settle, SettleIO and Refund\<close>

definition settleAxis :: "State \<Rightarrow> int64 \<Rightarrow> int64 \<Rightarrow> int64 \<Rightarrow> State \<times> int64" where
  "settleAxis st nowMs reserved actual =
     (let delta = i64_sub reserved actual
      in if delta > 0 then (Credit st nowMs delta, 0)
         else if delta < 0 then
           (let (st', debited, overshoot) = DebitFloor st nowMs (i64_neg delta) in (st', overshoot))
         else (st, 0))"

definition mem_Settle ::
  "Store \<Rightarrow> time \<Rightarrow> string \<Rightarrow> int64 \<Rightarrow> (error, Decision) result \<times> Store" where
  "mem_Settle s0 now reservationID actual0 =
     (let nowMs = ms_of_time now;
          s = purgeExpired s0 now
      in case sRes s reservationID of
           None \<Rightarrow> (Inl ErrReservationNotFound, s)
         | Some r \<Rightarrow>
             if rSplit r then (Inl ErrWrongSettleMode, s)
             else if rStatus r = Settled then (Inr (rLastDecision r), s)
             else if rStatus r = Refunded then (Inl ErrReservationRefunded, s)
             else
               (let actualTokens = clampCost actual0;
                    bk = bucketKey \<lparr>Subject = rSubject r, Model = rModel r\<rparr>;
                    tpm0 = loadBucket (sTpm s) bk (rLimitTPM r) nowMs;
                    rpm = loadBucket (sRpm s) bk (rLimitRPM r) nowMs;
                    delta = i64_sub (rTpmReserved r) actualTokens;
                    (tpm, overshoot) =
                      (if delta > 0 then (Credit tpm0 nowMs delta, 0)
                       else if delta < 0 then
                         (let (st', debited, over) = DebitFloor tpm0 nowMs (i64_neg delta)
                          in (st', over))
                       else (tpm0, 0));
                    dec = zero_Decision\<lparr>Allowed := True,
                            RemainingRPM := RemainingInt (Tokens rpm),
                            RemainingTPM := RemainingInt (Tokens tpm),
                            LimitRPM := rLimitRPM r, LimitTPM := rLimitTPM r,
                            ResetRPM := ResetAt rpm nowMs, ResetTPM := ResetAt tpm nowMs,
                            ReservationID := reservationID, OvershootTPM := overshoot\<rparr>;
                    r' = r\<lparr>rStatus := Settled, rLastDecision := dec,
                           rExpiresAt := time_add now ReservationTTL\<rparr>
                in (Inr dec, s\<lparr>sTpm := saveBucket (sTpm s) bk tpm,
                               sRes := (sRes s)(reservationID \<mapsto> r')\<rparr>)))"

definition mem_SettleIO ::
  "Store \<Rightarrow> time \<Rightarrow> string \<Rightarrow> int64 \<Rightarrow> int64 \<Rightarrow> (error, Decision) result \<times> Store" where
  "mem_SettleIO s0 now reservationID actualIn0 actualOut0 =
     (let nowMs = ms_of_time now;
          s = purgeExpired s0 now
      in case sRes s reservationID of
           None \<Rightarrow> (Inl ErrReservationNotFound, s)
         | Some r \<Rightarrow>
             if \<not> rSplit r then (Inl ErrWrongSettleMode, s)
             else if rStatus r = Settled then (Inr (rLastDecision r), s)
             else if rStatus r = Refunded then (Inl ErrReservationRefunded, s)
             else
               (let actualInput = clampCost actualIn0;
                    actualOutput = clampCost actualOut0;
                    bk = bucketKey \<lparr>Subject = rSubject r, Model = rModel r\<rparr>;
                    rpm = loadBucket (sRpm s) bk (rLimitRPM r) nowMs;
                    itpm0 = loadBucket (sItpm s) bk (rLimitITPM r) nowMs;
                    otpm0 = loadBucket (sOtpm s) bk (rLimitOTPM r) nowMs;
                    (itpm, overIn) = settleAxis itpm0 nowMs (rItpmReserved r) actualInput;
                    (otpm, overOut) = settleAxis otpm0 nowMs (rOtpmReserved r) actualOutput;
                    dec = zero_Decision\<lparr>Allowed := True,
                            RemainingRPM := RemainingInt (Tokens rpm),
                            RemainingITPM := RemainingInt (Tokens itpm),
                            RemainingOTPM := RemainingInt (Tokens otpm),
                            RemainingTPM := RemainingInt (Tokens otpm),
                            LimitRPM := rLimitRPM r, LimitITPM := rLimitITPM r,
                            LimitOTPM := rLimitOTPM r, LimitTPM := rLimitOTPM r,
                            ResetRPM := ResetAt rpm nowMs, ResetITPM := ResetAt itpm nowMs,
                            ResetOTPM := ResetAt otpm nowMs, ResetTPM := ResetAt otpm nowMs,
                            ReservationID := reservationID,
                            OvershootITPM := overIn, OvershootOTPM := overOut\<rparr>;
                    r' = r\<lparr>rStatus := Settled, rLastDecision := dec,
                           rExpiresAt := time_add now ReservationTTL\<rparr>
                in (Inr dec, s\<lparr>sItpm := saveBucket (sItpm s) bk itpm,
                               sOtpm := saveBucket (sOtpm s) bk otpm,
                               sRes := (sRes s)(reservationID \<mapsto> r')\<rparr>)))"

definition mem_Refund :: "Store \<Rightarrow> time \<Rightarrow> string \<Rightarrow> error option \<times> Store" where
  "mem_Refund s0 now reservationID =
     (let nowMs = ms_of_time now;
          s = purgeExpired s0 now
      in case sRes s reservationID of
           None \<Rightarrow> (Some ErrReservationNotFound, s)
         | Some r \<Rightarrow>
             if rStatus r = Refunded then (None, s)
             else if rStatus r = Settled then (Some ErrReservationSettled, s)
             else
               (let bk = bucketKey \<lparr>Subject = rSubject r, Model = rModel r\<rparr>;
                    rpm = Credit (loadBucket (sRpm s) bk (rLimitRPM r) nowMs) nowMs (rRpmCost r);
                    s1 = s\<lparr>sRpm := saveBucket (sRpm s) bk rpm\<rparr>;
                    s2 = (if rSplit r then
                            (let itpm = Credit (loadBucket (sItpm s1) bk (rLimitITPM r) nowMs) nowMs
                                          (rItpmReserved r);
                                 otpm = Credit (loadBucket (sOtpm s1) bk (rLimitOTPM r) nowMs) nowMs
                                          (rOtpmReserved r)
                             in s1\<lparr>sItpm := saveBucket (sItpm s1) bk itpm,
                                   sOtpm := saveBucket (sOtpm s1) bk otpm\<rparr>)
                          else
                            (let tpm = Credit (loadBucket (sTpm s1) bk (rLimitTPM r) nowMs) nowMs
                                         (rTpmReserved r)
                             in s1\<lparr>sTpm := saveBucket (sTpm s1) bk tpm\<rparr>));
                    r' = r\<lparr>rStatus := Refunded, rExpiresAt := time_add now ReservationTTL\<rparr>
                in (None, s2\<lparr>sRes := (sRes s2)(reservationID \<mapsto> r')\<rparr>)))"

section \<open>Borrow and Return\<close>

definition wantGot :: "int64 \<Rightarrow> int64 \<Rightarrow> int64 \<Rightarrow> int64" where
  "wantGot avail mn chunk =
     (let want = (if chunk > mn then chunk else mn)
      in if avail < want then avail else want)"

definition borrowClassicLocked ::
  "Store \<Rightarrow> Key \<Rightarrow> Limits \<Rightarrow> BorrowSpec \<Rightarrow> int64 \<Rightarrow> (error, BorrowResult) result \<times> Store" where
  "borrowClassicLocked s key limits spec nowMs =
     (let bk = bucketKey key;
          rpm = loadBucket (sRpm s) bk (RequestsPerMinute limits) nowMs;
          tpm = loadBucket (sTpm s) bk (TokensPerMinute limits) nowMs;
          availRPM = RemainingInt (Tokens rpm);
          availTPM = RemainingInt (Tokens tpm);
          out = zero_BorrowResult\<lparr>BrLimitRPM := RequestsPerMinute limits,
                  BrLimitTPM := TokensPerMinute limits,
                  BrRemainingRPM := availRPM, BrRemainingTPM := availTPM\<rparr>
      in if availRPM < MinRPM spec then
           (Inr (out\<lparr>BrAllowed := False, BrLimitType := LimitTypeRequests,
                     BrRetryAfter := ResRetryAfter (snd (TryConsume rpm nowMs (MinRPM spec)))\<rparr>), s)
         else if availTPM < MinTPM spec then
           (Inr (out\<lparr>BrAllowed := False, BrLimitType := LimitTypeTokens,
                     BrRetryAfter := ResRetryAfter (snd (TryConsume tpm nowMs (MinTPM spec)))\<rparr>), s)
         else
           (let gotRPM = wantGot availRPM (MinRPM spec) (ChunkRPM spec);
                gotTPM = wantGot availTPM (MinTPM spec) (ChunkTPM spec);
                rpm2 = fst (TryConsume rpm nowMs gotRPM);
                tpm2 = fst (TryConsume tpm nowMs gotTPM)
            in (Inr (out\<lparr>BrAllowed := True, GotRPM := gotRPM, GotTPM := gotTPM,
                         BrRemainingRPM := RemainingInt (Tokens rpm2),
                         BrRemainingTPM := RemainingInt (Tokens tpm2)\<rparr>),
                s\<lparr>sRpm := saveBucket (sRpm s) bk rpm2,
                  sTpm := saveBucket (sTpm s) bk tpm2\<rparr>)))"

definition borrowSplitLocked ::
  "Store \<Rightarrow> Key \<Rightarrow> Limits \<Rightarrow> BorrowSpec \<Rightarrow> int64 \<Rightarrow> (error, BorrowResult) result \<times> Store" where
  "borrowSplitLocked s key limits spec nowMs =
     (let bk = bucketKey key;
          rpm = loadBucket (sRpm s) bk (RequestsPerMinute limits) nowMs;
          itpm = loadBucket (sItpm s) bk (InputTokensPerMinute limits) nowMs;
          otpm = loadBucket (sOtpm s) bk (OutputTokensPerMinute limits) nowMs;
          availRPM = RemainingInt (Tokens rpm);
          availITPM = RemainingInt (Tokens itpm);
          availOTPM = RemainingInt (Tokens otpm);
          out = zero_BorrowResult\<lparr>BrLimitRPM := RequestsPerMinute limits,
                  BrLimitITPM := InputTokensPerMinute limits,
                  BrLimitOTPM := OutputTokensPerMinute limits,
                  BrLimitTPM := OutputTokensPerMinute limits,
                  BrRemainingRPM := availRPM, BrRemainingITPM := availITPM,
                  BrRemainingOTPM := availOTPM, BrRemainingTPM := availOTPM\<rparr>
      in if availRPM < MinRPM spec then
           (Inr (out\<lparr>BrAllowed := False, BrLimitType := LimitTypeRequests,
                     BrRetryAfter := ResRetryAfter (snd (TryConsume rpm nowMs (MinRPM spec)))\<rparr>), s)
         else if availITPM < MinITPM spec then
           (Inr (out\<lparr>BrAllowed := False, BrLimitType := LimitTypeInputTokens,
                     BrRetryAfter := ResRetryAfter (snd (TryConsume itpm nowMs (MinITPM spec)))\<rparr>), s)
         else if availOTPM < MinOTPM spec then
           (Inr (out\<lparr>BrAllowed := False, BrLimitType := LimitTypeOutputTokens,
                     BrRetryAfter := ResRetryAfter (snd (TryConsume otpm nowMs (MinOTPM spec)))\<rparr>), s)
         else
           (let gotRPM = wantGot availRPM (MinRPM spec) (ChunkRPM spec);
                gotITPM = wantGot availITPM (MinITPM spec) (ChunkITPM spec);
                gotOTPM = wantGot availOTPM (MinOTPM spec) (ChunkOTPM spec);
                rpm2 = fst (TryConsume rpm nowMs gotRPM);
                itpm2 = fst (TryConsume itpm nowMs gotITPM);
                otpm2 = fst (TryConsume otpm nowMs gotOTPM)
            in (Inr (out\<lparr>BrAllowed := True, GotRPM := gotRPM, GotITPM := gotITPM, GotOTPM := gotOTPM,
                         BrRemainingRPM := RemainingInt (Tokens rpm2),
                         BrRemainingITPM := RemainingInt (Tokens itpm2),
                         BrRemainingOTPM := RemainingInt (Tokens otpm2),
                         BrRemainingTPM := RemainingInt (Tokens otpm2)\<rparr>),
                s\<lparr>sRpm := saveBucket (sRpm s) bk rpm2,
                  sItpm := saveBucket (sItpm s) bk itpm2,
                  sOtpm := saveBucket (sOtpm s) bk otpm2\<rparr>)))"

definition clampSpec :: "BorrowSpec \<Rightarrow> BorrowSpec" where
  "clampSpec spec =
     \<lparr>MinRPM = clampCost (MinRPM spec), MinTPM = clampCost (MinTPM spec),
      MinITPM = clampCost (MinITPM spec), MinOTPM = clampCost (MinOTPM spec),
      ChunkRPM = clampCost (ChunkRPM spec), ChunkTPM = clampCost (ChunkTPM spec),
      ChunkITPM = clampCost (ChunkITPM spec), ChunkOTPM = clampCost (ChunkOTPM spec)\<rparr>"

definition mem_Borrow ::
  "Store \<Rightarrow> time \<Rightarrow> Key \<Rightarrow> Limits \<Rightarrow> BorrowSpec \<Rightarrow> (error, BorrowResult) result \<times> Store" where
  "mem_Borrow s now key limits spec =
     (case Validate limits of
        Some err \<Rightarrow> (Inl err, s)
      | None \<Rightarrow>
          (let nowMs = ms_of_time now
           in if Subject key = '''' then (Inl (ErrInvalid ''subject required''), s)
              else if Split limits then borrowSplitLocked s key limits (clampSpec spec) nowMs
              else borrowClassicLocked s key limits (clampSpec spec) nowMs))"

definition mem_Return ::
  "Store \<Rightarrow> time \<Rightarrow> Key \<Rightarrow> Limits \<Rightarrow> int64 \<Rightarrow> int64 \<Rightarrow> int64 \<Rightarrow> int64 \<Rightarrow> error option \<times> Store" where
  "mem_Return s now key limits rpmAdd tpmAdd itpmAdd otpmAdd =
     (if Subject key = '''' then (Some (ErrInvalid ''subject required''), s)
      else if rpmAdd \<le> 0 \<and> tpmAdd \<le> 0 \<and> itpmAdd \<le> 0 \<and> otpmAdd \<le> 0 then (None, s)
      else
        (let nowMs = ms_of_time now;
             bk = bucketKey key
         in if Split limits then
              (let rpm = Credit (loadBucket (sRpm s) bk (RequestsPerMinute limits) nowMs) nowMs rpmAdd;
                   itpm = Credit (loadBucket (sItpm s) bk (InputTokensPerMinute limits) nowMs) nowMs itpmAdd;
                   otpm = Credit (loadBucket (sOtpm s) bk (OutputTokensPerMinute limits) nowMs) nowMs otpmAdd
               in (None, s\<lparr>sRpm := saveBucket (sRpm s) bk rpm,
                           sItpm := saveBucket (sItpm s) bk itpm,
                           sOtpm := saveBucket (sOtpm s) bk otpm\<rparr>))
            else
              (let rpm = Credit (loadBucket (sRpm s) bk (RequestsPerMinute limits) nowMs) nowMs rpmAdd;
                   tpm = Credit (loadBucket (sTpm s) bk (TokensPerMinute limits) nowMs) nowMs tpmAdd
               in (None, s\<lparr>sRpm := saveBucket (sRpm s) bk rpm,
                           sTpm := saveBucket (sTpm s) bk tpm\<rparr>))))"

definition memory_store :: "Store StoreOps" where
  "memory_store = \<lparr>opCheck = mem_Check, opSettle = mem_Settle, opSettleIO = mem_SettleIO,
     opRefund = mem_Refund, opBorrow = mem_Borrow, opReturn = mem_Return\<rparr>"

end
