(* ===== verification/Metering.thy ===== *)
theory Metering
  imports Bucket
begin

text \<open>
  What a metered resource promises, independently of how it is stored. The interface
  \<open>metered\<close> has an amount that is available at a usable instant, which time may raise by at
  most a gain, and steps that draw from it (or give back, with a negative draw). Its one lemma
  bounds what a run of steps can draw in total, by the argument of a potential function.
  The second half proves the laws of the interface for a single bucket.
\<close>

section \<open>The interface\<close>

locale metered =
  fixes usable :: "int \<Rightarrow> bool" and inv :: "int \<Rightarrow> 's \<Rightarrow> bool"
    and avail :: "'s \<Rightarrow> int \<Rightarrow> rat"
    and step :: "int \<Rightarrow> int \<Rightarrow> 's \<Rightarrow> 's \<Rightarrow> bool"
    and gain :: "int \<Rightarrow> rat"
    and full :: rat and floor_amount :: rat and slack :: rat
  assumes avail_full: "inv t0 s \<Longrightarrow> t0 \<le> t \<Longrightarrow> usable t \<Longrightarrow> avail s t \<le> full"
    and avail_floor: "inv t0 s \<Longrightarrow> t0 \<le> t \<Longrightarrow> usable t \<Longrightarrow> floor_amount \<le> avail s t"
    and avail_later: "inv t0 s \<Longrightarrow> t0 \<le> t \<Longrightarrow> t \<le> t' \<Longrightarrow> usable t \<Longrightarrow> usable t' \<Longrightarrow>
      avail s t' \<le> avail s t + gain (t' - t) + slack"
    and step_inv: "inv t0 s \<Longrightarrow> t0 \<le> t \<Longrightarrow> usable t \<Longrightarrow> step t d s s' \<Longrightarrow> inv t s'"
    and step_draw: "inv t0 s \<Longrightarrow> t0 \<le> t \<Longrightarrow> usable t \<Longrightarrow> step t d s s' \<Longrightarrow>
      of_int d \<le> avail s t - avail s' t + slack"
    and gain_add: "gain (a + b) = gain a + gain b"
begin

text \<open>A run of steps, each labelled with its instant and its draw.\<close>

inductive run :: "(int \<times> int) list \<Rightarrow> 's \<Rightarrow> 's \<Rightarrow> bool" where
  run_nil: "run [] s s"
| run_step: "step t d s s' \<Longrightarrow> run ls s' s'' \<Longrightarrow> run ((t, d) # ls) s s''"

inductive_cases run_consE: "run ((t, d) # ls) s s''"

lemma run_potential:
  assumes "run ls s s'" and "inv t0 s" and "usable t0"
    and "sorted (t0 # map fst ls)" and "\<forall>t \<in> fst ` set ls. usable t"
  shows "of_int (sum_list (map snd ls)) + avail s' (last (t0 # map fst ls))
    \<le> avail s t0 + gain (last (t0 # map fst ls) - t0) + 2 * of_nat (length ls) * slack"
  using assms
proof (induction arbitrary: t0)
  case (run_nil s)
  have "gain 0 = 0" using gain_add [of 0 0] by simp
  then show ?case by simp
next
  case (run_step t d s s' ls s'')
  have t: "t0 \<le> t" "usable t" using run_step.prems by auto
  have "inv t s'" using step_inv run_step.hyps(1) run_step.prems(1) t by blast
  then have IH: "of_int (sum_list (map snd ls)) + avail s'' (last (t # map fst ls))
      \<le> avail s' t + gain (last (t # map fst ls) - t) + 2 * of_nat (length ls) * slack"
    using run_step.IH [of t] run_step.prems t by simp
  have "of_int d \<le> avail s t - avail s' t + slack"
    using step_draw run_step.hyps(1) run_step.prems(1) t by blast
  moreover have "avail s t \<le> avail s t0 + gain (t - t0) + slack"
    using avail_later [OF run_step.prems(1)] run_step.prems(2) t by blast
  moreover have "gain (last (t # map fst ls) - t0) = gain (t - t0) + gain (last (t # map fst ls) - t)"
    using gain_add [of "t - t0" "last (t # map fst ls) - t"] by simp
  ultimately show ?case using IH by (simp add: algebra_simps)
qed

lemma run_draw_bounded:
  assumes "run ls s s'" and "inv t0 s" and "usable t0"
    and "sorted (t0 # map fst ls)" and "\<forall>t \<in> fst ` set ls. usable t"
  shows "of_int (sum_list (map snd ls))
    \<le> full - floor_amount + gain (last (t0 # map fst ls) - t0) + 2 * of_nat (length ls) * slack"
proof -
  have inv': "\<exists>t. inv t s' \<and> t \<le> last (t0 # map fst ls) \<and> usable (last (t0 # map fst ls))"
    using assms
  proof (induction arbitrary: t0)
    case (run_step t d s s' ls s'')
    have "t0 \<le> t" "usable t" using run_step.prems by auto
    moreover from this have "inv t s'" using step_inv run_step.hyps(1) run_step.prems(1) by blast
    ultimately show ?case using run_step.IH [of t] run_step.prems by simp
  qed auto
  then have "floor_amount \<le> avail s' (last (t0 # map fst ls))" using avail_floor by blast
  moreover have "avail s t0 \<le> full" using avail_full assms(2,3) by blast
  ultimately show ?thesis using run_potential [OF assms] by linarith
qed

end

section \<open>The laws for one bucket\<close>

text \<open>Two refills of the same stored bucket: the later one brings at most what the bucket
  earns in between, up to roundings. A bucket below its capacity has earned less than
  three times its capacity, so the relative error of the two refills is bounded too.\<close>

lemma refill_step_arith:
  fixes T T' b E G c :: rat
  assumes up: "T' \<le> b + (E + G) * (1 + 6 / 2 ^ 53) + c / 2 ^ 52"
    and lo: "min c (b + E * (1 - 6 / 2 ^ 53) - c / 2 ^ 52) \<le> T"
    and b: "- 1 \<le> b" "1 \<le> c" "T' \<le> c" "0 \<le> G"
  shows "T' \<le> T + G * (1 + 6 / 2 ^ 53) + c / 2 ^ 46"
proof (cases "c \<le> T")
  case True
  have "0 \<le> G * (1 + 6 / 2 ^ 53)" using b(4) by simp
  moreover have "0 \<le> c / 2 ^ 46" using b(2) by simp
  ultimately show ?thesis using True b(3) by linarith
next
  case False
  then have l: "b + E * (1 - 6 / 2 ^ 53) - c / 2 ^ 52 \<le> T" using lo by linarith
  have "E \<le> 3 * c"
  proof (rule ccontr)
    assume "\<not> E \<le> 3 * c"
    then have "(3 * c) * (1 - 6 / 2 ^ 53) \<le> E * (1 - 6 / 2 ^ 53)" by (intro mult_right_mono) auto
    then show False using l False b by simp
  qed
  then have "E * (12 / 2 ^ 53) \<le> 3 * c * (12 / 2 ^ 53)" by (intro mult_right_mono) auto
  then show ?thesis using up l b(2) by (simp add: algebra_simps add_divide_distrib)
qed

lemma Refill_step:
  assumes ok: "bucket_ok s" and c: "0 < Capacity s" and last: "0 < LastMs s" "LastMs s \<le> t"
    and t: "t \<le> t'" "clock_ok t" "clock_ok t'"
  shows "Tokens (Refill s t') \<le>
    Tokens (Refill s t) + earned (Capacity s) (t' - t) * (1 + 6 / 2 ^ 53) + of_int (Capacity s) / 2 ^ 46"
proof -
  let ?c = "Capacity s"
  have "t' - LastMs s = (t - LastMs s) + (t' - t)" by simp
  then have e: "earned ?c (t' - LastMs s) = earned ?c (t - LastMs s) + earned ?c (t' - t)"
    by (metis earned_add)
  have "Tokens (Refill s t') \<le> of_int ?c"
    using bucket_okD(3) [OF Refill_ok [OF ok t(3)]] by simp
  moreover have "0 \<le> earned ?c (t' - t)" using c t by (simp add: earned_nonneg)
  moreover have "-1 \<le> Tokens s" using bucket_okD(2) [OF ok] two_eps_le_1 by linarith
  moreover have "1 \<le> (of_int ?c :: rat)" using c by simp
  ultimately show ?thesis
    using refill_step_arith [OF _ Refill_gain_lower [OF ok t(2) c last]]
      Refill_gain [OF ok t(3) c last(1)] last t unfolding e by auto
qed

text \<open>A credit adds at most its amount, up to one rounding.\<close>

lemma Credit_gain:
  assumes ok: "bucket_ok s" and t: "clock_ok t" and c: "0 < Capacity s"
  shows "Tokens (Credit s t a) \<le> Tokens (Refill s t) + of_int (max 0 a) + of_int (Capacity s) / 2 ^ 51"
proof (cases "a \<le> Capacity s \<and> 0 < a")
  case True
  note okD = bucket_okD [OF Refill_ok [OF ok t]]
  let ?T = "Tokens (Refill s t)" and ?c = "of_int (Capacity s) :: rat"
  have c1: "1 \<le> ?c" using c by simp
  have a: "f64_of_int a = of_int a" "0 < (of_int a :: rat)" "(of_int a :: rat) \<le> ?c"
    using True okD(4) by (simp_all add: f64_of_int_exact)
  have "\<bar>?T + of_int a\<bar> \<le> ?c + ?c"
    using okD(2,3) a c1 two_eps_le_1 by (simp only: abs_le_iff Refill_Capacity) linarith
  from rnd64_slack [OF this c] c1
  have "f64_add ?T (of_int a) \<le> ?T + of_int a + ?c / 2 ^ 52 + ?c / 2 ^ 53" by (simp add: f64_add_def)
  also have "\<dots> \<le> ?T + of_int a + ?c / 2 ^ 51" using c1 by simp
  finally show ?thesis using True a(1) by (simp add: Credit_def Let_def min_le_iff_disj)
next
  case False
  note okD = bucket_okD [OF Refill_ok [OF ok t]] and cD = bucket_okD [OF Credit_ok [OF ok t]]
  have c1: "1 \<le> (of_int (Capacity s) :: rat)" using c by simp
  show ?thesis
  proof (cases "a \<le> 0")
    case True
    then show ?thesis using c1 by (simp add: Credit_def Let_def)
  next
    case a: False
    then have "Capacity s + 1 \<le> max 0 a" using False by auto
    then have "of_int (Capacity s + 1) \<le> (of_int (max 0 a) :: rat)" by (simp only: of_int_le_iff)
    then have "of_int (Capacity s) + 1 \<le> (of_int (max 0 a) :: rat)" by (simp only: of_int_add of_int_1)
    moreover have "Tokens (Credit s t a) \<le> of_int (Capacity s)" using cD(3) by simp
    moreover have "0 \<le> (of_int (Capacity s) :: rat) / 2 ^ 51" using c1 by simp
    ultimately show ?thesis using okD(2) two_eps_le_1 by linarith
  qed
qed

text \<open>A debit takes what it reports, up to one rounding.\<close>

lemma DebitFloor_debit:
  assumes ok: "bucket_ok s" and t: "clock_ok t" and c: "0 < Capacity s" and a: "in64 a"
  shows "of_int (fst (snd (DebitFloor s t a)))
    \<le> Tokens (Refill s t) - Tokens (fst (DebitFloor s t a)) + of_int (Capacity s) / 2 ^ 51"
proof -
  let ?T = "Tokens (Refill s t)" and ?c = "of_int (Capacity s) :: rat"
  note okD = bucket_okD [OF Refill_ok [OF ok t]]
  have c1: "1 \<le> ?c" using c by simp
  have r: "f64_sub ?T (of_int d) \<le> ?T - of_int d + ?c / 2 ^ 51" if "- 1 \<le> d" "d \<le> \<lfloor>?T\<rfloor>" for d
  proof -
    have "of_int d \<le> ?T" using that(2) by (simp add: le_floor_iff)
    moreover have "-1 \<le> (of_int d :: rat)" using that(1) by simp
    ultimately have "\<bar>?T - of_int d\<bar> \<le> ?c + 1"
      using okD(3) c1 by (simp only: abs_le_iff Refill_Capacity) linarith
    from rnd64_slack [OF this c]
    have "f64_sub ?T (of_int d) \<le> ?T - of_int d + ?c / 2 ^ 52 + 1 / 2 ^ 53" by (simp add: f64_sub_def)
    then show ?thesis using c1 by simp
  qed
  have f: "- 1 \<le> \<lfloor>?T\<rfloor>" using floor_tokens(1) [OF Refill_ok [OF ok t]] .
  have fl: "of_int \<lfloor>?T\<rfloor> \<le> ?T" by simp
  then have "0 \<le> ?T - of_int \<lfloor>?T\<rfloor>" by simp
  then have nn: "max 0 (f64_sub ?T (of_int \<lfloor>?T\<rfloor>)) = f64_sub ?T (of_int \<lfloor>?T\<rfloor>)"
    by (simp add: f64_sub_def f64.rnd_lower)
  show ?thesis
    using r [of a] r [of "\<lfloor>?T\<rfloor>"] f nn c1 by (auto simp: DebitFloor_cases [OF ok t a] algebra_simps)
qed

end
