(* ===== verification/Memory_Axis.thy ===== *)
theory Memory_Axis
  imports Memory_Store Metering Axes
begin

text \<open>
  The in-memory store seen one budget at a time. Every operation acts on the four bucket
  maps in the same few ways, so its effect is described once per axis, by \<open>axis_eff\<close>, and
  the invariant, the isolation between keys and the rate bound are all consequences of that
  description.
\<close>

fun axis_map :: "axis \<Rightarrow> Store \<Rightarrow> buckets" where
  "axis_map Rpm s = sRpm s"
| "axis_map Tpm s = sTpm s"
| "axis_map Itpm s = sItpm s"
| "axis_map Otpm s = sOtpm s"

fun axis_reserved :: "axis \<Rightarrow> reservation \<Rightarrow> int64" where
  "axis_reserved Rpm r = rRpmCost r"
| "axis_reserved Tpm r = rTpmReserved r"
| "axis_reserved Itpm r = rItpmReserved r"
| "axis_reserved Otpm r = rOtpmReserved r"

fun axis_rlimit :: "axis \<Rightarrow> reservation \<Rightarrow> int64" where
  "axis_rlimit Rpm r = rLimitRPM r"
| "axis_rlimit Tpm r = rLimitTPM r"
| "axis_rlimit Itpm r = rLimitITPM r"
| "axis_rlimit Otpm r = rLimitOTPM r"

definition res_key :: "reservation \<Rightarrow> string" where
  "res_key r = bucketKey \<lparr>Subject = rSubject r, Model = rModel r\<rparr>"

abbreviation axis_load :: "axis \<Rightarrow> Store \<Rightarrow> string \<Rightarrow> int64 \<Rightarrow> int64 \<Rightarrow> State" where
  "axis_load ax s k c t \<equiv> loadBucket (axis_map ax s) k c t"

text \<open>A live pending reservation, as the operations that finish one look it up.\<close>

definition pending :: "Store \<Rightarrow> time \<Rightarrow> string \<Rightarrow> reservation option" where
  "pending s now rid =
     (case sRes s rid of
        None \<Rightarrow> None
      | Some r \<Rightarrow> if time_after now (rExpiresAt r) \<or> rStatus r \<noteq> Pending then None else Some r)"

lemma clampCost_max [simp]: "clampCost n = max 0 n"
  by (simp add: clampCost_def)

lemma purgeExpired_maps [simp]:
  "sRpm (purgeExpired s now) = sRpm s" "sTpm (purgeExpired s now) = sTpm s"
  "sItpm (purgeExpired s now) = sItpm s" "sOtpm (purgeExpired s now) = sOtpm s"
  "axis_map ax (purgeExpired s now) = axis_map ax s"
  by (cases ax; simp add: purgeExpired_def)+

lemma purgeExpired_res:
  "sRes (purgeExpired s now) = map_drop (\<lambda>r. time_after now (rExpiresAt r)) (sRes s)"
  by (simp add: purgeExpired_def)

section \<open>The effect of every operation on an axis\<close>

lemma mem_Check_axis:
  "axis_map ax (snd (mem_Check s now key limits cost rid)) =
     (if granted (fst (mem_Check s now key limits cost rid)) \<and> active ax (Split limits)
      then saveBucket (axis_map ax s) (bucketKey key)
             (fst (TryConsume (axis_load ax s (bucketKey key) (axis_limit ax limits) (ms_of_time now))
                (ms_of_time now) (max 0 (axis_cost ax cost))))
      else axis_map ax s)"
  by (cases ax) (auto simp: mem_Check_def checkClassicLocked_def checkSplitLocked_def Let_def
      zero_Decision_def split: option.splits prod.splits)

lemma mem_Check_granted_axis:
  "granted (fst (mem_Check s now key limits cost rid)) \<Longrightarrow> active ax (Split limits) \<Longrightarrow>
     ResAllowed (snd (TryConsume (axis_load ax s (bucketKey key) (axis_limit ax limits) (ms_of_time now))
                (ms_of_time now) (max 0 (axis_cost ax cost))))"
  by (cases ax) (auto simp: mem_Check_def checkClassicLocked_def checkSplitLocked_def Let_def
      zero_Decision_def split: option.splits prod.splits if_splits)

lemma mem_Borrow_axis:
  "axis_map ax (snd (mem_Borrow s now key limits spec)) =
     (if lent (fst (mem_Borrow s now key limits spec)) \<and> active ax (Split limits)
      then saveBucket (axis_map ax s) (bucketKey key)
             (fst (TryConsume (axis_load ax s (bucketKey key) (axis_limit ax limits) (ms_of_time now))
                (ms_of_time now)
                (wantGot (RemainingInt (Tokens (axis_load ax s (bucketKey key) (axis_limit ax limits)
                   (ms_of_time now)))) (max 0 (axis_min ax spec)) (max 0 (axis_chunk ax spec)))))
      else axis_map ax s)"
  by (cases ax) (auto simp: mem_Borrow_def borrowClassicLocked_def borrowSplitLocked_def Let_def
      clampSpec_def zero_BorrowResult_def split: option.splits prod.splits)

lemma mem_Borrow_got:
  "fst (mem_Borrow s now key limits spec) = Inr b \<Longrightarrow> BrAllowed b \<Longrightarrow>
     axis_got ax b = (if active ax (Split limits) then
       wantGot (RemainingInt (Tokens (axis_load ax s (bucketKey key) (axis_limit ax limits)
           (ms_of_time now)))) (max 0 (axis_min ax spec)) (max 0 (axis_chunk ax spec)) else 0)"
  "fst (mem_Borrow s now key limits spec) = Inr b \<Longrightarrow> BrAllowed b \<Longrightarrow> active ax (Split limits) \<Longrightarrow>
     max 0 (axis_min ax spec) \<le>
       RemainingInt (Tokens (axis_load ax s (bucketKey key) (axis_limit ax limits) (ms_of_time now)))"
  "fst (mem_Borrow s now key limits spec) = Inr b \<Longrightarrow> \<not> BrAllowed b \<Longrightarrow> axis_got ax b = 0"
  by (cases ax; auto simp: mem_Borrow_def borrowClassicLocked_def borrowSplitLocked_def Let_def
      clampSpec_def zero_BorrowResult_def split: option.splits prod.splits if_splits)+

lemma mem_Return_axis:
  "axis_map ax (snd (mem_Return s now key limits r t i out)) =
     (if fst (mem_Return s now key limits r t i out) = None \<and> active ax (Split limits)
         \<and> (0 < r \<or> 0 < t \<or> 0 < i \<or> 0 < out)
      then saveBucket (axis_map ax s) (bucketKey key)
             (Credit (axis_load ax s (bucketKey key) (axis_limit ax limits) (ms_of_time now))
                (ms_of_time now) (axis_pick ax r t i out))
      else axis_map ax s)"
  by (cases ax) (auto simp: mem_Return_def Let_def)

lemma pending_purge:
  "pending s now rid = Some r \<longleftrightarrow>
     sRes (purgeExpired s now) rid = Some r \<and> rStatus r = Pending"
  by (auto simp: pending_def purgeExpired_res split: option.splits)

lemma mem_Refund_axis:
  "axis_map ax (snd (mem_Refund s now rid)) =
     (case pending s now rid of
        None \<Rightarrow> axis_map ax s
      | Some r \<Rightarrow>
          if active ax (rSplit r)
          then saveBucket (axis_map ax s) (res_key r)
                 (Credit (axis_load ax s (res_key r) (axis_rlimit ax r) (ms_of_time now))
                    (ms_of_time now) (axis_reserved ax r))
          else axis_map ax s)"
proof (cases "sRes (purgeExpired s now) rid")
  case None
  then have "pending s now rid = None"
    using pending_purge by (metis not_Some_eq)
  then show ?thesis using None by (simp add: mem_Refund_def Let_def)
next
  case (Some r)
  then have "pending s now rid = (if rStatus r = Pending then Some r else None)"
    using pending_purge by (metis not_Some_eq option.inject)
  with Some show ?thesis
    by (cases ax; cases "rStatus r") (auto simp: mem_Refund_def Let_def res_key_def)
qed

lemma pending_cases:
  "pending s now rid = (case sRes (purgeExpired s now) rid of
     None \<Rightarrow> None | Some r \<Rightarrow> if rStatus r = Pending then Some r else None)"
  by (auto simp: pending_def purgeExpired_res map_drop_def split: option.splits)

lemma mem_Settle_axis:
  "axis_map ax (snd (mem_Settle s now rid actual)) =
     (case pending s now rid of
        None \<Rightarrow> axis_map ax s
      | Some r \<Rightarrow>
          if \<not> rSplit r \<and> ax = Tpm
          then saveBucket (axis_map ax s) (res_key r)
                 (fst (settleAxis (axis_load ax s (res_key r) (axis_rlimit ax r) (ms_of_time now))
                    (ms_of_time now) (axis_reserved ax r) (max 0 actual)))
          else axis_map ax s)"
  by (cases "sRes (purgeExpired s now) rid"; cases ax)
     (auto simp: mem_Settle_def Let_def res_key_def pending_cases not_Pending settleAxis_def
       split: prod.splits)

lemma mem_Settle_over:
  assumes "pending s now rid = Some r" "\<not> rSplit r"
  shows "\<exists>d. fst (mem_Settle s now rid actual) = Inr d \<and> Allowed d \<and>
    OvershootTPM d = snd (settleAxis (axis_load Tpm s (res_key r) (rLimitTPM r) (ms_of_time now))
                    (ms_of_time now) (rTpmReserved r) (max 0 actual))"
  using assms
  by (cases "sRes (purgeExpired s now) rid")
     (auto simp: mem_Settle_def Let_def res_key_def pending_cases not_Pending settleAxis_def zero_Decision_def
       split: prod.splits if_splits)

lemma mem_SettleIO_axis:
  "axis_map ax (snd (mem_SettleIO s now rid actualIn actualOut)) =
     (case pending s now rid of
        None \<Rightarrow> axis_map ax s
      | Some r \<Rightarrow>
          if rSplit r \<and> (ax = Itpm \<or> ax = Otpm)
          then saveBucket (axis_map ax s) (res_key r)
                 (fst (settleAxis (axis_load ax s (res_key r) (axis_rlimit ax r) (ms_of_time now))
                    (ms_of_time now) (axis_reserved ax r)
                    (max 0 (axis_pick ax 0 0 actualIn actualOut))))
          else axis_map ax s)"
  by (cases "sRes (purgeExpired s now) rid"; cases ax)
     (auto simp: mem_SettleIO_def Let_def res_key_def pending_cases not_Pending
       split: prod.splits)

lemma mem_SettleIO_over:
  assumes "pending s now rid = Some r" "rSplit r"
  shows "\<exists>d. fst (mem_SettleIO s now rid actualIn actualOut) = Inr d \<and> Allowed d \<and>
    OvershootITPM d = snd (settleAxis (axis_load Itpm s (res_key r) (rLimitITPM r) (ms_of_time now))
                    (ms_of_time now) (rItpmReserved r) (max 0 actualIn)) \<and>
    OvershootOTPM d = snd (settleAxis (axis_load Otpm s (res_key r) (rLimitOTPM r) (ms_of_time now))
                    (ms_of_time now) (rOtpmReserved r) (max 0 actualOut))"
  using assms
  by (cases "sRes (purgeExpired s now) rid")
     (auto simp: mem_SettleIO_def Let_def res_key_def pending_cases not_Pending zero_Decision_def
       split: prod.splits if_splits)

section \<open>Reservations\<close>

text \<open>What a granted check records.\<close>

definition new_reservation :: "Key \<Rightarrow> Limits \<Rightarrow> Cost \<Rightarrow> time \<Rightarrow> reservation" where
  "new_reservation key limits cost now =
     \<lparr>rSubject = Subject key, rModel = Model key, rSplit = Split limits,
      rRpmCost = max 0 (Requests cost),
      rTpmReserved = (if Split limits then 0 else max 0 (CTokens cost)),
      rItpmReserved = (if Split limits then max 0 (InputTokens cost) else 0),
      rOtpmReserved = (if Split limits then max 0 (OutputTokens cost) else 0),
      rLimitRPM = RequestsPerMinute limits,
      rLimitTPM = (if Split limits then 0 else TokensPerMinute limits),
      rLimitITPM = (if Split limits then InputTokensPerMinute limits else 0),
      rLimitOTPM = (if Split limits then OutputTokensPerMinute limits else 0),
      rStatus = Pending, rCreatedMs = ms_of_time now,
      rExpiresAt = time_add now ReservationTTL, rLastDecision = zero_Decision\<rparr>"

lemma new_reservation_axis:
  "active ax (Split limits) \<Longrightarrow> axis_reserved ax (new_reservation key limits cost now) = max 0 (axis_cost ax cost)"
  "active ax (Split limits) \<Longrightarrow> axis_rlimit ax (new_reservation key limits cost now) = axis_limit ax limits"
  "\<not> active ax (Split limits) \<Longrightarrow> axis_reserved ax (new_reservation key limits cost now) = 0"
  "\<not> active ax (Split limits) \<Longrightarrow> axis_rlimit ax (new_reservation key limits cost now) = 0"
  by (cases ax; simp add: new_reservation_def)+

lemma new_reservation_key [simp]:
  "res_key (new_reservation key limits cost now) = bucketKey key"
  "rSplit (new_reservation key limits cost now) = Split limits"
  "rStatus (new_reservation key limits cost now) = Pending"
  by (simp_all add: new_reservation_def res_key_def bucketKey_def)

lemma mem_Check_res:
  "sRes (snd (mem_Check s now key limits cost rid)) =
     (if Validate limits \<noteq> None then sRes s
      else if granted (fst (mem_Check s now key limits cost rid))
      then (sRes (purgeExpired s now))(rid \<mapsto> new_reservation key limits cost now)
      else sRes (purgeExpired s now))"
  by (auto simp: mem_Check_def checkClassicLocked_def checkSplitLocked_def Let_def
      zero_Decision_def new_reservation_def split: option.splits prod.splits)

lemma mem_Check_granted_id:
  "granted (fst (mem_Check s now key limits cost rid)) \<Longrightarrow>
     rid \<noteq> [] \<and> Subject key \<noteq> [] \<and> Validate limits = None"
  by (auto simp: mem_Check_def Let_def split: option.splits if_splits)

lemma mem_Borrow_res [simp]: "sRes (snd (mem_Borrow s now key limits spec)) = sRes s"
  by (auto simp: mem_Borrow_def borrowClassicLocked_def borrowSplitLocked_def Let_def
      split: option.splits)

lemma mem_Return_res [simp]: "sRes (snd (mem_Return s now key limits a b c d)) = sRes s"
  by (auto simp: mem_Return_def Let_def)

lemma mem_Refund_res:
  "sRes (snd (mem_Refund s now rid)) =
     (case pending s now rid of
        None \<Rightarrow> sRes (purgeExpired s now)
      | Some r \<Rightarrow> (sRes (purgeExpired s now))(rid \<mapsto>
          r\<lparr>rStatus := Refunded, rExpiresAt := time_add now ReservationTTL\<rparr>))"
  by (cases "sRes (purgeExpired s now) rid")
     (auto simp: mem_Refund_def Let_def pending_cases not_Pending split:)

lemma mem_Settle_res:
  "sRes (snd (mem_Settle s now rid actual)) =
     (case pending s now rid of
        None \<Rightarrow> sRes (purgeExpired s now)
      | Some r \<Rightarrow>
          if rSplit r then sRes (purgeExpired s now)
          else (sRes (purgeExpired s now))(rid \<mapsto>
            r\<lparr>rStatus := Settled, rLastDecision := projr (fst (mem_Settle s now rid actual)),
              rExpiresAt := time_add now ReservationTTL\<rparr>))"
  by (cases "sRes (purgeExpired s now) rid")
     (auto simp: mem_Settle_def Let_def pending_cases not_Pending split: prod.splits)

lemma mem_SettleIO_res:
  "sRes (snd (mem_SettleIO s now rid ai ao)) =
     (case pending s now rid of
        None \<Rightarrow> sRes (purgeExpired s now)
      | Some r \<Rightarrow>
          if \<not> rSplit r then sRes (purgeExpired s now)
          else (sRes (purgeExpired s now))(rid \<mapsto>
            r\<lparr>rStatus := Settled, rLastDecision := projr (fst (mem_SettleIO s now rid ai ao)),
              rExpiresAt := time_add now ReservationTTL\<rparr>))"
  by (cases "sRes (purgeExpired s now) rid")
     (auto simp: mem_SettleIO_def Let_def pending_cases not_Pending split: prod.splits)

end
