(* ===== verification/Memory_Invariant.thy ===== *)
theory Memory_Invariant
  imports Memory_Axis
begin

text \<open>
  The invariant of the in-memory store and the laws that every operation obeys: stored
  buckets stay well formed, reservations stay consistent with what was taken for them.
\<close>

section \<open>One bucket map\<close>

definition entry_ok :: "bucketState \<Rightarrow> bool" where
  "entry_ok b \<longleftrightarrow> is_f64 (bsTokens b) \<and> - (2 * f64_eps) \<le> bsTokens b \<and> bsTokens b \<le> 2 ^ 53 \<and>
     0 < bsLastMs b \<and> in64 (bsLastMs b)"

definition axis_ok :: "int64 \<Rightarrow> buckets \<Rightarrow> bool" where
  "axis_ok t m \<longleftrightarrow> (\<forall>k b. m k = Some b \<longrightarrow> entry_ok b \<and> bsLastMs b \<le> t)"

definition stored :: "buckets \<Rightarrow> string \<Rightarrow> int64 \<Rightarrow> State" where
  "stored m k c = (case m k of
      None \<Rightarrow> \<lparr>Tokens = 0, LastMs = 0, Capacity = c\<rparr>
    | Some b \<Rightarrow> if bsLastMs b = 0 then \<lparr>Tokens = 0, LastMs = 0, Capacity = c\<rparr>
                else \<lparr>Tokens = bsTokens b, LastMs = bsLastMs b, Capacity = c\<rparr>)"

lemma loadBucket_stored: "loadBucket m k c t = Refill (stored m k c) t"
  by (simp add: loadBucket_def stored_def Let_def)

lemma stored_Capacity [simp]: "Capacity (stored m k c) = c"
  by (simp add: stored_def split: option.splits)

lemma stored_pre:
  assumes "axis_ok t m" "cap_ok c"
  shows "bucket_pre (stored m k c)"
  using assms neg_2eps_le [of 0]
  by (auto simp: stored_def bucket_pre_def axis_ok_def entry_ok_def cap_ok_def less_imp_le
      split: option.splits)

lemma stored_last:
  assumes "axis_ok t m" "t \<le> now" "clock_ok now"
  shows "LastMs (stored m k c) \<le> now"
  using assms by (fastforce simp: stored_def axis_ok_def clock_ok_def split: option.splits)

lemma loadBucket_fields [simp]:
  "Capacity (loadBucket m k c t) = c" "LastMs (loadBucket m k c t) = t"
  by (simp_all add: loadBucket_stored)

lemma loadBucket_ok:
  assumes "axis_ok t m" "t \<le> now" "clock_ok now" "cap_ok c"
  shows "bucket_ok (loadBucket m k c now)"
  unfolding loadBucket_stored
  using Refill_caps stored_pre stored_last assms by blast

lemma loadBucket_refilled:
  assumes "axis_ok t m" "t \<le> now" "clock_ok now" "cap_ok c"
  shows "Refill (loadBucket m k c now) now = loadBucket m k c now"
  unfolding loadBucket_stored
  using Refill_idem stored_pre stored_last assms by blast

lemma loadBucket_other: "k' \<noteq> k \<Longrightarrow> loadBucket (saveBucket m k st) k' c t = loadBucket m k' c t"
  by (simp add: loadBucket_def saveBucket_def)

lemma loadBucket_saved:
  assumes "bucket_ok st" "LastMs st = t" "clock_ok t" "0 < Capacity st"
  shows "loadBucket (saveBucket m k st) k (Capacity st) t = st"
proof -
  have "stored (saveBucket m k st) k (Capacity st) = st"
    using assms by (cases st) (simp add: stored_def saveBucket_def clock_ok_def)
  then show ?thesis using Refill_same [of st t] assms by (simp add: loadBucket_stored)
qed

lemma axis_ok_mono: "axis_ok t m \<Longrightarrow> t \<le> t' \<Longrightarrow> axis_ok t' m"
  by (force simp: axis_ok_def)

lemma saveBucket_ok:
  assumes "axis_ok t m" "t \<le> now" "bucket_ok st" "LastMs st = now" "clock_ok now"
  shows "axis_ok now (saveBucket m k st)"
proof -
  note okD = bucket_okD [OF assms(3)]
  have "Tokens st \<le> of_int (2 ^ 53)" using okD(3,4) by (meson of_int_le_iff order_trans)
  then have "entry_ok \<lparr>bsTokens = Tokens st, bsLastMs = LastMs st\<rparr>"
    using okD assms(4,5) by (simp add: entry_ok_def clock_ok_def)
  then show ?thesis
    using axis_ok_mono [OF assms(1,2)] assms(4) by (simp add: axis_ok_def saveBucket_def)
qed

section \<open>What an operation may do to a bucket\<close>

text \<open>The effect on the map of one axis, for the bucket \<open>k\<close> with capacity \<open>c\<close> at time \<open>t\<close>,
  labelled with the amount it draws.\<close>

inductive axis_eff :: "string \<Rightarrow> int64 \<Rightarrow> int64 \<Rightarrow> int \<Rightarrow> buckets \<Rightarrow> buckets \<Rightarrow> bool"
  for k c t where
  keep: "axis_eff k c t 0 m m"
| refresh: "axis_eff k c t 0 m (saveBucket m k (loadBucket m k c t))"
| take: "0 \<le> n \<Longrightarrow> ResAllowed (snd (TryConsume (loadBucket m k c t) t n)) \<Longrightarrow>
    axis_eff k c t n m (saveBucket m k (fst (TryConsume (loadBucket m k c t) t n)))"
| give: "axis_eff k c t (- max 0 n) m (saveBucket m k (Credit (loadBucket m k c t) t n))"
| debit: "in64 n \<Longrightarrow> axis_eff k c t (fst (snd (DebitFloor (loadBucket m k c t) t n))) m
    (saveBucket m k (fst (DebitFloor (loadBucket m k c t) t n)))"

inductive_cases axis_effE: "axis_eff k c t d m m'"

lemma axis_eff_other: "axis_eff k c t d m m' \<Longrightarrow> k' \<noteq> k \<Longrightarrow> m' k' = m k'"
  by (auto elim!: axis_effE simp: saveBucket_def)

lemma axis_eff_saved:
  assumes eff: "axis_eff k c t d m m'" and m: "axis_ok t0 m" "t0 \<le> t" "clock_ok t" "cap_ok c"
  shows "m' = m \<and> d = 0 \<or> (\<exists>st. m' = saveBucket m k st \<and> bucket_ok st \<and> LastMs st = t \<and>
    Capacity st = c \<and> (0 < c \<longrightarrow> of_int d \<le> Tokens (loadBucket m k c t) - Tokens st + of_int c / 2 ^ 51))"
proof -
  let ?L = "loadBucket m k c t"
  have ok: "bucket_ok ?L" and r: "Refill ?L t = ?L"
    using loadBucket_ok loadBucket_refilled m by blast+
  have s: "of_int c / 2 ^ 52 \<le> (of_int c / 2 ^ 51 :: rat)" "0 \<le> (of_int c / 2 ^ 51 :: rat)"
    using m(4) by (simp_all add: cap_ok_def)
  show ?thesis
    using eff
  proof cases
    case take
    then show ?thesis
      using TryConsume_debit [OF ok m(3), of d] TryConsume_ok [OF ok m(3), of d] r s by fastforce
  next
    case (give n)
    then show ?thesis
      using Credit_gain [OF ok m(3), of n] Credit_ok [OF ok m(3), of n] r by fastforce
  next
    case (debit n)
    then show ?thesis
      using DebitFloor_debit [OF ok m(3), of n] DebitFloor_ok [OF ok m(3), of n] r by fastforce
  qed (use ok s in auto)
qed

lemma axis_eff_ok:
  assumes "axis_eff k c t d m m'" and "axis_ok t0 m" "t0 \<le> t" "clock_ok t" "cap_ok c"
  shows "axis_ok t m'"
  using axis_eff_saved [OF assms] axis_ok_mono saveBucket_ok assms by blast

section \<open>The store invariant\<close>

definition res_ok :: "reservation \<Rightarrow> bool" where
  "res_ok r \<longleftrightarrow> (\<forall>ax \<in> {Rpm, Tpm, Itpm, Otpm}.
     cap_ok (axis_rlimit ax r) \<and> 0 \<le> axis_reserved ax r \<and> axis_reserved ax r \<le> axis_rlimit ax r)"

text \<open>The store as of time \<open>t\<close>: no bucket was touched later than \<open>t\<close>.\<close>

definition store_ok :: "int64 \<Rightarrow> Store \<Rightarrow> bool" where
  "store_ok t s \<longleftrightarrow> (\<forall>ax \<in> {Rpm, Tpm, Itpm, Otpm}. axis_ok t (axis_map ax s)) \<and>
     (\<forall>rid r. sRes s rid = Some r \<longrightarrow> res_ok r)"

lemma res_okD:
  assumes "res_ok r"
  shows "cap_ok (axis_rlimit ax r)" "0 \<le> axis_reserved ax r" "axis_reserved ax r \<le> axis_rlimit ax r"
  using assms by (simp_all only: res_ok_def all_axes)

lemma store_okD:
  assumes "store_ok t s"
  shows "axis_ok t (axis_map ax s)" "sRes s rid = Some r \<Longrightarrow> res_ok r"
  using assms by (simp_all only: store_ok_def all_axes)

lemma store_okI:
  assumes "\<And>ax. axis_ok t (axis_map ax s)" "\<And>rid r. sRes s rid = Some r \<Longrightarrow> res_ok r"
  shows "store_ok t s"
  using assms by (simp add: store_ok_def all_axes)

lemma store_ok_mono: "store_ok t s \<Longrightarrow> t \<le> t' \<Longrightarrow> store_ok t' s"
  by (simp only: store_ok_def all_axes) (blast intro: axis_ok_mono)

lemma store_ok_New: "store_ok t mem_New"
proof (rule store_okI)
  show "axis_ok t (axis_map ax mem_New)" for ax by (cases ax) (simp_all add: mem_New_def axis_ok_def)
qed (simp add: mem_New_def)

section \<open>Operations\<close>

datatype store_op =
    DoCheck Key Limits Cost string
  | DoSettle string int64
  | DoSettleIO string int64 int64
  | DoRefund string
  | DoBorrow Key Limits BorrowSpec
  | DoReturn Key Limits int64 int64 int64 int64

fun exec :: "store_op \<Rightarrow> time \<Rightarrow> Store \<Rightarrow> Store" where
  "exec (DoCheck key limits cost rid) now s = snd (mem_Check s now key limits cost rid)"
| "exec (DoSettle rid a) now s = snd (mem_Settle s now rid a)"
| "exec (DoSettleIO rid a b) now s = snd (mem_SettleIO s now rid a b)"
| "exec (DoRefund rid) now s = snd (mem_Refund s now rid)"
| "exec (DoBorrow key limits spec) now s = snd (mem_Borrow s now key limits spec)"
| "exec (DoReturn key limits a b c d) now s = snd (mem_Return s now key limits a b c d)"

text \<open>Arguments in range: limits that a double represents exactly, and a reported usage
  below \<open>2 ^ 62\<close>.\<close>

fun op_ok :: "store_op \<Rightarrow> bool" where
  "op_ok (DoCheck key limits cost rid) = limits_ok limits"
| "op_ok (DoSettle rid a) = (a < 2 ^ 62)"
| "op_ok (DoSettleIO rid a b) = (a < 2 ^ 62 \<and> b < 2 ^ 62)"
| "op_ok (DoRefund rid) = True"
| "op_ok (DoBorrow key limits spec) = limits_ok limits"
| "op_ok (DoReturn key limits a b c d) = limits_ok limits"

text \<open>The bucket an operation is about, and the capacity it uses for it.\<close>

fun op_key :: "Store \<Rightarrow> time \<Rightarrow> store_op \<Rightarrow> string option" where
  "op_key s now (DoCheck key limits cost rid) = Some (bucketKey key)"
| "op_key s now (DoSettle rid a) = map_option res_key (pending s now rid)"
| "op_key s now (DoSettleIO rid a b) = map_option res_key (pending s now rid)"
| "op_key s now (DoRefund rid) = map_option res_key (pending s now rid)"
| "op_key s now (DoBorrow key limits spec) = Some (bucketKey key)"
| "op_key s now (DoReturn key limits a b c d) = Some (bucketKey key)"

fun op_cap :: "axis \<Rightarrow> Store \<Rightarrow> time \<Rightarrow> store_op \<Rightarrow> int64" where
  "op_cap ax s now (DoCheck key limits cost rid) = axis_limit ax limits"
| "op_cap ax s now (DoSettle rid a) = axis_rlimit ax (the (pending s now rid))"
| "op_cap ax s now (DoSettleIO rid a b) = axis_rlimit ax (the (pending s now rid))"
| "op_cap ax s now (DoRefund rid) = axis_rlimit ax (the (pending s now rid))"
| "op_cap ax s now (DoBorrow key limits spec) = axis_limit ax limits"
| "op_cap ax s now (DoReturn key limits a b c d) = axis_limit ax limits"

text \<open>What the caller of an operation gets charged on an axis, read off the answers: the
  cost of a granted check, the amount of a loan, what a settlement adds to the reservation
  and did not report as overshoot, and, negatively, what a refund or a return gives back.\<close>

fun op_draw :: "axis \<Rightarrow> Store \<Rightarrow> time \<Rightarrow> store_op \<Rightarrow> int" where
  "op_draw ax s now (DoCheck key limits cost rid) =
     (if granted (fst (mem_Check s now key limits cost rid)) \<and> active ax (Split limits)
      then max 0 (axis_cost ax cost) else 0)"
| "op_draw ax s now (DoSettle rid a) =
     (case (pending s now rid, fst (mem_Settle s now rid a)) of
        (Some r, Inr d) \<Rightarrow> if \<not> rSplit r \<and> ax = Tpm then max 0 a - rTpmReserved r - OvershootTPM d else 0
      | _ \<Rightarrow> 0)"
| "op_draw ax s now (DoSettleIO rid a b) =
     (case (pending s now rid, fst (mem_SettleIO s now rid a b)) of
        (Some r, Inr d) \<Rightarrow>
          if rSplit r \<and> ax = Itpm then max 0 a - rItpmReserved r - OvershootITPM d
          else if rSplit r \<and> ax = Otpm then max 0 b - rOtpmReserved r - OvershootOTPM d
          else 0
      | _ \<Rightarrow> 0)"
| "op_draw ax s now (DoRefund rid) =
     (case pending s now rid of
        Some r \<Rightarrow> if active ax (rSplit r) then - axis_reserved ax r else 0
      | None \<Rightarrow> 0)"
| "op_draw ax s now (DoBorrow key limits spec) =
     (case fst (mem_Borrow s now key limits spec) of Inr b \<Rightarrow> axis_got ax b | Inl _ \<Rightarrow> 0)"
| "op_draw ax s now (DoReturn key limits a b c d) =
     (if fst (mem_Return s now key limits a b c d) = None \<and> active ax (Split limits)
      then - max 0 (axis_pick ax a b c d) else 0)"

lemma settleAxis_cases:
  assumes "0 \<le> res" "res \<le> 2 ^ 53" "0 \<le> act" "act < 2 ^ 62"
  shows "settleAxis st t res act =
    (if act < res then (Credit st t (res - act), 0)
     else if res < act then (fst (DebitFloor st t (act - res)), snd (snd (DebitFloor st t (act - res))))
     else (st, 0))"
proof -
  have "i64_sub res act = res - act" "i64_neg (res - act) = act - res"
    using assms by (simp_all add: i64_exact in64_def)
  then show ?thesis by (simp add: settleAxis_def Let_def split: prod.splits)
qed

lemma settle_eff:
  assumes m: "axis_ok t0 m" "t0 \<le> t" "clock_ok t" "cap_ok c"
    and a: "0 \<le> res" "res \<le> 2 ^ 53" "0 \<le> act" "act < 2 ^ 62"
  shows "axis_eff k c t (act - res - snd (settleAxis (loadBucket m k c t) t res act)) m
    (saveBucket m k (fst (settleAxis (loadBucket m k c t) t res act)))"
proof -
  let ?L = "loadBucket m k c t"
  have ok: "bucket_ok ?L" using loadBucket_ok m by blast
  consider "act < res" | "res < act" | "act = res" by linarith
  then show ?thesis
  proof cases
    case 1
    then show ?thesis using axis_eff.give [of k c t "res - act" m] by (simp add: settleAxis_cases [OF a])
  next
    case 2
    then have d: "in64 (act - res)" "0 < act - res" "act - res < 2 ^ 62" using a by (simp_all add: in64_def)
    have "fst (snd (DebitFloor ?L t (act - res))) = act - res - snd (snd (DebitFloor ?L t (act - res)))"
      using DebitFloor_split(1) [OF ok m(3) d] by simp
    then show ?thesis using 2 axis_eff.debit [OF d(1), of k c t m] by (simp add: settleAxis_cases [OF a])
  next
    case 3
    then show ?thesis unfolding settleAxis_cases [OF a] using axis_eff.refresh [of k c t m] by simp
  qed
qed

text \<open>A loan is always covered by the bucket it comes from.\<close>

lemma borrow_eff:
  fixes chunk :: int64
  assumes m: "axis_ok t0 m" "t0 \<le> t" "clock_ok t" "cap_ok c"
    and n: "0 \<le> mn" "mn \<le> RemainingInt (Tokens (loadBucket m k c t))"
  defines "got \<equiv> wantGot (RemainingInt (Tokens (loadBucket m k c t))) mn chunk"
  shows "0 \<le> got" "ResAllowed (snd (TryConsume (loadBucket m k c t) t got))"
proof -
  let ?L = "loadBucket m k c t"
  have ok: "bucket_ok ?L" and r: "Refill ?L t = ?L" using loadBucket_ok loadBucket_refilled m by blast+
  note ft = floor_tokens [OF ok]
  show g: "0 \<le> got" using n by (simp add: got_def wantGot_def Let_def)
  have le: "got \<le> \<lfloor>Tokens ?L\<rfloor>" using n ft(3) by (simp add: got_def wantGot_def Let_def)
  then have "of_int got \<le> Tokens ?L" by (simp add: le_floor_iff)
  then have "of_int (max 0 got) \<le> Tokens (Refill ?L t) + f64_eps"
    using g f64_eps_pos by (simp add: r max_def)
  moreover have "max 0 got \<le> Capacity ?L" using g le ft(2) by simp
  ultimately show "ResAllowed (snd (TryConsume ?L t got))"
    by (intro TryConsume_complete ok m)
qed

lemma pending_res_ok: "store_ok t s \<Longrightarrow> pending s now rid = Some r \<Longrightarrow> res_ok r"
  using store_okD(2) by (auto simp: pending_def split: option.splits if_splits)

lemma pending_amounts:
  assumes "store_ok t s" "pending s now rid = Some r"
  shows "cap_ok (axis_rlimit ax r)" "0 \<le> axis_reserved ax r" "axis_reserved ax r \<le> 2 ^ 53"
proof -
  note D = res_okD [OF pending_res_ok [OF assms], of ax]
  show "cap_ok (axis_rlimit ax r)" "0 \<le> axis_reserved ax r" by (rule D)+
  show "axis_reserved ax r \<le> 2 ^ 53" using D by (simp add: cap_ok_def)
qed

text \<open>Every operation has one of the effects of \<open>axis_eff\<close> on each axis, and draws what
  \<open>op_draw\<close> reads off its answer.\<close>

abbreviation has_effect :: "axis \<Rightarrow> Store \<Rightarrow> time \<Rightarrow> store_op \<Rightarrow> bool" where
  "has_effect ax s now opn \<equiv>
     op_key s now opn = None \<and> axis_map ax (exec opn now s) = axis_map ax s \<and> op_draw ax s now opn = 0 \<or>
     (\<exists>k. op_key s now opn = Some k \<and> cap_ok (op_cap ax s now opn) \<and>
        axis_eff k (op_cap ax s now opn) (ms_of_time now) (op_draw ax s now opn)
          (axis_map ax s) (axis_map ax (exec opn now s)))"

lemma borrow_effect:
  assumes ok: "store_ok t0 s" and t: "t0 \<le> ms_of_time now" "clock_ok (ms_of_time now)"
    and op: "op_ok opn"
    and opn: "opn = DoBorrow key limits spec"
  shows "has_effect ax s now opn"
proof -
  have "axis_eff (bucketKey key) (axis_limit ax limits) (ms_of_time now) (op_draw ax s now opn)
      (axis_map ax s) (axis_map ax (exec opn now s))"
  proof (cases "fst (mem_Borrow s now key limits spec)")
    case (Inl e)
    then show ?thesis by (simp add: opn mem_Borrow_axis axis_eff.keep)
  next
    case (Inr b)
    have cap: "cap_ok (axis_limit ax limits)" using op limits_okD by (simp add: opn)
    consider "\<not> BrAllowed b" | "BrAllowed b" "\<not> active ax (Split limits)"
      | "BrAllowed b" "active ax (Split limits)" by blast
    then show ?thesis
    proof cases
      case 3
      note b = borrow_eff [OF store_okD(1) [OF ok] t cap _ mem_Borrow_got(2) [OF Inr 3]]
      show ?thesis
        using b axis_eff.take 3 mem_Borrow_got(1) [OF Inr 3(1), of ax] Inr
        by (simp add: opn mem_Borrow_axis)
    qed (use Inr mem_Borrow_got(1,3) [OF Inr, of ax] axis_eff.keep in \<open>simp_all add: opn mem_Borrow_axis\<close>)
  qed
  then show ?thesis using op limits_okD by (simp add: opn)
qed

lemma settle_effect:
  assumes ok: "store_ok t0 s" and t: "t0 \<le> ms_of_time now" "clock_ok (ms_of_time now)"
    and op: "op_ok opn"
    and opn: "opn = DoSettle rid a"
  shows "has_effect ax s now opn"
proof -
  show ?thesis
  proof (cases "pending s now rid")
    case (Some r)
    note D = pending_amounts [OF ok Some, of ax]
    have a: "0 \<le> max 0 a" "max 0 a < 2 ^ 62" using op by (simp_all add: opn)
    show ?thesis
    proof (cases "\<not> rSplit r \<and> ax = Tpm")
      case True
      with mem_Settle_over [OF Some, of a] obtain d where "fst (mem_Settle s now rid a) = Inr d"
        "OvershootTPM d = snd (settleAxis (axis_load Tpm s (res_key r) (rLimitTPM r) (ms_of_time now))
                    (ms_of_time now) (rTpmReserved r) (max 0 a))" by blast
      then show ?thesis
        using settle_eff [OF store_okD(1) [OF ok, of ax] t D a, of "res_key r"] D(1) True Some
        by (simp add: opn mem_Settle_axis)
    next
      case False
      then show ?thesis using D(1) Some axis_eff.keep
        by (auto simp: opn mem_Settle_axis split: sum.splits)
    qed
  qed (simp add: opn mem_Settle_axis)
qed

lemma settle_io_effect:
  assumes ok: "store_ok t0 s" and t: "t0 \<le> ms_of_time now" "clock_ok (ms_of_time now)"
    and op: "op_ok opn"
    and opn: "opn = DoSettleIO rid a b"
  shows "has_effect ax s now opn"
proof -
  show ?thesis
  proof (cases "pending s now rid")
    case (Some r)
    note D = pending_amounts [OF ok Some, of ax]
    let ?x = "max 0 (axis_pick ax 0 0 a b)"
    have a: "0 \<le> ?x" "?x < 2 ^ 62" using op by (cases ax; simp add: opn)+
    show ?thesis
    proof (cases "rSplit r \<and> (ax = Itpm \<or> ax = Otpm)")
      case True
      with mem_SettleIO_over [OF Some, of a b] obtain d where "fst (mem_SettleIO s now rid a b) = Inr d"
        "OvershootITPM d = snd (settleAxis (axis_load Itpm s (res_key r) (rLimitITPM r) (ms_of_time now))
                    (ms_of_time now) (rItpmReserved r) (max 0 a))"
        "OvershootOTPM d = snd (settleAxis (axis_load Otpm s (res_key r) (rLimitOTPM r) (ms_of_time now))
                    (ms_of_time now) (rOtpmReserved r) (max 0 b))" by blast
      then show ?thesis
        using settle_eff [OF store_okD(1) [OF ok, of ax] t D a, of "res_key r"] D(1) True Some
        by (auto simp: opn mem_SettleIO_axis)
    next
      case False
      then show ?thesis using D(1) Some axis_eff.keep
        by (auto simp: opn mem_SettleIO_axis split: sum.splits)
    qed
  qed (simp add: opn mem_SettleIO_axis)
qed

lemma exec_eff:
  assumes ok: "store_ok t0 s" and t: "t0 \<le> ms_of_time now" "clock_ok (ms_of_time now)"
    and op: "op_ok opn"
  shows "has_effect ax s now opn"
proof (cases opn)
  case (DoCheck key limits cost rid)
  have "axis_eff (bucketKey key) (axis_limit ax limits) (ms_of_time now) (op_draw ax s now opn)
      (axis_map ax s) (axis_map ax (exec opn now s))"
    using mem_Check_granted_axis [of s now key limits cost rid ax] axis_eff.keep
      axis_eff.take [of "max 0 (axis_cost ax cost)"]
    by (auto simp: DoCheck mem_Check_axis)
  then show ?thesis using op limits_okD by (simp add: DoCheck)
next
  case (DoBorrow key limits spec)
  show ?thesis by (rule borrow_effect [OF assms DoBorrow])
next
  case (DoReturn key limits a b c d)
  have "axis_eff (bucketKey key) (axis_limit ax limits) (ms_of_time now) (op_draw ax s now opn)
      (axis_map ax s) (axis_map ax (exec opn now s))"
    using axis_eff.keep axis_eff.give
    by (cases ax) (auto simp: DoReturn mem_Return_axis)
  then show ?thesis using op limits_okD by (simp add: DoReturn)
next
  case (DoRefund rid)
  show ?thesis
  proof (cases "pending s now rid")
    case (Some r)
    note D = pending_amounts [OF ok Some, of ax]
    show ?thesis
      using D Some axis_eff.keep
        axis_eff.give [of "res_key r" "axis_rlimit ax r" "ms_of_time now" "axis_reserved ax r" "axis_map ax s"]
      by (auto simp: DoRefund mem_Refund_axis)
  qed (simp add: DoRefund mem_Refund_axis)
next
  case (DoSettle rid a)
  show ?thesis by (rule settle_effect [OF assms DoSettle])
next
  case (DoSettleIO rid a b)
  show ?thesis by (rule settle_io_effect [OF assms DoSettleIO])
qed

lemma exec_axis_ok:
  assumes "store_ok t0 s" "t0 \<le> ms_of_time now" "clock_ok (ms_of_time now)" "op_ok opn"
  shows "axis_ok (ms_of_time now) (axis_map ax (exec opn now s))"
  using exec_eff [OF assms, of ax] axis_eff_ok store_okD(1) [OF assms(1)] axis_ok_mono assms(2,3) by metis

lemma purgeExpired_res_le: "sRes (purgeExpired s now) rid = Some r \<Longrightarrow> sRes s rid = Some r"
  by (simp add: purgeExpired_res)

lemma new_reservation_ok:
  assumes "limits_ok limits" "granted (fst (mem_Check s now key limits cost rid))"
  shows "res_ok (new_reservation key limits cost now)"
proof -
  have "cap_ok 0" by (simp add: cap_ok_def)
  then have "cap_ok (axis_rlimit ax (new_reservation key limits cost now)) \<and>
      0 \<le> axis_reserved ax (new_reservation key limits cost now) \<and>
      axis_reserved ax (new_reservation key limits cost now)
        \<le> axis_rlimit ax (new_reservation key limits cost now)" for ax
    using limits_okD [OF assms(1), of ax] mem_Check_granted_axis [OF assms(2), of ax]
    by (cases "active ax (Split limits)") (simp_all add: new_reservation_axis TryConsume_allowed_iff)
  then show ?thesis by (simp add: res_ok_def)
qed

text \<open>A reservation that an operation has finished.\<close>

definition finish :: "reservation \<Rightarrow> status \<Rightarrow> Decision \<Rightarrow> time \<Rightarrow> reservation" where
  "finish r st d now = r\<lparr>rStatus := st, rLastDecision := d, rExpiresAt := time_add now ReservationTTL\<rparr>"

lemma finish_simps [simp]:
  "rStatus (finish r st d now) = st" "rSplit (finish r st d now) = rSplit r"
  "res_key (finish r st d now) = res_key r" "rLastDecision (finish r st d now) = d"
  "rExpiresAt (finish r st d now) = time_add now ReservationTTL"
  "axis_reserved ax (finish r st d now) = axis_reserved ax r"
  "axis_rlimit ax (finish r st d now) = axis_rlimit ax r"
  by (simp_all add: finish_def res_key_def) (cases ax; simp)+

lemma res_ok_finish [simp]: "res_ok (finish r st d now) = res_ok r"
  by (simp add: res_ok_def)

inductive finished :: "reservation \<Rightarrow> time \<Rightarrow> reservation \<Rightarrow> bool" where
  "st \<noteq> Pending \<Longrightarrow> finished r now (finish r st d now)"

lemma exec_res_cases:
  assumes r': "sRes (exec opn now s) rid' = Some r'"
  shows "sRes s rid' = Some r' \<or>
    (\<exists>key limits cost. opn = DoCheck key limits cost rid' \<and> r' = new_reservation key limits cost now \<and>
       granted (fst (mem_Check s now key limits cost rid'))) \<or>
    (\<exists>r. pending s now rid' = Some r \<and> finished r now r')" (is "_ \<or> _ \<or> ?fin")
proof -
  have upd: "sRes s rid' = Some r' \<or> ?fin" if "pending s now rid = Some r" "st \<noteq> Pending"
    "sRes (exec opn now s) = (sRes (purgeExpired s now))(rid \<mapsto> finish r st d now)" for rid r st d
    using that r' purgeExpired_res_le [of s now] finished.intros [OF that(2), of r now d] by (cases "rid' = rid") auto
  have keep: "sRes s rid' = Some r'" if "sRes (exec opn now s) = sRes (purgeExpired s now)"
    using that r' purgeExpired_res_le [of s now] by simp
  show ?thesis
  proof (cases opn)
    case (DoRefund rid)
    then show ?thesis
      using upd [of rid "the (pending s now rid)" Refunded "rLastDecision (the (pending s now rid))"] keep
      by (cases "pending s now rid") (simp_all add: mem_Refund_res finish_def)
  next
    case (DoSettle rid a)
    then show ?thesis
      using upd [of rid "the (pending s now rid)" Settled "projr (fst (mem_Settle s now rid a))"] keep
      by (cases "pending s now rid"; cases "rSplit (the (pending s now rid))") (simp_all add: mem_Settle_res finish_def)
  next
    case (DoSettleIO rid a b)
    then show ?thesis
      using upd [of rid "the (pending s now rid)" Settled "projr (fst (mem_SettleIO s now rid a b))"] keep
      by (cases "pending s now rid"; cases "rSplit (the (pending s now rid))") (simp_all add: mem_SettleIO_res finish_def)
  qed (use r' purgeExpired_res_le [of s now] in \<open>auto simp: mem_Check_res split: if_splits\<close>)
qed

lemma exec_store_ok:
  assumes "store_ok t0 s" "t0 \<le> ms_of_time now" "clock_ok (ms_of_time now)" "op_ok opn"
  shows "store_ok (ms_of_time now) (exec opn now s)"
proof (rule store_okI)
  show "axis_ok (ms_of_time now) (axis_map ax (exec opn now s))" for ax
    using exec_axis_ok assms by blast
next
  fix rid r assume "sRes (exec opn now s) rid = Some r"
  from exec_res_cases [OF this] show "res_ok r"
    using store_okD(2) [OF assms(1)] pending_res_ok [OF assms(1)] new_reservation_ok assms(4)
    by (auto elim: finished.cases)
qed

section \<open>The metering interface on the store\<close>

text \<open>The axes an operation works on.\<close>

fun op_split :: "Store \<Rightarrow> time \<Rightarrow> store_op \<Rightarrow> bool" where
  "op_split s now (DoCheck key limits cost rid) = Split limits"
| "op_split s now (DoSettle rid a) = rSplit (the (pending s now rid))"
| "op_split s now (DoSettleIO rid a b) = rSplit (the (pending s now rid))"
| "op_split s now (DoRefund rid) = rSplit (the (pending s now rid))"
| "op_split s now (DoBorrow key limits spec) = Split limits"
| "op_split s now (DoReturn key limits a b c d) = Split limits"

lemma exec_inactive:
  assumes "\<not> active ax (op_split s now opn)" "op_key s now opn = Some k"
  shows "axis_map ax (exec opn now s) = axis_map ax s" "op_draw ax s now opn = 0"
proof -
  have b: "axis_got ax b = 0" if "fst (mem_Borrow s now key limits spec) = Inr b" "\<not> active ax (Split limits)"
    for b key limits spec using that mem_Borrow_got(1,3) [OF that(1), of ax] by (cases "BrAllowed b") simp_all
  show "axis_map ax (exec opn now s) = axis_map ax s" "op_draw ax s now opn = 0"
    using assms b
    by (cases opn; cases ax; fastforce simp: mem_Check_axis mem_Borrow_axis mem_Return_axis mem_Refund_axis
        mem_Settle_axis mem_SettleIO_axis split: option.splits sum.splits)+
qed

end
