(* ===== verification/Memory_Rate.thy ===== *)
theory Memory_Rate
  imports Memory_Invariant
begin

text \<open>
  The in-memory store as a metered resource: for every axis, key and capacity the
  interface \<open>metered\<close> is interpreted on the store's own operations, and its bound becomes
  the rate limit the program enforces.
\<close>

text \<open>An operation that uses the capacity \<open>c\<close> whenever it works on the bucket \<open>k\<close>.\<close>

fun uses_cap :: "axis \<Rightarrow> string \<Rightarrow> int64 \<Rightarrow> store_op \<Rightarrow> bool" where
  "uses_cap ax k c (DoCheck key limits cost rid) =
     (bucketKey key = k \<and> active ax (Split limits) \<longrightarrow> axis_limit ax limits = c)"
| "uses_cap ax k c (DoBorrow key limits spec) =
     (bucketKey key = k \<and> active ax (Split limits) \<longrightarrow> axis_limit ax limits = c)"
| "uses_cap ax k c (DoReturn key limits a b d e) =
     (bucketKey key = k \<and> active ax (Split limits) \<longrightarrow> axis_limit ax limits = c)"
| "uses_cap ax k c opn = True"

definition meter_inv :: "axis \<Rightarrow> string \<Rightarrow> int64 \<Rightarrow> int64 \<Rightarrow> Store \<Rightarrow> bool" where
  "meter_inv ax k c t s \<longleftrightarrow> store_ok t s \<and> 0 < c \<and> c \<le> 2 ^ 53 \<and>
     (\<forall>b. axis_map ax s k = Some b \<longrightarrow> bsTokens b \<le> of_int c) \<and>
     (\<forall>rid r. sRes s rid = Some r \<longrightarrow> res_key r = k \<longrightarrow> active ax (rSplit r) \<longrightarrow> axis_rlimit ax r = c)"

definition meter_avail :: "axis \<Rightarrow> string \<Rightarrow> int64 \<Rightarrow> Store \<Rightarrow> int64 \<Rightarrow> rat" where
  "meter_avail ax k c s t = Tokens (axis_load ax s k c t)"

definition draw_on :: "axis \<Rightarrow> string \<Rightarrow> Store \<Rightarrow> time \<Rightarrow> store_op \<Rightarrow> int" where
  "draw_on ax k s now opn = (if op_key s now opn = Some k then op_draw ax s now opn else 0)"

definition meter_step :: "axis \<Rightarrow> string \<Rightarrow> int64 \<Rightarrow> int \<Rightarrow> int \<Rightarrow> Store \<Rightarrow> Store \<Rightarrow> bool" where
  "meter_step ax k c t d s s' \<longleftrightarrow> (\<exists>now opn. ms_of_time now = t \<and> op_ok opn \<and> uses_cap ax k c opn \<and>
     s' = exec opn now s \<and> d = draw_on ax k s now opn)"

definition meter_gain :: "int64 \<Rightarrow> int \<Rightarrow> rat" where
  "meter_gain c d = earned c d * (1 + 6 / 2 ^ 53)"

definition meter_slack :: "int64 \<Rightarrow> rat" where
  "meter_slack c = of_int c / 2 ^ 46"

text \<open>The operations of a run one after the other, and the total they draw.\<close>

fun run_ops :: "(time \<times> store_op) list \<Rightarrow> Store \<Rightarrow> Store" where
  "run_ops [] s = s"
| "run_ops ((now, opn) # ops) s = run_ops ops (exec opn now s)"

fun drawn :: "axis \<Rightarrow> string \<Rightarrow> (time \<times> store_op) list \<Rightarrow> Store \<Rightarrow> int" where
  "drawn ax k [] s = 0"
| "drawn ax k ((now, opn) # ops) s = draw_on ax k s now opn + drawn ax k ops (exec opn now s)"

section \<open>The laws\<close>

lemma meter_invD:
  assumes "meter_inv ax k c t s"
  shows "store_ok t s" "0 < c" "cap_ok c" "axis_map ax s k = Some b \<Longrightarrow> bsTokens b \<le> of_int c"
    "sRes s rid = Some r \<Longrightarrow> res_key r = k \<Longrightarrow> active ax (rSplit r) \<Longrightarrow> axis_rlimit ax r = c"
  using assms by (auto simp: meter_inv_def cap_ok_def)

lemma meter_load_ok:
  assumes "meter_inv ax k c t0 s" "t0 \<le> t" "clock_ok t"
  shows "bucket_ok (axis_load ax s k c t)"
  using loadBucket_ok store_okD(1) meter_invD(1,3) assms by metis

lemma load_later:
  assumes aok: "axis_ok t0 m" and c: "0 < c" "cap_ok c" and cap: "\<And>b. m k = Some b \<Longrightarrow> bsTokens b \<le> of_int c"
    and t: "t0 \<le> t" "t \<le> t'" "clock_ok t" "clock_ok t'"
  shows "Tokens (loadBucket m k c t') \<le> Tokens (loadBucket m k c t) + meter_gain c (t' - t) + meter_slack c"
proof -
  let ?st = "stored m k c"
  have g: "0 \<le> meter_gain c (t' - t) + meter_slack c"
    using c t by (simp add: meter_gain_def meter_slack_def earned_nonneg)
  show ?thesis
  proof (cases "LastMs ?st = 0")
    case True
    then have "Tokens (Refill ?st t') = Tokens (Refill ?st t)" by (simp add: Refill_def)
    then show ?thesis using g by (simp add: loadBucket_stored)
  next
    case False
    have l: "LastMs ?st \<le> t" by (rule stored_last [OF aok t(1,3)])
    have "Tokens ?st \<le> of_int c"
      using False c(1) cap by (auto simp: stored_def split: option.splits if_splits)
    then have ok: "bucket_ok ?st"
      using stored_pre [OF aok c(2)] by (simp add: bucket_ok_def bucket_pre_def)
    have "0 < LastMs ?st" using False bucket_okD(5) [OF ok] by simp
    then show ?thesis
      using Refill_step [OF ok _ _ l t(2-4)] c(1) by (simp add: loadBucket_stored meter_gain_def meter_slack_def)
  qed
qed

lemma meter_later:
  assumes inv: "meter_inv ax k c t0 s" and t: "t0 \<le> t" "t \<le> t'" "clock_ok t" "clock_ok t'"
  shows "meter_avail ax k c s t' \<le> meter_avail ax k c s t + meter_gain c (t' - t) + meter_slack c"
  unfolding meter_avail_def
  using load_later [OF store_okD(1) [OF meter_invD(1) [OF inv]] meter_invD(2,3) [OF inv] _ t] meter_invD(4) [OF inv] by blast

lemma meter_op_cap:
  assumes inv: "meter_inv ax k c t0 s" and u: "uses_cap ax k c opn"
    and k: "op_key s now opn = Some k" and a: "active ax (op_split s now opn)"
  shows "op_cap ax s now opn = c"
proof -
  have p: "axis_rlimit ax r = c" if "pending s now rid = Some r" "res_key r = k" "active ax (rSplit r)" for rid r
    using that meter_invD(5) [OF inv] by (auto simp: pending_def split: option.splits if_splits)
  show ?thesis using u k a p by (cases opn) auto
qed

lemma meter_eff:
  assumes inv: "meter_inv ax k c t0 s" and t: "t0 \<le> ms_of_time now" "clock_ok (ms_of_time now)"
    and op: "op_ok opn" "uses_cap ax k c opn"
  shows "axis_map ax (exec opn now s) k = axis_map ax s k \<and> draw_on ax k s now opn = 0 \<or>
    axis_eff k c (ms_of_time now) (draw_on ax k s now opn) (axis_map ax s) (axis_map ax (exec opn now s))"
proof -
  note e = exec_eff [OF meter_invD(1) [OF inv] t op(1), of ax]
  consider "op_key s now opn = None" | k' where "op_key s now opn = Some k'" "k' \<noteq> k"
    | "op_key s now opn = Some k" "\<not> active ax (op_split s now opn)"
    | "op_key s now opn = Some k" "active ax (op_split s now opn)"
    by (cases "op_key s now opn") auto
  then show ?thesis
  proof cases
    case 2
    then show ?thesis using e axis_eff_other by (fastforce simp: draw_on_def)
  next
    case 4
    then show ?thesis using e meter_op_cap [OF inv op(2)] by (simp add: draw_on_def)
  qed (use e exec_inactive in \<open>simp_all add: draw_on_def\<close>)
qed

lemma meter_saved:
  assumes inv: "meter_inv ax k c t0 s" and t: "t0 \<le> ms_of_time now" "clock_ok (ms_of_time now)"
    and op: "op_ok opn" "uses_cap ax k c opn"
  shows "axis_map ax (exec opn now s) k = axis_map ax s k \<and> draw_on ax k s now opn = 0 \<or>
    (\<exists>st. axis_map ax (exec opn now s) = saveBucket (axis_map ax s) k st \<and> bucket_ok st \<and>
       LastMs st = ms_of_time now \<and> Capacity st = c \<and>
       of_int (draw_on ax k s now opn) \<le>
         meter_avail ax k c s (ms_of_time now) - Tokens st + of_int c / 2 ^ 51)"
  using meter_eff [OF assms] axis_eff_saved [OF _ store_okD(1) [OF meter_invD(1) [OF inv]] t meter_invD(3) [OF inv]]
    meter_invD(2) [OF inv] unfolding meter_avail_def by metis

lemma meter_exec_inv:
  assumes inv: "meter_inv ax k c t0 s" and t: "t0 \<le> ms_of_time now" "clock_ok (ms_of_time now)"
    and op: "op_ok opn" "uses_cap ax k c opn"
  shows "meter_inv ax k c (ms_of_time now) (exec opn now s)"
  unfolding meter_inv_def
proof (intro conjI allI impI)
  note D = meter_invD [OF inv]
  show "store_ok (ms_of_time now) (exec opn now s)" using exec_store_ok D(1) t op(1) by blast
  show "0 < c" "c \<le> 2 ^ 53" using D(2,3) by (simp_all add: cap_ok_def)
  show "bsTokens b \<le> of_int c" if "axis_map ax (exec opn now s) k = Some b" for b
    using meter_saved [OF assms] that D(4) bucket_okD(3) by (fastforce simp: saveBucket_def)
  show "axis_rlimit ax r = c"
    if r: "sRes (exec opn now s) rid = Some r" and k: "res_key r = k" "active ax (rSplit r)" for rid r
    using exec_res_cases [OF r] k D(5) op(2)
    by (auto elim!: finished.cases simp: new_reservation_axis pending_def split: option.splits if_splits)
qed

lemma meter_exec_draw:
  assumes inv: "meter_inv ax k c t0 s" and t: "t0 \<le> ms_of_time now" "clock_ok (ms_of_time now)"
    and op: "op_ok opn" "uses_cap ax k c opn"
  shows "of_int (draw_on ax k s now opn) \<le>
    meter_avail ax k c s (ms_of_time now) - meter_avail ax k c (exec opn now s) (ms_of_time now) + meter_slack c"
proof -
  note D = meter_invD [OF inv]
  have s: "0 \<le> (of_int c / 2 ^ 46 :: rat)" "(of_int c / 2 ^ 51 :: rat) \<le> of_int c / 2 ^ 46"
    using D(2) by simp_all
  from meter_saved [OF assms] show ?thesis
  proof (elim disjE conjE exE)
    assume "axis_map ax (exec opn now s) k = axis_map ax s k" "draw_on ax k s now opn = 0"
    then show ?thesis using s(1) by (simp add: meter_avail_def loadBucket_def meter_slack_def)
  next
    fix st
    assume st: "axis_map ax (exec opn now s) = saveBucket (axis_map ax s) k st" "bucket_ok st"
      "LastMs st = ms_of_time now" "Capacity st = c"
      "of_int (draw_on ax k s now opn) \<le>
         meter_avail ax k c s (ms_of_time now) - Tokens st + of_int c / 2 ^ 51"
    have "meter_avail ax k c (exec opn now s) (ms_of_time now) = Tokens st"
      using loadBucket_saved [OF st(2,3) t(2)] st(1,4) D(2) by (simp add: meter_avail_def)
    then show ?thesis using st(5) s(2) unfolding meter_slack_def by linarith
  qed
qed

interpretation mem: metered clock_ok "meter_inv ax k c" "meter_avail ax k c" "meter_step ax k c" "meter_gain c"
  "of_int c" "- (2 * f64_eps)" "meter_slack c" for ax k c
proof unfold_locales
  fix t0 t :: int and s
  assume inv: "meter_inv ax k c t0 s" and t: "t0 \<le> t" "clock_ok t"
  note ok = bucket_okD [OF meter_load_ok [OF inv t]]
  show "meter_avail ax k c s t \<le> of_int c" "- (2 * f64_eps) \<le> meter_avail ax k c s t"
    using ok(2,3) by (simp_all add: meter_avail_def)
  fix d s' assume st: "meter_step ax k c t d s s'"
  then show "meter_inv ax k c t s'" "of_int d \<le> meter_avail ax k c s t - meter_avail ax k c s' t + meter_slack c"
    using meter_exec_inv [OF inv] meter_exec_draw [OF inv] t by (auto simp: meter_step_def)
qed (rule meter_later, assumption+, simp add: meter_gain_def earned_add ring_distribs)

section \<open>Runs\<close>

fun run_labels :: "axis \<Rightarrow> string \<Rightarrow> (time \<times> store_op) list \<Rightarrow> Store \<Rightarrow> (int \<times> int) list" where
  "run_labels ax k [] s = []"
| "run_labels ax k ((now, opn) # ops) s =
     (ms_of_time now, draw_on ax k s now opn) # run_labels ax k ops (exec opn now s)"

lemma run_labels_fst: "map fst (run_labels ax k ops s) = map (ms_of_time \<circ> fst) ops"
  by (induction ops arbitrary: s) auto

lemma run_labels_snd: "sum_list (map snd (run_labels ax k ops s)) = drawn ax k ops s"
  by (induction ops arbitrary: s) auto

lemma run_labels_length: "length (run_labels ax k ops s) = length ops"
  by (induction ops arbitrary: s) auto

lemma run_labels_run:
  assumes "\<forall>(now, opn) \<in> set ops. op_ok opn \<and> uses_cap ax k c opn"
  shows "mem.run ax k c (run_labels ax k ops s) s (run_ops ops s)"
  using assms
proof (induction ops arbitrary: s)
  case (Cons a ops)
  then have "meter_step ax k c (ms_of_time (fst a)) (draw_on ax k s (fst a) (snd a)) s (exec (snd a) (fst a) s)"
    unfolding meter_step_def by (intro exI [of _ "fst a"] exI [of _ "snd a"]) auto
  then show ?case using Cons mem.run.run_step by (cases a) simp
qed (simp add: mem.run.run_nil)

lemma drawn_bounded:
  assumes inv: "meter_inv ax k c t0 s" and t0: "clock_ok t0"
    and times: "sorted (t0 # map (ms_of_time \<circ> fst) ops)"
    and ops: "\<forall>(now, opn) \<in> set ops. clock_ok (ms_of_time now) \<and> op_ok opn \<and> uses_cap ax k c opn"
  shows "of_int (drawn ax k ops s) \<le> of_int c + 2 * f64_eps +
    meter_gain c (last (t0 # map (ms_of_time \<circ> fst) ops) - t0) + 2 * of_nat (length ops) * meter_slack c"
proof -
  have "mem.run ax k c (run_labels ax k ops s) s (run_ops ops s)"
    using ops by (intro run_labels_run) auto
  moreover have "\<forall>t \<in> fst ` set (run_labels ax k ops s). clock_ok t"
    using ops unfolding list.set_map [symmetric] run_labels_fst by auto
  ultimately show ?thesis
    using mem.run_draw_bounded [of ax k c "run_labels ax k ops s" s "run_ops ops s", OF _ inv t0] times
    by (simp only: run_labels_fst run_labels_snd run_labels_length) simp
qed

lemma meter_slacks: "2 * of_nat n * meter_slack c = of_nat n * (of_int c / 2 ^ 45)"
  by (simp add: meter_slack_def)

text \<open>
  C1 (the rate limit). Take any sequence of checks, settlements, refunds, loans and returns
  on the in-memory store, at instants that do not go backwards, in which bucket \<open>k\<close> is
  always used with the same capacity \<open>c\<close>. On every axis, what the callers were charged on
  that bucket, minus what they gave back, is at most one full bucket plus what the bucket
  earns at \<open>c\<close> per minute over the elapsed time, plus the tolerance of the comparison and
  the roundings of the floating-point arithmetic.
\<close>

theorem rate_bound:
  assumes inv: "meter_inv ax k c t0 s" and t0: "clock_ok t0"
    and times: "sorted (t0 # map (ms_of_time \<circ> fst) ops)"
    and ops: "\<forall>(now, opn) \<in> set ops. clock_ok (ms_of_time now) \<and> op_ok opn \<and> uses_cap ax k c opn"
  shows "of_int (drawn ax k ops s) \<le>
    of_int c + earned c (last (t0 # map (ms_of_time \<circ> fst) ops) - t0) * (1 + 6 / 2 ^ 53)
    + 2 * f64_eps + of_nat (length ops) * (of_int c / 2 ^ 45)"
  using drawn_bounded [OF assms] unfolding meter_slacks meter_gain_def by linarith

text \<open>
  C18 (the store invariant). From a well-formed store, any sequence of operations with
  arguments in range, at instants that do not go backwards, leads to a well-formed store:
  every token count is a double between \<open>- 2 \<epsilon>\<close> and \<open>2 ^ 53\<close>, no bucket is stamped in the
  future, and every reservation holds at most its limit.
\<close>

theorem store_invariant:
  assumes "store_ok t0 s" and "sorted (t0 # map (ms_of_time \<circ> fst) ops)"
    and "\<forall>(now, opn) \<in> set ops. clock_ok (ms_of_time now) \<and> op_ok opn"
  shows "store_ok (last (t0 # map (ms_of_time \<circ> fst) ops)) (run_ops ops s)"
  using assms
proof (induction ops arbitrary: t0 s)
  case (Cons a ops)
  obtain now opn where a: "a = (now, opn)" by (cases a)
  have "store_ok (ms_of_time now) (exec opn now s)"
    using Cons.prems by (intro exec_store_ok) (auto simp: a)
  then show ?case using Cons.IH [of "ms_of_time now"] Cons.prems by (simp add: a)
qed simp

text \<open>
  Two keys are apart when they differ in the subject or in the model, where no model counts as \<open>-\<close>. Subjects do
  not contain a NUL byte: with one, different keys can share their buckets (theorem \<open>key_collision\<close>).
\<close>

definition model_of :: "Key \<Rightarrow> string" where
  "model_of key = (if Model key = '''' then ''-'' else Model key)"

definition apart :: "Key \<Rightarrow> Key \<Rightarrow> bool" where
  "apart key key' \<longleftrightarrow> NUL \<notin> set (Subject key) \<and> NUL \<notin> set (Subject key') \<and>
     (Subject key \<noteq> Subject key' \<or> model_of key \<noteq> model_of key')"

definition holder :: "reservation \<Rightarrow> Key" where
  "holder r = \<lparr>Subject = rSubject r, Model = rModel r\<rparr>"

text \<open>The key an operation names; a settlement or a refund names a reservation instead.\<close>

fun names_key :: "store_op \<Rightarrow> Key option" where
  "names_key (DoCheck key limits cost rid) = Some key"
| "names_key (DoBorrow key limits spec) = Some key"
| "names_key (DoReturn key limits a b c d) = Some key"
| "names_key opn = None"

lemma apart_bucketKey:
  assumes "apart key key'"
  shows "bucketKey key \<noteq> bucketKey key'"
proof
  assume e: "bucketKey key = bucketKey key'"
  have b: "bucketKey k = Subject k @ NUL # model_of k" for k by (simp add: bucketKey_def model_of_def)
  have s: "takeWhile (\<lambda>c. c \<noteq> NUL) (bucketKey k) = Subject k" if "NUL \<notin> set (Subject k)" for k
    using that by (simp add: b takeWhile_append)
  have "Subject key = Subject key'" using s assms e by (metis apart_def)
  moreover from this have "model_of key = model_of key'" using e by (simp add: b)
  ultimately show False using assms by (simp add: apart_def)
qed

lemma op_key_named:
  assumes "op_key s now opn = Some k"
  shows "(\<exists>key. names_key opn = Some key \<and> k = bucketKey key) \<or>
    (\<exists>rid r. sRes s rid = Some r \<and> k = bucketKey (holder r))"
  using assms by (cases opn) (auto simp: pending_def res_key_def holder_def split: option.splits if_splits)

lemma exec_holders:
  assumes "sRes (exec opn now s) rid = Some r"
  shows "names_key opn = Some (holder r) \<or> (\<exists>rid' r'. sRes s rid' = Some r' \<and> holder r = holder r')"
  using exec_res_cases [OF assms]
  by (fastforce simp: holder_def new_reservation_def finish_def pending_def elim!: finished.cases split: option.splits if_splits)

text \<open>
  C21 (isolation). Over any run of operations on the store, in which every check, loan and return names a
  key apart from \<open>key'\<close> (in the subject or in the model) and which starts with reservations of such keys
  only, the buckets of \<open>key'\<close> stay as they were on all four axes, whatever reservations are settled or
  refunded on the way.
\<close>

theorem key_isolation:
  assumes "store_ok t0 s" and "sorted (t0 # map (ms_of_time \<circ> fst) ops)"
    and "\<forall>(now, opn) \<in> set ops. clock_ok (ms_of_time now) \<and> op_ok opn \<and> (\<forall>key. names_key opn = Some key \<longrightarrow> apart key key')"
    and "\<forall>rid r. sRes s rid = Some r \<longrightarrow> apart (holder r) key'"
  shows "axis_map ax (run_ops ops s) (bucketKey key') = axis_map ax s (bucketKey key')"
  using assms
proof (induction ops arbitrary: t0 s)
  case (Cons a ops)
  obtain now opn where a: "a = (now, opn)" by (cases a)
  have t: "t0 \<le> ms_of_time now" "clock_ok (ms_of_time now)" "op_ok opn" using Cons.prems(2,3) by (simp_all add: a)
  have named: "apart key key'" if "names_key opn = Some key" for key using Cons.prems(3) that by (auto simp: a)
  have "op_key s now opn \<noteq> Some (bucketKey key')"
    using op_key_named [of s now opn] named Cons.prems(4) apart_bucketKey by metis
  then have "axis_map ax (exec opn now s) (bucketKey key') = axis_map ax s (bucketKey key')"
    using exec_eff [OF Cons.prems(1) t, of ax] axis_eff_other by metis
  moreover have "apart (holder r) key'" if "sRes (exec opn now s) rid = Some r" for rid r
    using exec_holders [OF that] named Cons.prems(4) by metis
  moreover have "store_ok (ms_of_time now) (exec opn now s)" by (rule exec_store_ok [OF Cons.prems(1) t])
  ultimately show ?case using Cons.IH [of "ms_of_time now" "exec opn now s"] Cons.prems(2,3) by (simp add: a)
qed simp

section \<open>Witnesses\<close>

definition ex_key :: Key where
  "ex_key = \<lparr>Subject = ''u'', Model = ''m''\<rparr>"

definition ex_limits :: Limits where
  "ex_limits = \<lparr>RequestsPerMinute = 60, TokensPerMinute = 120,
     InputTokensPerMinute = 0, OutputTokensPerMinute = 0\<rparr>"

definition ex_cost :: Cost where
  "ex_cost = \<lparr>Requests = 1, CTokens = 20, InputTokens = 0, OutputTokens = 0\<rparr>"

lemmas ex_defs = ex_key_def ex_limits_def ex_cost_def

lemmas store_eval = mem_Check_def checkClassicLocked_def checkSplitLocked_def mem_New_def
  purgeExpired_def loadBucket_def saveBucket_def Validate_def Split_def
  zero_Decision_def ms_of_time_def time_add_def ReservationTTL_def Minute_def bucketKey_def

lemma ex_check:
  "granted (fst (mem_Check mem_New 1000000000 ex_key ex_limits ex_cost ''r''))"
  by (simp add: store_eval ex_defs bucket_eval)

theorem rate_bound_witness:
  "drawn Tpm (bucketKey ex_key) [(1000000000, DoCheck ex_key ex_limits ex_cost ''r''),
      (2000000000, DoRefund ''x'')] mem_New = 20 \<and>
   of_int (drawn Tpm (bucketKey ex_key) [(1000000000, DoCheck ex_key ex_limits ex_cost ''r''),
      (2000000000, DoRefund ''x'')] mem_New) \<le>
    of_int 120 + earned 120 (last (1000 # map (ms_of_time \<circ> fst)
       [(1000000000, DoCheck ex_key ex_limits ex_cost ''r''), (2000000000, DoRefund ''x'')]) - 1000)
      * (1 + 6 / 2 ^ 53)
    + 2 * f64_eps + of_nat (length [(1000000000 :: time, DoCheck ex_key ex_limits ex_cost ''r''),
      (2000000000, DoRefund ''x'')]) * (of_int 120 / 2 ^ 45)"
proof
  have "pending (exec (DoCheck ex_key ex_limits ex_cost ''r'') 1000000000 mem_New) 2000000000 ''x'' = None"
    by (simp add: pending_def mem_Check_res purgeExpired_res mem_New_def map_drop_def)
  then show "drawn Tpm (bucketKey ex_key) [(1000000000, DoCheck ex_key ex_limits ex_cost ''r''),
      (2000000000, DoRefund ''x'')] mem_New = 20"
    using ex_check by (simp add: draw_on_def Split_def ex_limits_def [symmetric] ex_cost_def)
       (simp add: ex_limits_def)
qed (rule rate_bound, use store_ok_New in \<open>auto simp: meter_inv_def mem_New_def clock_ok_def in64_def
      ms_of_time_def ex_defs limits_ok_def cap_ok_def\<close>)

theorem store_invariant_witness:
  "store_ok (last (1000 # map (ms_of_time \<circ> fst) [(1000000000, DoCheck ex_key ex_limits ex_cost ''r''),
      (2000000000, DoSettle ''r'' 50)]))
    (run_ops [(1000000000, DoCheck ex_key ex_limits ex_cost ''r''), (2000000000, DoSettle ''r'' 50)] mem_New)"
  by (rule store_invariant [OF store_ok_New])
     (simp_all add: clock_ok_def in64_def ms_of_time_def ex_defs limits_ok_def cap_ok_def)

text \<open>The same subject with another model.\<close>

theorem key_isolation_witness:
  "axis_map Tpm (run_ops [(1000000000, DoCheck ex_key ex_limits ex_cost ''r''), (2000000000, DoSettle ''r'' 50)] mem_New)
     (bucketKey \<lparr>Subject = ''u'', Model = ''n''\<rparr>) = axis_map Tpm mem_New (bucketKey \<lparr>Subject = ''u'', Model = ''n''\<rparr>)"
  by (rule key_isolation [OF store_ok_New [of 0]])
     (simp_all add: clock_ok_def in64_def ms_of_time_def ex_defs limits_ok_def cap_ok_def apart_def model_of_def NUL_def mem_New_def)

end
