(* ===== verification/Memory_Lifecycle.thy ===== *)
theory Memory_Lifecycle
  imports Memory_Rate
begin

text \<open>
  The reservation protocol of the in-memory store: an abstract state machine per
  reservation id that the store refines, the answers of \<^verbatim>\<open>Settle\<close>, \<^verbatim>\<open>SettleIO\<close> and \<^verbatim>\<open>Refund\<close>
  in every state of it, and what a check and a loan do to the buckets.
\<close>

section \<open>The abstract protocol\<close>

text \<open>What a caller can observe of a reservation: nothing once it has expired, else its
  status and whether it is a split one.\<close>

definition res_view :: "Store \<Rightarrow> time \<Rightarrow> string \<Rightarrow> (status \<times> bool) option" where
  "res_view s now rid =
     (case sRes s rid of
        None \<Rightarrow> None
      | Some r \<Rightarrow> if time_after now (rExpiresAt r) then None else Some (rStatus r, rSplit r))"

fun spec_next :: "bool \<Rightarrow> store_op \<Rightarrow> string \<Rightarrow> (status \<times> bool) option \<Rightarrow> (status \<times> bool) option" where
  "spec_next ok (DoCheck key limits cost rid') rid v =
     (if ok \<and> rid = rid' then Some (Pending, Split limits) else v)"
| "spec_next ok (DoSettle rid' a) rid v =
     (if rid = rid' \<and> v = Some (Pending, False) then Some (Settled, False) else v)"
| "spec_next ok (DoSettleIO rid' a b) rid v =
     (if rid = rid' \<and> v = Some (Pending, True) then Some (Settled, True) else v)"
| "spec_next ok (DoRefund rid') rid v =
     (if rid = rid' then (case v of Some (Pending, sp) \<Rightarrow> Some (Refunded, sp) | _ \<Rightarrow> v) else v)"
| "spec_next ok opn rid v = v"

fun op_granted :: "Store \<Rightarrow> time \<Rightarrow> store_op \<Rightarrow> bool" where
  "op_granted s now (DoCheck key limits cost rid) = granted (fst (mem_Check s now key limits cost rid))"
| "op_granted s now opn = False"

lemma TTL_fresh [simp]: "\<not> time_after now (time_add now ReservationTTL)"
  by (simp add: time_after_def time_add_def ReservationTTL_def Minute_def)

lemma new_reservation_expires [simp]:
  "rExpiresAt (new_reservation key limits cost now) = time_add now ReservationTTL"
  by (simp add: new_reservation_def)

lemma res_view_purge:
  "res_view s now rid = map_option (\<lambda>r. (rStatus r, rSplit r)) (sRes (purgeExpired s now) rid)"
  by (simp add: res_view_def purgeExpired_res map_drop_def split: option.splits)

lemma res_view_pending:
  "pending s now rid = Some r \<Longrightarrow> res_view s now rid = Some (Pending, rSplit r)"
  "pending s now rid = None \<Longrightarrow> res_view s now rid \<noteq> Some (Pending, sp)"
  by (auto simp: pending_def res_view_def split: option.splits if_splits)

lemma res_view_cases:
  obtains "sRes (purgeExpired s now) rid = None" "res_view s now rid = None"
  | r where "sRes (purgeExpired s now) rid = Some r" "res_view s now rid = Some (rStatus r, rSplit r)"
  by (cases "sRes (purgeExpired s now) rid") (auto simp: res_view_purge)

lemma view_of_update:
  assumes "sRes s' = (sRes (purgeExpired s now))(rid' \<mapsto> r)" "\<not> time_after now (rExpiresAt r)"
  shows "res_view s' now rid = (if rid = rid' then Some (rStatus r, rSplit r) else res_view s now rid)"
  using assms by (auto simp: res_view_def purgeExpired_res map_drop_def split: option.splits)

lemma view_of_purge: "sRes s' = sRes (purgeExpired s now) \<Longrightarrow> res_view s' now rid = res_view s now rid"
  by (auto simp: res_view_def purgeExpired_res map_drop_def split: option.splits)

text \<open>
  C6 (the reservation protocol). Whatever operation the store runs, what a caller can
  observe of each reservation id changes exactly as the protocol says: a granted check
  makes its id pending, a settlement of the right mode makes a pending one settled, a refund
  makes a pending one refunded, and nothing else changes.
\<close>

theorem reservation_refinement:
  "res_view (exec opn now s) now rid = spec_next (op_granted s now opn) opn rid (res_view s now rid)"
proof (cases opn)
  case (DoCheck key limits cost rid')
  show ?thesis
    using mem_Check_res [of s now key limits cost rid'] mem_Check_granted_id [of s now key limits cost rid']
      view_of_update view_of_purge
    by (cases "granted (fst (mem_Check s now key limits cost rid'))"; cases "Validate limits")
       (simp_all add: DoCheck res_view_def)
next
  case (DoSettle rid' a)
  show ?thesis
  proof (cases "pending s now rid'")
    case None
    then show ?thesis using res_view_pending(2) view_of_purge by (auto simp: DoSettle mem_Settle_res)
  next
    case (Some r)
    then show ?thesis using res_view_pending(1) [OF Some] mem_Settle_res [of s now rid' a]
        view_of_update view_of_purge
      by (cases "rSplit r") (auto simp: DoSettle)
  qed
next
  case (DoSettleIO rid' a b)
  show ?thesis
  proof (cases "pending s now rid'")
    case None
    then show ?thesis using res_view_pending(2) view_of_purge by (auto simp: DoSettleIO mem_SettleIO_res)
  next
    case (Some r)
    then show ?thesis using res_view_pending(1) [OF Some] mem_SettleIO_res [of s now rid' a b]
        view_of_update view_of_purge
      by (cases "rSplit r") (auto simp: DoSettleIO)
  qed
next
  case (DoRefund rid')
  show ?thesis
  proof (cases "pending s now rid'")
    case None
    then show ?thesis using res_view_pending(2) view_of_purge
      by (auto simp: DoRefund mem_Refund_res split: option.splits status.splits)
  next
    case (Some r)
    then show ?thesis using res_view_pending(1) [OF Some] mem_Refund_res [of s now rid'] view_of_update
      by (auto simp: DoRefund)
  qed
qed (simp_all add: res_view_def)

section \<open>Answers\<close>

definition settle_spec :: "bool \<Rightarrow> (status \<times> bool) option \<Rightarrow> error option" where
  "settle_spec split v =
     (case v of
        None \<Rightarrow> Some ErrReservationNotFound
      | Some (st, sp) \<Rightarrow>
          if sp \<noteq> split then Some ErrWrongSettleMode
          else if st = Refunded then Some ErrReservationRefunded else None)"

definition refund_spec :: "(status \<times> bool) option \<Rightarrow> error option" where
  "refund_spec v =
     (case v of
        None \<Rightarrow> Some ErrReservationNotFound
      | Some (st, sp) \<Rightarrow> if st = Settled then Some ErrReservationSettled else None)"

definition err_of :: "(error, 'a) result \<Rightarrow> error option" where
  "err_of r = (case r of Inl e \<Rightarrow> Some e | Inr _ \<Rightarrow> None)"

text \<open>
  C15 (the errors of the protocol). \<^verbatim>\<open>Settle\<close> and \<^verbatim>\<open>SettleIO\<close> report an unknown or expired id,
  then a reservation of the other mode, then a refunded one, in this order, and succeed on a
  pending or a settled one; \<^verbatim>\<open>Refund\<close> reports an unknown or expired id or a settled
  reservation, and succeeds otherwise.
\<close>

theorem finish_errors:
  "err_of (fst (mem_Settle s now rid a)) = settle_spec False (res_view s now rid) \<and>
   err_of (fst (mem_SettleIO s now rid i out)) = settle_spec True (res_view s now rid) \<and>
   fst (mem_Refund s now rid) = refund_spec (res_view s now rid)"
  by (rule res_view_cases [of s now rid])
     (auto simp: mem_Settle_def mem_SettleIO_def mem_Refund_def Let_def err_of_def settle_spec_def
       refund_spec_def split: prod.splits)

section \<open>Finishing once\<close>

fun checks_id :: "string \<Rightarrow> store_op \<Rightarrow> bool" where
  "checks_id rid (DoCheck key limits cost rid') = (rid = rid')"
| "checks_id rid opn = False"

lemma exec_finished_stable:
  assumes "sRes s rid = Some r" "rStatus r \<noteq> Pending" "\<not> time_after now (rExpiresAt r)"
    and "\<not> checks_id rid opn"
  shows "sRes (exec opn now s) rid = Some r"
proof -
  have p: "sRes (purgeExpired s now) rid = Some r" using assms by (simp add: purgeExpired_res)
  have n: "pending s now rid = None" using assms(1,2) by (simp add: pending_def)
  show ?thesis
    using p n assms(1,4)
    by (cases opn) (auto simp: mem_Check_res mem_Settle_res mem_SettleIO_res mem_Refund_res
        split: option.splits)
qed

lemma run_finished_stable:
  assumes "sRes s rid = Some r" "rStatus r \<noteq> Pending"
    and "\<forall>(now, opn) \<in> set ops. \<not> time_after now (rExpiresAt r) \<and> \<not> checks_id rid opn"
  shows "sRes (run_ops ops s) rid = Some r"
  using assms
proof (induction ops arbitrary: s)
  case (Cons a ops)
  then have "sRes (exec (snd a) (fst a) s) rid = Some r" by (intro exec_finished_stable) auto
  then show ?case using Cons by (cases a) simp
qed simp

lemma settled_replay:
  assumes "sRes s rid = Some r" "rStatus r = Settled" "\<not> time_after now (rExpiresAt r)"
  shows "\<not> rSplit r \<Longrightarrow> mem_Settle s now rid a = (Inr (rLastDecision r), purgeExpired s now)"
    and "rSplit r \<Longrightarrow> mem_SettleIO s now rid a b = (Inr (rLastDecision r), purgeExpired s now)"
    and "mem_Refund s now rid = (Some ErrReservationSettled, purgeExpired s now)"
proof -
  have "sRes (purgeExpired s now) rid = Some r" using assms by (simp add: purgeExpired_res)
  then show "\<not> rSplit r \<Longrightarrow> mem_Settle s now rid a = (Inr (rLastDecision r), purgeExpired s now)"
    and "rSplit r \<Longrightarrow> mem_SettleIO s now rid a b = (Inr (rLastDecision r), purgeExpired s now)"
    and "mem_Refund s now rid = (Some ErrReservationSettled, purgeExpired s now)"
    using assms(2) by (simp_all add: mem_Settle_def mem_SettleIO_def mem_Refund_def Let_def)
qed

text \<open>
  C14 (settling is idempotent). Once a pending classic reservation is settled, a later
  settlement with any reported usage, after any operations that do not check the same id
  anew, and until the reservation expires, returns the decision of the first one and
  leaves every bucket as it was; a refund is refused and leaves the buckets alone too.
\<close>

theorem settle_idempotent:
  fixes a a' :: int64
  assumes "pending s now rid = Some r" "\<not> rSplit r"
    and ops: "\<forall>(t, opn) \<in> set ops. t \<le> time_add now ReservationTTL \<and> \<not> checks_id rid opn"
    and later: "now' \<le> time_add now ReservationTTL"
  defines "s' \<equiv> run_ops ops (exec (DoSettle rid a) now s)"
  shows "fst (mem_Settle s' now' rid a') = fst (mem_Settle s now rid a) \<and>
    axis_map ax (snd (mem_Settle s' now' rid a')) = axis_map ax s' \<and>
    fst (mem_Refund s' now' rid) = Some ErrReservationSettled \<and>
    axis_map ax (snd (mem_Refund s' now' rid)) = axis_map ax s'"
proof -
  obtain d where d: "fst (mem_Settle s now rid a) = Inr d" using mem_Settle_over [OF assms(1,2)] by blast
  have "sRes (exec (DoSettle rid a) now s) rid = Some (finish r Settled d now)"
    using assms(1,2) d by (simp add: mem_Settle_res finish_def)
  then have "sRes s' rid = Some (finish r Settled d now)"
    unfolding s'_def by (rule run_finished_stable) (use ops in \<open>auto simp: time_after_def\<close>)
  from settled_replay [OF this, of now'] show ?thesis
    using assms(2) d later by (simp add: time_after_def)
qed

text \<open>
  Split settlements and refunds are idempotent too. The same holds for \<^verbatim>\<open>SettleIO\<close> on a
  split reservation, and a refunded reservation answers every further refund with success
  and every settlement with an error, without touching a bucket.
\<close>

theorem finish_idempotent:
  fixes i out i' out' :: int64
  assumes "pending s now rid = Some r"
    and ops: "\<forall>(t, opn) \<in> set ops. t \<le> time_add now ReservationTTL \<and> \<not> checks_id rid opn"
    and later: "now' \<le> time_add now ReservationTTL"
  defines "s1 \<equiv> run_ops ops (exec (DoSettleIO rid i out) now s)"
    and "s2 \<equiv> run_ops ops (exec (DoRefund rid) now s)"
  shows "(rSplit r \<longrightarrow> fst (mem_SettleIO s1 now' rid i' out') = fst (mem_SettleIO s now rid i out) \<and>
      axis_map ax (snd (mem_SettleIO s1 now' rid i' out')) = axis_map ax s1 \<and>
      fst (mem_Refund s1 now' rid) = Some ErrReservationSettled) \<and>
    fst (mem_Refund s2 now' rid) = None \<and>
    axis_map ax (snd (mem_Refund s2 now' rid)) = axis_map ax s2 \<and>
    (\<exists>e. fst (mem_Settle s2 now' rid i') = Inl e) \<and>
    axis_map ax (snd (mem_Settle s2 now' rid i')) = axis_map ax s2 \<and>
    (\<exists>e. fst (mem_SettleIO s2 now' rid i' out') = Inl e) \<and>
    axis_map ax (snd (mem_SettleIO s2 now' rid i' out')) = axis_map ax s2"
proof -
  have t: "\<not> time_after now' (rExpiresAt (finish r st d now))" for st d
    using later by (simp add: time_after_def)
  have "sRes (exec (DoRefund rid) now s) rid = Some (finish r Refunded (rLastDecision r) now)"
    using assms(1) by (simp add: mem_Refund_res finish_def)
  then have r2: "sRes s2 rid = Some (finish r Refunded (rLastDecision r) now)"
    unfolding s2_def by (rule run_finished_stable) (use ops in \<open>auto simp: time_after_def\<close>)
  have r1: "sRes s1 rid = Some (finish r Settled (projr (fst (mem_SettleIO s now rid i out))) now)" if "rSplit r"
    unfolding s1_def
    by (rule run_finished_stable) (use assms(1) ops that in
        \<open>auto simp: time_after_def mem_SettleIO_res finish_def\<close>)
  have ok: "rSplit r \<Longrightarrow> \<exists>d. fst (mem_SettleIO s now rid i out) = Inr d"
    using mem_SettleIO_over [OF assms(1)] by blast
  have p2: "sRes (purgeExpired s2 now') rid = Some (finish r Refunded (rLastDecision r) now)"
    using r2 t by (simp add: purgeExpired_res)
  then have ref: "mem_Refund s2 now' rid = (None, purgeExpired s2 now')"
    "mem_Settle s2 now' rid i' = (Inl (if rSplit r then ErrWrongSettleMode else ErrReservationRefunded), purgeExpired s2 now')"
    "mem_SettleIO s2 now' rid i' out' =
       (Inl (if rSplit r then ErrReservationRefunded else ErrWrongSettleMode), purgeExpired s2 now')"
    by (simp_all add: mem_Refund_def mem_Settle_def mem_SettleIO_def Let_def)
  have io: "mem_SettleIO s1 now' rid i' out' = (fst (mem_SettleIO s now rid i out), purgeExpired s1 now') \<and>
      mem_Refund s1 now' rid = (Some ErrReservationSettled, purgeExpired s1 now')" if "rSplit r"
    using settled_replay(2,3) [OF r1 [OF that] _ t] that ok by auto
  show ?thesis using io by (simp add: ref)
qed

section \<open>Checks\<close>

lemma check_pending:
  assumes "granted (fst (mem_Check s now key limits cost rid))" "now' \<le> time_add now ReservationTTL"
  shows "pending (snd (mem_Check s now key limits cost rid)) now' rid = Some (new_reservation key limits cost now)"
  using assms mem_Check_granted_id [OF assms(1)] by (simp add: pending_def mem_Check_res time_after_def)

theorem settle_idempotent_witness:
  "fst (mem_Settle (run_ops [] (exec (DoSettle ''r'' 30) 1500000000
        (exec (DoCheck ex_key ex_limits ex_cost ''r'') 1000000000 mem_New))) 2000000000 ''r'' 99)
     = fst (mem_Settle (exec (DoCheck ex_key ex_limits ex_cost ''r'') 1000000000 mem_New) 1500000000 ''r'' 30)"
  using settle_idempotent [OF check_pending [OF ex_check, of 1500000000], of "[]" 2000000000 30 99]
  by (simp add: time_add_def ReservationTTL_def Minute_def ex_limits_def Split_def)

theorem finish_idempotent_witness:
  "fst (mem_Refund (run_ops [] (exec (DoRefund ''r'') 1500000000
        (exec (DoCheck ex_key ex_limits ex_cost ''r'') 1000000000 mem_New))) 2000000000 ''r'') = None"
  using finish_idempotent [OF check_pending [OF ex_check, of 1500000000], of "[]" 2000000000]
  by (simp add: time_add_def ReservationTTL_def Minute_def)

text \<open>Which axis a denial names, and which axes are tried before it.\<close>

fun axis_type :: "axis \<Rightarrow> LimitType" where
  "axis_type Rpm = LimitTypeRequests"
| "axis_type Tpm = LimitTypeTokens"
| "axis_type Itpm = LimitTypeInputTokens"
| "axis_type Otpm = LimitTypeOutputTokens"

fun axes_before :: "axis \<Rightarrow> axis list" where
  "axes_before Rpm = []"
| "axes_before Tpm = [Rpm]"
| "axes_before Itpm = [Rpm]"
| "axes_before Otpm = [Rpm, Itpm]"

definition axis_try :: "axis \<Rightarrow> Store \<Rightarrow> time \<Rightarrow> Key \<Rightarrow> Limits \<Rightarrow> Cost \<Rightarrow> State \<times> Result" where
  "axis_try ax s now key limits cost =
     TryConsume (axis_load ax s (bucketKey key) (axis_limit ax limits) (ms_of_time now))
       (ms_of_time now) (max 0 (axis_cost ax cost))"

definition blames :: "axis \<Rightarrow> Store \<Rightarrow> time \<Rightarrow> Key \<Rightarrow> Limits \<Rightarrow> Cost \<Rightarrow> Decision \<Rightarrow> bool" where
  "blames ax s now key limits cost d \<longleftrightarrow> active ax (Split limits) \<and> LimitType d = axis_type ax \<and>
     \<not> ResAllowed (snd (axis_try ax s now key limits cost)) \<and>
     (\<forall>ax' \<in> set (axes_before ax). ResAllowed (snd (axis_try ax' s now key limits cost))) \<and>
     RetryAfter d = ResRetryAfter (snd (axis_try ax s now key limits cost)) \<and> ReservationID d = ''''"

lemma check_blames:
  assumes "fst (mem_Check s now key limits cost rid) = Inr d" "\<not> Allowed d"
  shows "(if Split limits then blames Rpm s now key limits cost d \<or> blames Itpm s now key limits cost d \<or>
      blames Otpm s now key limits cost d
    else blames Rpm s now key limits cost d \<or> blames Tpm s now key limits cost d)"
  using assms
  by (auto simp: mem_Check_def checkClassicLocked_def checkSplitLocked_def Let_def axis_try_def blames_def
      zero_Decision_def split: option.splits prod.splits if_splits)

text \<open>
  C10 (a denial takes nothing). A check that is not granted leaves every bucket and every
  live reservation as they were. When it is a denial, the decision names the first axis,
  in the order requests, tokens (or requests, input, output), whose bucket cannot cover the
  cost, reports the waiting time of that bucket alone, and carries no reservation. The table of scenarios in
  \<^verbatim>\<open>WHAT_THIS_IS.md\<close> asks for the longest of the waits when several budgets are exhausted; the code stops at
  the first (lemma \<open>first_axis_not_longest\<close>).
\<close>

theorem check_denied:
  assumes "\<not> granted (fst (mem_Check s now key limits cost rid))"
  shows "axis_map ax (snd (mem_Check s now key limits cost rid)) = axis_map ax s \<and>
    res_view (snd (mem_Check s now key limits cost rid)) now rid' = res_view s now rid' \<and>
    (\<forall>d. fst (mem_Check s now key limits cost rid) = Inr d \<longrightarrow> (\<exists>ax. blames ax s now key limits cost d))"
proof (intro conjI allI impI)
  show "axis_map ax (snd (mem_Check s now key limits cost rid)) = axis_map ax s"
    using assms by (simp add: mem_Check_axis)
  show "res_view (snd (mem_Check s now key limits cost rid)) now rid' = res_view s now rid'"
    using assms mem_Check_res [of s now key limits cost rid] view_of_purge
    by (cases "Validate limits") (simp_all add: res_view_def)
  show "\<exists>ax. blames ax s now key limits cost d" if "fst (mem_Check s now key limits cost rid) = Inr d" for d
    using check_blames [OF that] that assms by (auto split: if_splits)
qed

theorem check_denied_witness:
  "axis_map Rpm (snd (mem_Check mem_New 1000000000 ex_key ex_limits (ex_cost\<lparr>CTokens := 500\<rparr>) ''r'')) =
     axis_map Rpm mem_New"
  using check_denied [of mem_New 1000000000 ex_key ex_limits "ex_cost\<lparr>CTokens := 500\<rparr>" "''r''" Rpm]
  by (simp add: store_eval ex_defs bucket_eval)

text \<open>
  When several budgets are exhausted, the first one is named, not the one with the longest wait that
  \<^verbatim>\<open>WHAT_THIS_IS.md\<close> asks for: here the tokens need 30 seconds, and the denial says one.
\<close>

lemma first_axis_not_longest:
  defines "s \<equiv> snd (mem_Check mem_New 1000000000 ex_key ex_limits
      \<lparr>Requests = 60, CTokens = 120, InputTokens = 0, OutputTokens = 0\<rparr> ''r'')"
    and "cost \<equiv> \<lparr>Requests = 1, CTokens = 60, InputTokens = 0, OutputTokens = 0\<rparr>"
  shows "\<exists>d. fst (mem_Check s 1000000000 ex_key ex_limits cost ''q'') = Inr d \<and> LimitType d = LimitTypeRequests \<and>
      RetryAfter d = 1 * Second \<and> ResRetryAfter (snd (axis_try Tpm s 1000000000 ex_key ex_limits cost)) = 30 * Second"
  unfolding s_def cost_def
  by (simp add: store_eval ex_defs bucket_eval axis_try_def Second_def)

lemma mem_Check_granted_iff:
  "granted (fst (mem_Check s now key limits cost rid)) \<longleftrightarrow>
     Subject key \<noteq> '''' \<and> rid \<noteq> '''' \<and> Validate limits = None \<and>
     (\<forall>ax. active ax (Split limits) \<longrightarrow> ResAllowed (snd (axis_try ax s now key limits cost)))"
  by (auto simp: active_all mem_Check_def checkClassicLocked_def checkSplitLocked_def Let_def axis_try_def
      zero_Decision_def split: option.splits prod.splits if_splits)

text \<open>
  C9 (a check decides rightly). A granted check was covered on every axis it uses: the cost
  fits the limit and exceeds the tokens at hand by at most twice the tolerance. Conversely, a
  well-formed request whose cost fits the limit and the tokens at hand on every axis is granted.
\<close>

theorem check_decides:
  assumes ok: "store_ok t0 s" "t0 \<le> ms_of_time now" "clock_ok (ms_of_time now)" "limits_ok limits"
  shows "(granted (fst (mem_Check s now key limits cost rid)) \<longrightarrow>
      (\<forall>ax. active ax (Split limits) \<longrightarrow> max 0 (axis_cost ax cost) \<le> axis_limit ax limits \<and>
        of_int (max 0 (axis_cost ax cost)) \<le>
          Tokens (axis_load ax s (bucketKey key) (axis_limit ax limits) (ms_of_time now)) + 2 * f64_eps)) \<and>
    (Subject key \<noteq> '''' \<and> rid \<noteq> '''' \<and> Validate limits = None \<and>
      (\<forall>ax. active ax (Split limits) \<longrightarrow> max 0 (axis_cost ax cost) \<le> axis_limit ax limits \<and>
        of_int (max 0 (axis_cost ax cost)) \<le>
          Tokens (axis_load ax s (bucketKey key) (axis_limit ax limits) (ms_of_time now)))
      \<longrightarrow> granted (fst (mem_Check s now key limits cost rid)))"
proof -
  let ?t = "ms_of_time now"
  let ?L = "\<lambda>ax. axis_load ax s (bucketKey key) (axis_limit ax limits) ?t"
  have L: "bucket_ok (?L ax)" "Refill (?L ax) ?t = ?L ax" for ax
    using loadBucket_ok loadBucket_refilled store_okD(1) [OF ok(1)] ok(2-4) limits_okD by blast+
  have "max 0 (axis_cost ax cost) \<le> axis_limit ax limits \<and> of_int (max 0 (axis_cost ax cost)) \<le> Tokens (?L ax) + 2 * f64_eps"
    if "ResAllowed (snd (axis_try ax s now key limits cost))" for ax
    using TryConsume_sound [OF L(1) ok(3), of ax "max 0 (axis_cost ax cost)"] that L(2) [of ax]
    by (auto simp: axis_try_def TryConsume_allowed_iff)
  moreover have "ResAllowed (snd (axis_try ax s now key limits cost))"
    if "max 0 (axis_cost ax cost) \<le> axis_limit ax limits" "of_int (max 0 (axis_cost ax cost)) \<le> Tokens (?L ax)" for ax
    using TryConsume_complete [OF L(1) ok(3), of "max 0 (axis_cost ax cost)" ax] that L(2) [of ax] f64_eps_pos
    by (simp add: axis_try_def)
  ultimately show ?thesis unfolding mem_Check_granted_iff by blast
qed

theorem check_decides_witness:
  "granted (fst (mem_Check mem_New 1000000000 ex_key ex_limits ex_cost ''r'')) \<and>
     of_int (max 0 (axis_cost Tpm ex_cost)) \<le>
       Tokens (axis_load Tpm mem_New (bucketKey ex_key) (axis_limit Tpm ex_limits) (ms_of_time 1000000000)) + 2 * f64_eps"
proof -
  have "limits_ok ex_limits" "0 \<le> ms_of_time 1000000000" "clock_ok (ms_of_time 1000000000)"
    "active Tpm (Split ex_limits)"
    by (simp_all add: clock_ok_def in64_def ms_of_time_def ex_defs limits_ok_def cap_ok_def Split_def)
  then show ?thesis
    using check_decides [OF store_ok_New [of 0], of 1000000000 ex_limits ex_key ex_cost "''r''"] ex_check by blast
qed

end
