(* ===== verification/Memory_Accounting.thy ===== *)
theory Memory_Accounting
  imports Memory_Lifecycle
begin

text \<open>
  What the operations of the in-memory store do to the token counts, quantitatively: a
  granted check, a refund after it, a settlement with more or with less than was
  reserved, a loan and its return. All bounds are the roundings of double arithmetic.
\<close>

section \<open>Rounding\<close>

text \<open>Two-sided versions of the rounding bounds.\<close>

lemma rnd64_near:
  assumes "\<bar>x\<bar> \<le> of_int c + y" "0 < c" "0 \<le> y" "y \<le> of_int c"
  shows "\<bar>rnd64 x - x\<bar> \<le> of_int c / 2 ^ 51"
proof -
  have "of_int c / 2 ^ 52 + y / 2 ^ 53 \<le> (of_int c / 2 ^ 51 :: rat)" using assms(2-4) by simp
  then show ?thesis using rnd64_slack [OF assms(1-3)] rnd64_slack_lower [OF assms(1-3)] by linarith
qed

lemma Credit_near:
  assumes ok: "bucket_ok s" and t: "clock_ok t" and c: "0 < Capacity s" and a: "0 \<le> a" "a \<le> Capacity s"
  shows "\<bar>Tokens (Credit s t a) - min (of_int (Capacity s)) (Tokens (Refill s t) + of_int a)\<bar>
    \<le> of_int (Capacity s) / 2 ^ 51"
proof -
  let ?T = "Tokens (Refill s t)" and ?c = "of_int (Capacity s) :: rat"
  note okD = bucket_okD [OF Refill_ok [OF ok t]]
  have c1: "1 \<le> ?c" using c by simp
  have cap: "f64_of_int (Capacity s) = ?c" using okD(4) c by (simp add: f64_capacity)
  consider "a = 0" | "0 < a" "a \<le> Capacity s" using a by linarith
  then show ?thesis
  proof cases
    case 1
    then show ?thesis using okD(3) c1 by (simp add: Credit_def)
  next
    case 2
    then have f: "f64_of_int a = of_int a" "0 < (of_int a :: rat)" "(of_int a :: rat) \<le> ?c"
      using okD(4) by (simp_all add: f64_of_int_exact)
    have "\<bar>?T + of_int a\<bar> \<le> ?c + ?c"
      using okD(2,3) f c1 two_eps_le_1 by (simp only: abs_le_iff Refill_Capacity) linarith
    from rnd64_near [OF this c] c1 have n: "\<bar>f64_add ?T (of_int a) - (?T + of_int a)\<bar> \<le> ?c / 2 ^ 51"
      by (simp add: f64_add_def)
    have "Tokens (Credit s t a) = min ?c (f64_add ?T (of_int a))"
      using 2 f(1) cap by (simp add: Credit_def Let_def)
    moreover have "\<bar>min ?c x - min ?c y\<bar> \<le> \<bar>x - y\<bar>" for x y :: rat by linarith
    ultimately show ?thesis using n by (metis order_trans)
  qed
qed

lemma DebitFloor_near:
  assumes ok: "bucket_ok s" and t: "clock_ok t" and c: "0 < Capacity s" and a: "in64 a"
  shows "\<bar>Tokens (fst (DebitFloor s t a)) - (Tokens (Refill s t) - of_int (fst (snd (DebitFloor s t a))))\<bar>
    \<le> of_int (Capacity s) / 2 ^ 51"
proof -
  let ?T = "Tokens (Refill s t)" and ?c = "of_int (Capacity s) :: rat"
  note okD = bucket_okD [OF Refill_ok [OF ok t]]
  have c1: "1 \<le> ?c" using c by simp
  have r: "\<bar>f64_sub ?T (of_int d) - (?T - of_int d)\<bar> \<le> ?c / 2 ^ 51" if "- 1 \<le> d" "d \<le> \<lfloor>?T\<rfloor>" for d
  proof -
    have "of_int d \<le> ?T" using that(2) by (simp add: le_floor_iff)
    moreover have "-1 \<le> (of_int d :: rat)" using that(1) by simp
    ultimately have "\<bar>?T - of_int d\<bar> \<le> ?c + 1"
      using okD(3) c1 by (simp only: abs_le_iff Refill_Capacity) linarith
    from rnd64_near [OF this c] c1 show ?thesis by (simp add: f64_sub_def)
  qed
  have f: "- 1 \<le> \<lfloor>?T\<rfloor>" using floor_tokens(1) [OF Refill_ok [OF ok t]] .
  have "0 \<le> ?T - of_int \<lfloor>?T\<rfloor>" by simp
  then have nn: "max 0 (f64_sub ?T (of_int \<lfloor>?T\<rfloor>)) = f64_sub ?T (of_int \<lfloor>?T\<rfloor>)"
    by (simp add: f64_sub_def f64.rnd_lower)
  show ?thesis
    using r [of a] r [of "\<lfloor>?T\<rfloor>"] f nn c1 by (auto simp: DebitFloor_cases [OF ok t a])
qed

text \<open>One settlement on one axis: the overshoot it reports and the tokens it leaves.\<close>

lemma settleAxis_account:
  assumes ok: "bucket_ok st" and t: "clock_ok t" and r: "Refill st t = st" and c: "0 < Capacity st"
    and a: "0 \<le> res" "res \<le> Capacity st" "0 \<le> act" "act < 2 ^ 62"
  shows "snd (settleAxis st t res act) = (if res < act then max 0 (act - res - \<lfloor>Tokens st\<rfloor>) else 0)"
    and "\<bar>Tokens (fst (settleAxis st t res act)) - min (of_int (Capacity st))
        (Tokens st + of_int res + of_int (snd (settleAxis st t res act)) - of_int act)\<bar>
      \<le> of_int (Capacity st) / 2 ^ 51"
proof -
  note okD = bucket_okD [OF ok] and ft = floor_tokens [OF ok]
  have c1: "1 \<le> (of_int (Capacity st) :: rat)" using c by simp
  have res: "res \<le> 2 ^ 53" using a(2) okD(4) by simp
  note cs = settleAxis_cases [OF a(1) res a(3,4), of st t]
  have d: "in64 (act - res)" "act - res < 2 ^ 62" using a res by (simp_all add: in64_def)
  note ds = DebitFloor_split [OF ok t d(1) _ d(2), unfolded r]
  show "snd (settleAxis st t res act) = (if res < act then max 0 (act - res - \<lfloor>Tokens st\<rfloor>) else 0)"
    using ds ft(1) unfolding cs by (cases "res < act") auto
  consider "act < res" | "res < act" | "act = res" by linarith
  then show "\<bar>Tokens (fst (settleAxis st t res act)) - min (of_int (Capacity st))
        (Tokens st + of_int res + of_int (snd (settleAxis st t res act)) - of_int act)\<bar>
      \<le> of_int (Capacity st) / 2 ^ 51"
  proof cases
    case 1
    then show ?thesis using Credit_near [OF ok t c, of "res - act"] a(2,3) unfolding cs r
      by (simp add: algebra_simps)
  next
    case 2
    let ?d = "fst (snd (DebitFloor st t (act - res)))"
    have o: "of_int (snd (snd (DebitFloor st t (act - res)))) = (of_int act - of_int res - of_int ?d :: rat)"
      using ds(1) 2 by (metis (no_types, lifting) add_diff_cancel_left' diff_gt_0_iff_gt of_int_diff)
    have "Tokens st - of_int ?d \<le> of_int (Capacity st)"
    proof (cases "\<lfloor>Tokens st\<rfloor> = -1")
      case True
      then have "Tokens st < 0" by linarith
      moreover have "- 1 \<le> ?d" using ds(3) 2 ft(1) by simp
      then have "- 1 \<le> (of_int ?d :: rat)" by simp
      ultimately show ?thesis using c1 by linarith
    next
      case False
      then have "0 \<le> \<lfloor>Tokens st\<rfloor>" using ft(1) by linarith
      then have "0 \<le> ?d" using ds(3) 2 by (simp only: diff_gt_0_iff_gt)
      then have "0 \<le> (of_int ?d :: rat)" by simp
      then show ?thesis using okD(3) by linarith
    qed
    then have "min (of_int (Capacity st)) (Tokens st + of_int res +
        of_int (snd (snd (DebitFloor st t (act - res)))) - of_int act) = Tokens st - of_int ?d"
      using o by linarith
    then show ?thesis using DebitFloor_near [OF ok t c d(1)] 2 unfolding cs r by simp
  next
    case 3
    then show ?thesis using okD(3) c1 unfolding cs by simp
  qed
qed

section \<open>Operations\<close>

fun axis_remaining :: "axis \<Rightarrow> Decision \<Rightarrow> int64" where
  "axis_remaining Rpm d = RemainingRPM d"
| "axis_remaining Tpm d = RemainingTPM d"
| "axis_remaining Itpm d = RemainingITPM d"
| "axis_remaining Otpm d = RemainingOTPM d"

fun axis_over :: "axis \<Rightarrow> Decision \<Rightarrow> int64" where
  "axis_over Rpm d = 0"
| "axis_over Tpm d = OvershootTPM d"
| "axis_over Itpm d = OvershootITPM d"
| "axis_over Otpm d = OvershootOTPM d"

lemma mem_Check_remaining:
  assumes "fst (mem_Check s now key limits cost rid) = Inr d" "Allowed d" "active ax (Split limits)"
  shows "axis_remaining ax d = ResRemaining (snd (axis_try ax s now key limits cost)) \<and> ReservationID d = rid"
  using assms by (cases ax) (auto simp: mem_Check_def checkClassicLocked_def checkSplitLocked_def Let_def
      axis_try_def zero_Decision_def split: option.splits prod.splits if_splits)

text \<open>The store, an instant at which it is used, and an axis with a positive capacity.\<close>

definition op_context :: "int64 \<Rightarrow> Store \<Rightarrow> time \<Rightarrow> int64 \<Rightarrow> bool" where
  "op_context t0 s now c \<longleftrightarrow> store_ok t0 s \<and> t0 \<le> ms_of_time now \<and> clock_ok (ms_of_time now) \<and> 0 < c \<and> c \<le> 2 ^ 53"

lemma op_context_load:
  assumes "op_context t0 s now c"
  shows "bucket_ok (axis_load ax s k c (ms_of_time now))"
    "Refill (axis_load ax s k c (ms_of_time now)) (ms_of_time now) = axis_load ax s k c (ms_of_time now)"
proof -
  have "axis_ok t0 (axis_map ax s)" "t0 \<le> ms_of_time now" "clock_ok (ms_of_time now)" "cap_ok c"
    using assms store_okD(1) by (auto simp: op_context_def cap_ok_def)
  then show "bucket_ok (axis_load ax s k c (ms_of_time now))"
    "Refill (axis_load ax s k c (ms_of_time now)) (ms_of_time now) = axis_load ax s k c (ms_of_time now)"
    by (rule loadBucket_ok loadBucket_refilled)+
qed

lemma op_context_saved:
  assumes "op_context t0 s now c" "bucket_ok st" "LastMs st = ms_of_time now" "Capacity st = c"
    and "axis_map ax s' = saveBucket (axis_map ax s) k st"
  shows "axis_load ax s' k c (ms_of_time now) = st"
  using loadBucket_saved [OF assms(2,3)] assms(1,4,5) by (auto simp: op_context_def)

lemma check_loaded:
  assumes "op_context t0 s now (axis_limit ax limits)" "active ax (Split limits)"
    and "granted (fst (mem_Check s now key limits cost rid))"
  shows "axis_load ax (snd (mem_Check s now key limits cost rid)) (bucketKey key) (axis_limit ax limits) (ms_of_time now)
    = fst (axis_try ax s now key limits cost)"
proof (rule op_context_saved [OF assms(1)])
  show "bucket_ok (fst (axis_try ax s now key limits cost))"
    unfolding axis_try_def using assms(1)
    by (intro TryConsume_ok op_context_load(1) [OF assms(1)]) (simp add: op_context_def)
qed (use assms(2,3) in \<open>simp_all add: axis_try_def mem_Check_axis\<close>)

lemma check_near:
  assumes ctx: "op_context t0 s now (axis_limit ax limits)" and act: "active ax (Split limits)"
    and g: "granted (fst (mem_Check s now key limits cost rid))"
  defines "T \<equiv> Tokens (axis_load ax s (bucketKey key) (axis_limit ax limits) (ms_of_time now))"
  shows "\<bar>Tokens (fst (axis_try ax s now key limits cost)) - (T - of_int (max 0 (axis_cost ax cost)))\<bar>
    \<le> of_int (axis_limit ax limits) / 2 ^ 51"
proof -
  let ?c = "axis_limit ax limits" and ?n = "max 0 (axis_cost ax cost)"
  note L = op_context_load [OF ctx, of ax "bucketKey key"]
    and D = bucket_okD [OF op_context_load(1) [OF ctx, of ax "bucketKey key"]]
  have c: "0 < ?c" "clock_ok (ms_of_time now)" using ctx by (simp_all add: op_context_def)
  have a: "ResAllowed (snd (axis_try ax s now key limits cost))"
    using mem_Check_granted_axis [OF g act] by (simp add: axis_try_def)
  have n: "of_int ?n \<le> T + 2 * f64_eps" "?n \<le> ?c"
    using TryConsume_sound [OF L(1) c(2), of ?n] a L(2) unfolding axis_try_def T_def TryConsume_allowed_iff by auto
  have f: "f64_of_int ?n = of_int ?n" using n(2) D(4) by (intro f64_capacity) auto
  have "Tokens (fst (axis_try ax s now key limits cost)) = f64_sub T (of_int ?n)"
    using TryConsume_allowed_state [OF a [unfolded axis_try_def]] L(2) f by (simp add: T_def axis_try_def)
  moreover have "\<bar>T - of_int ?n\<bar> \<le> of_int ?c + 1"
  proof -
    have "0 \<le> (of_int ?n :: rat)" "(1 :: rat) \<le> of_int ?c" using c by simp_all
    then show ?thesis using n(1) D(3) two_eps_le_1 unfolding T_def by (simp only: abs_le_iff loadBucket_fields) linarith
  qed
  ultimately show ?thesis
    using rnd64_near [of "T - of_int ?n" ?c 1] c by (simp add: f64_sub_def)
qed

text \<open>
  C11 (what a grant takes). After a granted check the bucket of every axis the configuration
  uses holds what it held at that instant minus the cost, up to one rounding; the decision
  reports the remaining tokens, rounded down, and the id under which the cost was reserved.
\<close>

theorem check_takes_cost:
  assumes ctx: "op_context t0 s now (axis_limit ax limits)" and act: "active ax (Split limits)"
    and res: "mem_Check s now key limits cost rid = (Inr d, s')" "Allowed d"
  defines "T \<equiv> Tokens (axis_load ax s (bucketKey key) (axis_limit ax limits) (ms_of_time now))"
    and "T' \<equiv> Tokens (axis_load ax s' (bucketKey key) (axis_limit ax limits) (ms_of_time now))"
  shows "\<bar>T' - (T - of_int (max 0 (axis_cost ax cost)))\<bar> \<le> of_int (axis_limit ax limits) / 2 ^ 51 \<and>
    axis_remaining ax d = \<lfloor>T'\<rfloor> \<and> ReservationID d = rid \<and> res_view s' now rid = Some (Pending, Split limits)"
proof -
  have g: "granted (fst (mem_Check s now key limits cost rid))" using res by simp
  have T': "T' = Tokens (fst (axis_try ax s now key limits cost))"
    using check_loaded [OF ctx act g] res by (simp add: T'_def)
  have "bucket_ok (fst (axis_try ax s now key limits cost))"
    unfolding axis_try_def using ctx
    by (intro TryConsume_ok op_context_load(1) [OF ctx]) (simp add: op_context_def)
  then have "axis_remaining ax d = \<lfloor>T'\<rfloor>"
    using mem_Check_remaining [of s now key limits cost rid d ax] res act floor_tokens(3)
    by (simp add: T' TryConsume_remaining axis_try_def)
  moreover have "res_view s' now rid = Some (Pending, Split limits)"
    using res_view_pending(1) [OF check_pending [OF g, of now]] res
    by (simp add: time_add_def ReservationTTL_def Minute_def)
  ultimately show ?thesis
    using mem_Check_remaining [of s now key limits cost rid d ax] res act check_near [OF ctx act g]
    by (simp add: T' T_def)
qed

lemma ex_context: "op_context 0 mem_New 1000000000 (axis_limit Tpm ex_limits)"
  by (simp add: op_context_def store_ok_New clock_ok_def in64_def ms_of_time_def ex_defs)

theorem check_takes_cost_witness:
  "\<exists>d s'. mem_Check mem_New 1000000000 ex_key ex_limits ex_cost ''r'' = (Inr d, s') \<and> Allowed d \<and>
     axis_remaining Tpm d =
       \<lfloor>Tokens (axis_load Tpm s' (bucketKey ex_key) (axis_limit Tpm ex_limits) (ms_of_time 1000000000))\<rfloor>"
proof -
  obtain d s' where r: "mem_Check mem_New 1000000000 ex_key ex_limits ex_cost ''r'' = (Inr d, s')" "Allowed d"
    using ex_check by (cases "mem_Check mem_New 1000000000 ex_key ex_limits ex_cost ''r''";
        cases "fst (mem_Check mem_New 1000000000 ex_key ex_limits ex_cost ''r'')") auto
  have "active Tpm (Split ex_limits)" by (simp add: ex_limits_def Split_def)
  from check_takes_cost [OF ex_context this r] r show ?thesis by blast
qed

text \<open>
  C16 (a refund undoes a check). A check that was granted and is refunded at the same
  millisecond leaves every bucket it used within a few roundings of what it held before.
\<close>

theorem check_refund_roundtrip:
  assumes ctx: "op_context t0 s now (axis_limit ax limits)" and act: "active ax (Split limits)"
    and g: "granted (fst (mem_Check s now key limits cost rid))"
    and same: "ms_of_time now' = ms_of_time now" "now' \<le> time_add now ReservationTTL"
    and lim: "limits_ok limits"
  defines "s' \<equiv> exec (DoRefund rid) now' (exec (DoCheck key limits cost rid) now s)"
  shows "\<bar>Tokens (axis_load ax s' (bucketKey key) (axis_limit ax limits) (ms_of_time now)) -
      Tokens (axis_load ax s (bucketKey key) (axis_limit ax limits) (ms_of_time now))\<bar>
    \<le> of_int (axis_limit ax limits) / 2 ^ 50"
proof -
  let ?c = "axis_limit ax limits" and ?n = "max 0 (axis_cost ax cost)" and ?k = "bucketKey key"
  let ?t = "ms_of_time now"
  define s1 where "s1 = exec (DoCheck key limits cost rid) now s"
  have ctx1: "op_context ?t s1 now' ?c"
    using ctx exec_store_ok [of t0 s now "DoCheck key limits cost rid"] lim same
    by (auto simp: op_context_def s1_def)
  note L0 = op_context_load [OF ctx, of ax ?k] and L1 = op_context_load [OF ctx1, of ax ?k, unfolded same]
  have t: "clock_ok ?t" "0 < ?c" using ctx by (simp_all add: op_context_def)
  have n: "0 \<le> ?n" "?n \<le> ?c"
    using mem_Check_granted_axis [OF g act] by (simp_all add: TryConsume_allowed_iff)
  have "axis_map ax s' = saveBucket (axis_map ax s1) ?k (Credit (axis_load ax s1 ?k ?c ?t) ?t ?n)"
    using check_pending [OF g same(2)] act same(1)
    by (simp add: s'_def s1_def mem_Refund_axis new_reservation_axis)
  then have s': "axis_load ax s' ?k ?c ?t = Credit (axis_load ax s1 ?k ?c ?t) ?t ?n"
    using op_context_saved [OF ctx1, of "Credit (axis_load ax s1 ?k ?c ?t) ?t ?n"] Credit_ok [OF L1(1) t(1)] same(1)
    by simp
  have "\<bar>Tokens (axis_load ax s' ?k ?c ?t) - min (of_int ?c) (Tokens (axis_load ax s1 ?k ?c ?t) + of_int ?n)\<bar>
      \<le> of_int ?c / 2 ^ 51"
    using Credit_near [OF L1(1) t(1) _ n(1)] n(2) t(2) unfolding s' L1(2) loadBucket_fields by blast
  moreover have "\<bar>Tokens (axis_load ax s1 ?k ?c ?t) - (Tokens (axis_load ax s ?k ?c ?t) - of_int ?n)\<bar> \<le> of_int ?c / 2 ^ 51"
    using check_near [OF ctx act g] check_loaded [OF ctx act g] by (simp add: s1_def)
  moreover have "Tokens (axis_load ax s ?k ?c ?t) \<le> of_int ?c" using bucket_okD(3) [OF L0(1)] by simp
  moreover have "of_int ?c / 2 ^ 51 + of_int ?c / 2 ^ 51 = (of_int ?c / 2 ^ 50 :: rat)" by simp
  ultimately show ?thesis by linarith
qed

theorem check_refund_roundtrip_witness:
  "\<bar>Tokens (axis_load Tpm (exec (DoRefund ''r'') 1000000007 (exec (DoCheck ex_key ex_limits ex_cost ''r'') 1000000000 mem_New))
       (bucketKey ex_key) (axis_limit Tpm ex_limits) (ms_of_time 1000000000)) -
     Tokens (axis_load Tpm mem_New (bucketKey ex_key) (axis_limit Tpm ex_limits) (ms_of_time 1000000000))\<bar>
    \<le> of_int (axis_limit Tpm ex_limits) / 2 ^ 50"
proof (rule check_refund_roundtrip [OF ex_context _ ex_check])
  show "active Tpm (Split ex_limits)" "limits_ok ex_limits"
    by (simp_all add: ex_limits_def Split_def limits_ok_def cap_ok_def)
qed (simp_all add: ms_of_time_def time_add_def ReservationTTL_def Minute_def)

lemma settle_loaded:
  assumes ctx: "op_context t0 s now c" and c: "axis_rlimit ax r = c"
    and a: "0 \<le> axis_reserved ax r" "axis_reserved ax r \<le> c" "0 \<le> act" "act < 2 ^ 62"
    and m: "axis_map ax s' = saveBucket (axis_map ax s) k
       (fst (settleAxis (axis_load ax s k c (ms_of_time now)) (ms_of_time now) (axis_reserved ax r) act))"
  shows "axis_load ax s' k c (ms_of_time now) =
    fst (settleAxis (axis_load ax s k c (ms_of_time now)) (ms_of_time now) (axis_reserved ax r) act)"
proof (rule op_context_saved [OF ctx _ _ _ m])
  let ?L = "axis_load ax s k c (ms_of_time now)"
  have res: "axis_reserved ax r \<le> 2 ^ 53" using a(2) ctx by (simp add: op_context_def)
  note cs = settleAxis_cases [OF a(1) res a(3,4)]
  have t: "clock_ok (ms_of_time now)" and i: "in64 (act - axis_reserved ax r)"
    using ctx a res by (simp_all add: op_context_def in64_def)
  show "bucket_ok (fst (settleAxis ?L (ms_of_time now) (axis_reserved ax r) act))"
    using op_context_load(1) [OF ctx] Credit_ok DebitFloor_ok t i by (simp add: cs)
  show "LastMs (fst (settleAxis ?L (ms_of_time now) (axis_reserved ax r) act)) = ms_of_time now"
    "Capacity (fst (settleAxis ?L (ms_of_time now) (axis_reserved ax r) act)) = c"
    by (simp_all add: cs)
qed

text \<open>
  C12 (a settlement charges the actual usage). Settling a pending classic reservation with
  the usage \<open>a\<close> reports as overshoot exactly the part of \<open>a\<close> beyond the reservation that the
  bucket, rounded down, cannot cover. Up to roundings the bucket then holds what it held plus
  the reserved amount minus the part of \<open>a\<close> that is not overshoot, capped at the limit.
\<close>

theorem settle_accounting:
  assumes ctx: "op_context t0 s now (rLimitTPM r)" and p: "pending s now rid = Some r" "\<not> rSplit r"
    and a: "0 \<le> a" "a < 2 ^ 62" and res: "mem_Settle s now rid a = (Inr d, s')"
  defines "T \<equiv> Tokens (axis_load Tpm s (res_key r) (rLimitTPM r) (ms_of_time now))"
    and "T' \<equiv> Tokens (axis_load Tpm s' (res_key r) (rLimitTPM r) (ms_of_time now))"
  shows "OvershootTPM d = (if rTpmReserved r < a then max 0 (a - rTpmReserved r - \<lfloor>T\<rfloor>) else 0) \<and>
    \<bar>T' - min (of_int (rLimitTPM r)) (T + of_int (rTpmReserved r) + of_int (OvershootTPM d) - of_int a)\<bar>
      \<le> of_int (rLimitTPM r) / 2 ^ 51"
proof -
  let ?t = "ms_of_time now" and ?c = "rLimitTPM r"
  let ?L = "axis_load Tpm s (res_key r) ?c ?t"
  have "store_ok t0 s" using ctx by (simp add: op_context_def)
  from res_okD [OF pending_res_ok [OF this p(1)], of Tpm]
  have r: "0 \<le> axis_reserved Tpm r" "axis_reserved Tpm r \<le> ?c" by simp_all
  have m: "axis_map Tpm s' = saveBucket (axis_map Tpm s) (res_key r)
      (fst (settleAxis ?L ?t (axis_reserved Tpm r) a))"
    using mem_Settle_axis [of Tpm s now rid a] p a res by simp
  have over: "OvershootTPM d = snd (settleAxis ?L ?t (rTpmReserved r) a)"
    using mem_Settle_over [OF p, of a] res a by simp
  have "T' = Tokens (fst (settleAxis ?L ?t (rTpmReserved r) a))"
    using settle_loaded [OF ctx _ r a m] by (simp add: T'_def)
  then show ?thesis
    using settleAxis_account [OF op_context_load(1) [OF ctx] _ op_context_load(2) [OF ctx], of Tpm "res_key r"
        "rTpmReserved r" a] r a ctx by (simp add: T_def over op_context_def)
qed

lemma ex_context2:
  "op_context 1000 (exec (DoCheck ex_key ex_limits ex_cost ''r'') 1000000000 mem_New) 2000000000
     (rLimitTPM (new_reservation ex_key ex_limits ex_cost 1000000000))"
proof -
  have "store_ok (ms_of_time 1000000000) (exec (DoCheck ex_key ex_limits ex_cost ''r'') 1000000000 mem_New)"
    by (rule exec_store_ok [OF store_ok_New [of 0]])
       (simp_all add: clock_ok_def in64_def ms_of_time_def ex_defs limits_ok_def cap_ok_def)
  then show ?thesis
    by (simp add: op_context_def clock_ok_def in64_def ms_of_time_def new_reservation_def ex_limits_def Split_def)
qed

theorem settle_accounting_witness:
  "\<exists>d s'. mem_Settle (exec (DoCheck ex_key ex_limits ex_cost ''r'') 1000000000 mem_New) 2000000000 ''r'' 5 = (Inr d, s') \<and>
     OvershootTPM d = 0"
proof -
  let ?s = "exec (DoCheck ex_key ex_limits ex_cost ''r'') 1000000000 mem_New"
  let ?r = "new_reservation ex_key ex_limits ex_cost 1000000000"
  have p: "pending ?s 2000000000 ''r'' = Some ?r"
    using check_pending [OF ex_check, of 2000000000] by (simp add: time_add_def ReservationTTL_def Minute_def)
  have sp: "\<not> rSplit ?r" by (simp add: ex_limits_def Split_def)
  obtain d s' where r: "mem_Settle ?s 2000000000 ''r'' 5 = (Inr d, s')"
    using mem_Settle_over [OF p sp, of 5] by (metis prod.collapse)
  have "rTpmReserved ?r = 20" by (simp add: new_reservation_def ex_limits_def Split_def ex_cost_def)
  then show ?thesis using settle_accounting [OF ex_context2 p sp _ _ r] r by simp
qed

text \<open>
  C13 (a split settlement charges both directions). \<^verbatim>\<open>SettleIO\<close> does on the input and on the
  output axis what \<^verbatim>\<open>Settle\<close> does on the token axis.
\<close>

theorem settle_io_accounting:
  assumes ctx: "op_context t0 s now (axis_rlimit ax r)" and p: "pending s now rid = Some r" "rSplit r"
    and ax: "ax = Itpm \<or> ax = Otpm" and a: "a = axis_pick ax 0 0 i out" "0 \<le> a" "a < 2 ^ 62"
    and res: "mem_SettleIO s now rid i out = (Inr d, s')"
  defines "T \<equiv> Tokens (axis_load ax s (res_key r) (axis_rlimit ax r) (ms_of_time now))"
    and "T' \<equiv> Tokens (axis_load ax s' (res_key r) (axis_rlimit ax r) (ms_of_time now))"
  shows "axis_over ax d = (if axis_reserved ax r < a then max 0 (a - axis_reserved ax r - \<lfloor>T\<rfloor>) else 0) \<and>
    \<bar>T' - min (of_int (axis_rlimit ax r)) (T + of_int (axis_reserved ax r) + of_int (axis_over ax d) - of_int a)\<bar>
      \<le> of_int (axis_rlimit ax r) / 2 ^ 51"
proof -
  let ?t = "ms_of_time now" and ?c = "axis_rlimit ax r"
  let ?L = "axis_load ax s (res_key r) ?c ?t"
  have "store_ok t0 s" using ctx by (simp add: op_context_def)
  from res_okD [OF pending_res_ok [OF this p(1)], of ax]
  have r: "0 \<le> axis_reserved ax r" "axis_reserved ax r \<le> ?c" by simp_all
  have m: "axis_map ax s' = saveBucket (axis_map ax s) (res_key r)
      (fst (settleAxis ?L ?t (axis_reserved ax r) a))"
    using mem_SettleIO_axis [of ax s now rid i out] p a ax res by auto
  have over: "axis_over ax d = snd (settleAxis ?L ?t (axis_reserved ax r) a)"
    using mem_SettleIO_over [OF p, of i out] res a ax by auto
  have "T' = Tokens (fst (settleAxis ?L ?t (axis_reserved ax r) a))"
    using settle_loaded [OF ctx _ r a(2,3) m] by (simp add: T'_def)
  then show ?thesis
    using settleAxis_account [OF op_context_load(1) [OF ctx] _ op_context_load(2) [OF ctx], of ax "res_key r"
        "axis_reserved ax r" a] r a ctx by (simp add: T_def over op_context_def)
qed

definition ex_split :: Limits where
  "ex_split = \<lparr>RequestsPerMinute = 60, TokensPerMinute = 0,
     InputTokensPerMinute = 600, OutputTokensPerMinute = 300\<rparr>"

definition ex_cost_io :: Cost where
  "ex_cost_io = \<lparr>Requests = 1, CTokens = 0, InputTokens = 100, OutputTokens = 50\<rparr>"

lemma ex_check_io: "granted (fst (mem_Check mem_New 1000000000 ex_key ex_split ex_cost_io ''r''))"
  by (simp add: store_eval ex_key_def ex_split_def ex_cost_io_def bucket_eval)

theorem settle_io_accounting_witness:
  "\<exists>d s'. mem_SettleIO (exec (DoCheck ex_key ex_split ex_cost_io ''r'') 1000000000 mem_New) 2000000000 ''r'' 5 7 = (Inr d, s') \<and>
     OvershootITPM d = 0"
proof -
  let ?s = "exec (DoCheck ex_key ex_split ex_cost_io ''r'') 1000000000 mem_New"
  let ?r = "new_reservation ex_key ex_split ex_cost_io 1000000000"
  have p: "pending ?s 2000000000 ''r'' = Some ?r"
    using check_pending [OF ex_check_io, of 2000000000] by (simp add: time_add_def ReservationTTL_def Minute_def)
  have sp: "rSplit ?r" by (simp add: ex_split_def Split_def)
  have "store_ok (ms_of_time 1000000000) ?s"
    by (rule exec_store_ok [OF store_ok_New [of 0]])
       (simp_all add: clock_ok_def in64_def ms_of_time_def ex_split_def limits_ok_def cap_ok_def)
  then have ctx: "op_context 1000 ?s 2000000000 (axis_rlimit Itpm ?r)"
    by (simp add: op_context_def clock_ok_def in64_def ms_of_time_def new_reservation_def ex_split_def Split_def)
  obtain d s' where r: "mem_SettleIO ?s 2000000000 ''r'' 5 7 = (Inr d, s')"
    using mem_SettleIO_over [OF p sp, of 5 7] by (metis prod.collapse)
  have "axis_reserved Itpm ?r = 100" by (simp add: new_reservation_def ex_split_def Split_def ex_cost_io_def)
  then show ?thesis using settle_io_accounting [OF ctx p sp _ _ _ _ r, of 5] r by simp
qed

section \<open>Loans\<close>

definition axis_short :: "axis \<Rightarrow> Store \<Rightarrow> time \<Rightarrow> Key \<Rightarrow> Limits \<Rightarrow> BorrowSpec \<Rightarrow> bool" where
  "axis_short ax s now key limits spec \<longleftrightarrow> active ax (Split limits) \<and>
     RemainingInt (Tokens (axis_load ax s (bucketKey key) (axis_limit ax limits) (ms_of_time now)))
       < max 0 (axis_min ax spec)"

lemma mem_Borrow_short:
  assumes "fst (mem_Borrow s now key limits spec) = Inr b" "\<not> BrAllowed b"
  shows "(if Split limits then axis_short Rpm s now key limits spec \<or> axis_short Itpm s now key limits spec \<or>
      axis_short Otpm s now key limits spec
    else axis_short Rpm s now key limits spec \<or> axis_short Tpm s now key limits spec)"
  using assms by (auto simp: mem_Borrow_def borrowClassicLocked_def borrowSplitLocked_def Let_def
      clampSpec_def zero_BorrowResult_def axis_short_def split: option.splits if_splits)

text \<open>
  C17 (loans). A granted loan gives, on every axis the configuration uses, the larger of the
  minimum and the chunk but never more than the bucket holds rounded down, so at least the
  minimum; the bucket is debited by it up to one rounding. A refused loan leaves every bucket as it
  was, and some axis cannot cover its minimum.
\<close>

theorem borrow_lends:
  assumes ctx: "op_context t0 s now (axis_limit ax limits)" and act: "active ax (Split limits)"
    and res: "mem_Borrow s now key limits spec = (Inr b, s')"
  defines "L \<equiv> axis_load ax s (bucketKey key) (axis_limit ax limits) (ms_of_time now)"
  shows "(BrAllowed b \<longrightarrow>
      axis_got ax b = min \<lfloor>Tokens L\<rfloor> (max (max 0 (axis_min ax spec)) (axis_chunk ax spec)) \<and>
      max 0 (axis_min ax spec) \<le> axis_got ax b \<and>
      \<bar>Tokens (axis_load ax s' (bucketKey key) (axis_limit ax limits) (ms_of_time now)) -
         (Tokens L - of_int (axis_got ax b))\<bar> \<le> of_int (axis_limit ax limits) / 2 ^ 51) \<and>
    (\<not> BrAllowed b \<longrightarrow> axis_map ax s' = axis_map ax s \<and> (\<exists>ax'. axis_short ax' s now key limits spec))"
proof (intro conjI impI)
  let ?c = "axis_limit ax limits" and ?t = "ms_of_time now" and ?mn = "max 0 (axis_min ax spec)"
  let ?got = "wantGot (RemainingInt (Tokens L)) ?mn (max 0 (axis_chunk ax spec))"
  note ok = op_context_load [OF ctx, of ax "bucketKey key", folded L_def]
  have c: "0 < ?c" "clock_ok ?t" "cap_ok ?c" "store_ok t0 s" "t0 \<le> ?t"
    using ctx by (simp_all add: op_context_def cap_ok_def)
  have LC: "Capacity L = ?c" by (simp add: L_def)
  note ft = floor_tokens [OF ok(1), unfolded LC] and D = bucket_okD [OF ok(1), unfolded LC]
  have bb: "fst (mem_Borrow s now key limits spec) = Inr b" using res by simp
  {
    assume al: "BrAllowed b"
    have got: "axis_got ax b = ?got" and mn: "?mn \<le> \<lfloor>Tokens L\<rfloor>"
      using mem_Borrow_got(1) [OF bb al, of ax] mem_Borrow_got(2) [OF bb al act] act ft(3) by (simp_all add: L_def)
    show eq: "axis_got ax b = min \<lfloor>Tokens L\<rfloor> (max ?mn (axis_chunk ax spec))"
      unfolding got using ft(3) by (auto simp: wantGot_def Let_def)
    show ge: "?mn \<le> axis_got ax b" unfolding eq using mn by simp
    have ra: "ResAllowed (snd (TryConsume L ?t ?got))"
      using borrow_eff(2) [OF store_okD(1) [OF c(4)] c(5,2,3)] mem_Borrow_got(2) [OF bb al act]
      by (simp add: L_def)
    have "axis_map ax s' = saveBucket (axis_map ax s) (bucketKey key) (fst (TryConsume L ?t ?got))"
      using mem_Borrow_axis [of ax s now key limits spec] res al act by (simp add: L_def)
    then have s': "axis_load ax s' (bucketKey key) ?c ?t = fst (TryConsume L ?t ?got)"
      by (intro op_context_saved [OF ctx TryConsume_ok [OF ok(1) c(2)]]) (simp_all add: LC)
    have g: "0 \<le> ?got" "?got \<le> \<lfloor>Tokens L\<rfloor>" using ge eq unfolding got by simp_all
    have "?got \<le> 2 ^ 53" using g(2) ft(2) D(4) by linarith
    with g have f: "f64_of_int (max 0 ?got) = of_int ?got" "of_int ?got \<le> Tokens L" "0 \<le> (of_int ?got :: rat)"
      by (simp_all only: max_absorb2 f64_capacity le_floor_iff of_int_0_le_iff)
    have "\<bar>Tokens L - of_int ?got\<bar> \<le> of_int ?c + 0" using f(2,3) D(3) by linarith
    from rnd64_near [OF this c(1)] c(1)
    show "\<bar>Tokens (axis_load ax s' (bucketKey key) ?c ?t) - (Tokens L - of_int (axis_got ax b))\<bar> \<le> of_int ?c / 2 ^ 51"
      unfolding got s' TryConsume_allowed_state [OF ra] by (simp add: f(1) ok(2) f64_sub_def)
  }
  assume nal: "\<not> BrAllowed b"
  show "axis_map ax s' = axis_map ax s"
    using mem_Borrow_axis [of ax s now key limits spec] res nal by simp
  show "\<exists>ax'. axis_short ax' s now key limits spec"
    using mem_Borrow_short [OF bb nal] by (auto split: if_splits)
qed

theorem borrow_lends_witness:
  "\<exists>b s'. mem_Borrow mem_New 1000000000 ex_key ex_limits (zero_BorrowSpec\<lparr>MinTPM := 10, ChunkTPM := 50\<rparr>) = (Inr b, s') \<and>
     GotTPM b = 50"
proof -
  let ?spec = "zero_BorrowSpec\<lparr>MinTPM := 10, ChunkTPM := 50\<rparr>"
  obtain b s' where r: "mem_Borrow mem_New 1000000000 ex_key ex_limits ?spec = (Inr b, s')" "BrAllowed b"
    by (simp add: mem_Borrow_def borrowClassicLocked_def store_eval ex_defs bucket_eval clampSpec_def
        zero_BorrowSpec_def zero_BorrowResult_def clampCost_def wantGot_def)
  have T: "Tokens (axis_load Tpm mem_New (bucketKey ex_key) (axis_limit Tpm ex_limits) (ms_of_time 1000000000)) = 120"
    by (simp add: store_eval ex_defs bucket_eval)
  have "active Tpm (Split ex_limits)" by (simp add: ex_limits_def Split_def)
  from borrow_lends [OF ex_context this r(1)] r(2) have "GotTPM b = 50"
    unfolding T by (simp add: zero_BorrowSpec_def)
  then show ?thesis using r(1) by blast
qed

end
