(* ===== verification/Store_Contract.thy ===== *)
theory Store_Contract
  imports Limiter Lease_Facts Memory_Accounting
begin

text \<open>
  What the limiter relies on in a backend, as an interface: an invariant that every operation
  keeps at usable instants and for limits the backend can handle, checks that answer with the id
  they were given, and loans that cover the minimum they were asked for and stay below \<open>2 ^ 53\<close>. The in-memory store provides it here, the Redis store
  in theory \<open>Redis_Invariant\<close>. The client lemmas about the limiter are
  proved from the interface alone.
\<close>

section \<open>The interface\<close>

locale store_contract =
  fixes S :: "'s StoreOps" and sinv :: "time \<Rightarrow> 's \<Rightarrow> bool" and usable :: "time \<Rightarrow> bool"
    and lim_ok :: "Limits \<Rightarrow> bool"
  assumes check_keeps: "sinv t0 s \<Longrightarrow> t0 \<le> t \<Longrightarrow> usable t \<Longrightarrow> lim_ok limits \<Longrightarrow>
      sinv t (snd (opCheck S s t key limits cost rid))"
    and borrow_keeps: "sinv t0 s \<Longrightarrow> t0 \<le> t \<Longrightarrow> usable t \<Longrightarrow> lim_ok limits \<Longrightarrow>
      sinv t (snd (opBorrow S s t key limits spec))"
    and return_keeps: "sinv t0 s \<Longrightarrow> t0 \<le> t \<Longrightarrow> usable t \<Longrightarrow> lim_ok limits \<Longrightarrow>
      sinv t (snd (opReturn S s t key limits n1 n2 n3 n4))"
    and settle_keeps: "sinv t0 s \<Longrightarrow> t0 \<le> t \<Longrightarrow> usable t \<Longrightarrow> n < 2 ^ 62 \<Longrightarrow>
      sinv t (snd (opSettle S s t rid n))"
    and settle_io_keeps: "sinv t0 s \<Longrightarrow> t0 \<le> t \<Longrightarrow> usable t \<Longrightarrow> n < 2 ^ 62 \<Longrightarrow> m < 2 ^ 62 \<Longrightarrow>
      sinv t (snd (opSettleIO S s t rid n m))"
    and refund_keeps: "sinv t0 s \<Longrightarrow> t0 \<le> t \<Longrightarrow> usable t \<Longrightarrow> sinv t (snd (opRefund S s t rid))"
    and borrow_covers: "sinv t0 s \<Longrightarrow> t0 \<le> t \<Longrightarrow> usable t \<Longrightarrow> lim_ok limits \<Longrightarrow>
      opBorrow S s t key limits spec = (Inr b, s') \<Longrightarrow> BrAllowed b \<Longrightarrow>
      (if active ax (Split limits)
       then max 0 (axis_min ax spec) \<le> axis_got ax b \<and> axis_got ax b \<le> 2 ^ 53
       else axis_got ax b = 0)"
    and check_id: "fst (opCheck S s t key limits cost rid) = Inr d \<Longrightarrow>
      ReservationID d = (if Allowed d then rid else '''')"
begin

lemma borrow_amount:
  assumes "sinv t0 s" "t0 \<le> t" "usable t" "lim_ok limits"
    and "opBorrow S s t key limits spec = (Inr b, s')" "BrAllowed b"
  shows "amount_ok (axis_got ax b)" "axis_got ax b \<le> 2 ^ 53"
proof -
  have "0 \<le> axis_got ax b \<and> axis_got ax b \<le> 2 ^ 53"
    using borrow_covers [OF assms, of ax] by (cases "active ax (Split limits)") auto
  then show "amount_ok (axis_got ax b)" "axis_got ax b \<le> 2 ^ 53" by (simp_all add: amount_ok_def)
qed

end

section \<open>The in-memory store provides it\<close>

definition mem_usable :: "time \<Rightarrow> bool" where
  "mem_usable t \<longleftrightarrow> 0 < t div 1000000 \<and> in64 (t div 1000000)"

definition mem_inv :: "time \<Rightarrow> Store \<Rightarrow> bool" where
  "mem_inv t s \<longleftrightarrow> mem_usable t \<and> store_ok (ms_of_time t) s"

lemma mem_inv_exec:
  assumes "mem_inv t0 s" "t0 \<le> t" "mem_usable t" "op_ok opn"
  shows "mem_inv t (exec opn t s)"
proof -
  have "clock_ok (ms_of_time t)" "ms_of_time t0 \<le> ms_of_time t"
    using assms by (simp_all add: mem_inv_def mem_usable_def clock_ok_def ms_of_time_def zdiv_mono1)
  then show ?thesis using assms exec_store_ok unfolding mem_inv_def by blast
qed

lemma mem_borrow_covers:
  assumes inv: "mem_inv t0 s" "t0 \<le> t" "mem_usable t" "limits_ok limits"
    and b: "fst (mem_Borrow s t key limits spec) = Inr b" "BrAllowed b"
  shows "if active ax (Split limits)
       then max 0 (axis_min ax spec) \<le> axis_got ax b \<and> axis_got ax b \<le> axis_limit ax limits
       else axis_got ax b = 0"
proof -
  let ?m = "axis_map ax s" and ?c = "axis_limit ax limits" and ?k = "bucketKey key" and ?t = "ms_of_time t"
  have "clock_ok ?t" "ms_of_time t0 \<le> ?t"
    using inv by (simp_all add: mem_inv_def mem_usable_def clock_ok_def ms_of_time_def zdiv_mono1)
  moreover have "axis_ok (ms_of_time t0) ?m" using store_okD(1) inv by (auto simp: mem_inv_def)
  ultimately have ok: "bucket_ok (loadBucket ?m ?k ?c ?t)" using loadBucket_ok limits_okD inv(4) by blast
  note ft = floor_tokens [OF ok, simplified]
  show ?thesis
    using mem_Borrow_got(1) [OF b, of ax] mem_Borrow_got(2) [OF b, of ax] ft by (auto simp: wantGot_def Let_def)
qed

lemma mem_check_id:
  assumes "fst (mem_Check s t key limits cost rid) = Inr d"
  shows "ReservationID d = (if Allowed d then rid else '''')"
proof (cases "Allowed d")
  case True
  then show ?thesis using mem_Check_remaining [OF assms, of Rpm] by simp
next
  case False
  then show ?thesis using check_blames [OF assms False] by (auto simp: blames_def split: if_splits)
qed

interpretation memory: store_contract memory_store mem_inv mem_usable limits_ok
proof (unfold_locales, goal_cases)
  case 1 then show ?case using mem_inv_exec [where opn = "DoCheck _ _ _ _"] by (simp add: memory_store_def)
next
  case 2 then show ?case using mem_inv_exec [where opn = "DoBorrow _ _ _"] by (simp add: memory_store_def)
next
  case 3 then show ?case using mem_inv_exec [where opn = "DoReturn _ _ _ _ _ _"] by (simp add: memory_store_def)
next
  case 4 then show ?case using mem_inv_exec [where opn = "DoSettle _ _"] by (simp add: memory_store_def)
next
  case 5 then show ?case using mem_inv_exec [where opn = "DoSettleIO _ _ _"] by (simp add: memory_store_def)
next
  case 6 then show ?case using mem_inv_exec [where opn = "DoRefund _"] by (simp add: memory_store_def)
next
  case (7 t0 s t limits key spec b s' ax)
  then have "fst (mem_Borrow s t key limits spec) = Inr b" by (simp add: memory_store_def)
  then show ?case using mem_borrow_covers [of t0 s t limits key spec b ax] limits_okD [of limits ax] 7
    by (auto simp: cap_ok_def split: if_splits)
next
  case 8 then show ?case using mem_check_id by (simp add: memory_store_def)
qed

end
