(* ===== verification/Redis_Invariant.thy ===== *)
theory Redis_Invariant
  imports Redis_Store Store_Contract
begin

text \<open>
  The invariant of the data in Redis: every bucket hash holds an amount from zero to below
  \<open>2 ^ 53\<close> and a timestamp and never expires, and the numbers in a reservation hash are
  amounts. Every script keeps it, whatever the clock shows and whichever calls are lost on
  the way, and with it the Redis store provides the interface the limiter relies on.
\<close>

section \<open>Keys\<close>

fun axis_suffix :: "axis \<Rightarrow> string" where
  "axis_suffix Rpm = '':rpm''"
| "axis_suffix Tpm = '':tpm''"
| "axis_suffix Itpm = '':itpm''"
| "axis_suffix Otpm = '':otpm''"

definition rkey :: "axis \<Rightarrow> Key \<Rightarrow> string" where
  "rkey ax key = ''rl:{{{'' @ Subject key @ ''}}}:'' @ modelOrDash (Model key) @ axis_suffix ax"

lemma bucketKeys_rkey: "bucketKeys key = (rkey Rpm key, rkey Tpm key)"
  by (simp add: bucketKeys_def rkey_def Let_def)

lemma bucketKeysIO_rkey: "bucketKeysIO key = (rkey Rpm key, rkey Itpm key, rkey Otpm key)"
  by (simp add: bucketKeysIO_def rkey_def Let_def)

lemma rkey_res [simp]: "rkey ax key \<noteq> reservationKey rid" "reservationKey rid \<noteq> rkey ax key"
  by (simp_all add: rkey_def reservationKey_def)

lemma reservationKey_inj [simp]: "reservationKey a = reservationKey b \<longleftrightarrow> a = b"
  by (simp add: reservationKey_def)

lemma modelOrDash_idem [simp]: "modelOrDash (modelOrDash m) = modelOrDash m"
  by (simp add: modelOrDash_def)

text \<open>The budgets of a key have keys of their own.\<close>

lemma rkey_axis [simp]: "rkey ax key = rkey ax' key \<longleftrightarrow> ax = ax'"
  by (cases ax; cases ax') (simp_all add: rkey_def)

section \<open>Well-formed data\<close>

definition amount :: "float64 \<Rightarrow> bool" where
  "amount x \<longleftrightarrow> is_f64 x \<and> 0 \<le> x \<and> x < 2 ^ 53"

text \<open>The limits the scripts handle exactly.\<close>

definition rlimit :: "int64 \<Rightarrow> bool" where
  "rlimit c \<longleftrightarrow> 0 \<le> c \<and> c < 2 ^ 53"

definition redis_limits :: "Limits \<Rightarrow> bool" where
  "redis_limits l \<longleftrightarrow> (\<forall>ax \<in> {Rpm, Tpm, Itpm, Otpm}. rlimit (axis_limit ax l))"

lemma redis_limitsD: "redis_limits l \<Longrightarrow> rlimit (axis_limit ax l)"
  by (simp only: redis_limits_def all_axes)

definition num_wf :: "'r RedisOps \<Rightarrow> (float64 \<Rightarrow> bool) \<Rightarrow> string \<Rightarrow> bool" where
  "num_wf R P v = (case rToNumber R v of None \<Rightarrow> False | Some x \<Rightarrow> P x)"

definition bucket_wf :: "'r RedisOps \<Rightarrow> (string \<rightharpoonup> string) \<Rightarrow> bool" where
  "bucket_wf R m \<longleftrightarrow> m = Map.empty \<or>
     (\<exists>v l. m ''tokens'' = Some v \<and> num_wf R amount v \<and> m ''last_ms'' = Some l \<and> num_wf R is_f64 l)"

definition limit_fields :: "string set" where
  "limit_fields = {''limit_rpm'', ''limit_tpm'', ''limit_itpm'', ''limit_otpm''}"

definition cost_fields :: "string set" where
  "cost_fields = {''rpm_cost'', ''tpm_reserved'', ''itpm_reserved'', ''otpm_reserved''}"

fun limit_field :: "axis \<Rightarrow> string" where
  "limit_field Rpm = ''limit_rpm''"
| "limit_field Tpm = ''limit_tpm''"
| "limit_field Itpm = ''limit_itpm''"
| "limit_field Otpm = ''limit_otpm''"

fun reserved_field :: "axis \<Rightarrow> string" where
  "reserved_field Rpm = ''rpm_cost''"
| "reserved_field Tpm = ''tpm_reserved''"
| "reserved_field Itpm = ''itpm_reserved''"
| "reserved_field Otpm = ''otpm_reserved''"

definition res_field_wf :: "'r RedisOps \<Rightarrow> string \<Rightarrow> string \<Rightarrow> bool" where
  "res_field_wf R f v \<longleftrightarrow> (f \<in> limit_fields \<longrightarrow> num_wf R amount v) \<and>
     (f \<in> cost_fields \<longrightarrow> num_wf R (\<lambda>x. is_f64 x \<and> 0 \<le> x) v)"

text \<open>The fields a reservation has: who reserved, its state, and what the scripts of its mode read.\<close>

definition res_shape :: "(string \<rightharpoonup> string) \<Rightarrow> bool" where
  "res_shape m \<longleftrightarrow> m ''subject'' \<noteq> None \<and>
     m ''status'' \<in> {Some ''pending'', Some ''settled'', Some ''refunded''} \<and>
     {''rpm_cost'', ''limit_rpm''} \<subseteq> dom m \<and>
     (m ''mode'' = Some ''classic'' \<and> {''tpm_reserved'', ''limit_tpm''} \<subseteq> dom m \<or>
      m ''mode'' = Some ''split'' \<and> {''itpm_reserved'', ''otpm_reserved'', ''limit_itpm'', ''limit_otpm''} \<subseteq> dom m)"

definition res_wf :: "'r RedisOps \<Rightarrow> (string \<rightharpoonup> string) \<Rightarrow> bool" where
  "res_wf R m \<longleftrightarrow> (m = Map.empty \<or> res_shape m) \<and> (\<forall>f v. m f = Some v \<longrightarrow> res_field_wf R f v)"

definition redis_ok :: "'r RedisOps \<Rightarrow> ('r \<Rightarrow> string \<Rightarrow> string \<rightharpoonup> string) \<Rightarrow>
    ('r \<Rightarrow> string \<Rightarrow> int option) \<Rightarrow> 'r \<Rightarrow> bool" where
  "redis_ok R H D s \<longleftrightarrow> redis_laws R H D \<and>
     (\<forall>ax key. D s (rkey ax key) = None \<and> bucket_wf R (H s (rkey ax key))) \<and>
     (\<forall>rid. res_wf R (H s (reservationKey rid)))"

lemma redis_okD:
  assumes "redis_ok R H D s"
  shows "redis_laws R H D" and "D s (rkey ax key) = None" and "bucket_wf R (H s (rkey ax key))"
    and "res_wf R (H s (reservationKey rid))" and "rfields H D s t (rkey ax key) = H s (rkey ax key)"
    and "res_wf R (rfields H D s t (reservationKey rid))"
  using assms by (auto simp: redis_ok_def rfields_def rlive_def res_wf_def)

lemma amountI: "is_f64 x \<Longrightarrow> 0 \<le> x \<Longrightarrow> x < 2 ^ 53 \<Longrightarrow> amount x"
  by (simp add: amount_def)

lemma amountD: "amount x \<Longrightarrow> is_f64 x" "amount x \<Longrightarrow> 0 \<le> x" "amount x \<Longrightarrow> x < 2 ^ 53"
  by (simp_all add: amount_def)

lemma num_wf_text [simp]: "redis_laws R H D \<Longrightarrow> is_f64 x \<Longrightarrow> num_wf R P (rNumText R x) \<longleftrightarrow> P x"
  using redis_lawsD(7) [of R H D x] by (simp add: num_wf_def)

lemma amount_zero [simp]: "amount 0"
  by (simp add: amount_def)

lemma amount_of_int: "rlimit n \<Longrightarrow> amount (of_int n)"
proof -
  assume n: "rlimit n"
  then have "(of_int n :: rat) < of_int (2 ^ 53)" by (simp only: of_int_less_iff rlimit_def)
  then show "amount (of_int n)" using n by (simp add: amount_def rlimit_def is_f64_capacity)
qed

lemma amount_limit [simp]: "rlimit c \<Longrightarrow> amount (f64_of_int c)"
  using amount_of_int [of c] by (simp add: rlimit_def f64_capacity)

lemma floor_rlimit: "amount x \<Longrightarrow> rlimit \<lfloor>x\<rfloor>"
proof -
  assume x: "amount x"
  then have "x < of_int (2 ^ 53)" using amountD(3) by simp
  then have "\<lfloor>x\<rfloor> < 2 ^ 53" by (simp only: floor_less_iff)
  then show ?thesis using amountD(2) [OF x] by (simp add: rlimit_def)
qed

lemma amount_floor [simp]: "amount x \<Longrightarrow> amount (f64_floor x)"
  using amount_of_int [OF floor_rlimit] by (simp add: f64_floor_def)

lemma amount_debit: "amount x \<Longrightarrow> 0 \<le> y \<Longrightarrow> y \<le> x \<Longrightarrow> amount (f64_sub x y)"
  using f64.rnd_lower [of 0 "x - y"] f64.rnd_upper [of "x - y" x]
  by (auto simp: amount_def f64_sub_def rnd64_f64 intro: le_less_trans)

lemma amount_credit: "amount c \<Longrightarrow> amount x \<Longrightarrow> 0 \<le> y \<Longrightarrow> amount (min c (f64_add x y))"
  using f64.rnd_lower [of 0 "x + y"] by (auto simp: amount_def f64_add_def rnd64_f64 min_def)

lemma clamp_nonneg [simp]: "0 \<le> lua_clamp x" "is_f64 x \<Longrightarrow> is_f64 (lua_clamp x)"
  by (simp_all add: lua_clamp_def)

lemma is_f64_of_int [simp]: "is_f64 (f64_of_int n)"
  by (simp add: f64_of_int_def rnd64_f64)

lemma lua_now_f64 [simp]: "is_f64 (lua_now t)"
  by (simp add: lua_now_def)

section \<open>Reading\<close>

lemma lua_refill_amount:
  assumes ok: "redis_ok R H D s" and c: "amount c"
  shows "amount (lua_refill R s t (rkey ax key) c)"
proof -
  note D = redis_okD [OF ok] and L = redis_lawsD [OF redis_okD(1) [OF ok]]
  let ?f = "lua_field R s t (rkey ax key)"
  have "(\<exists>x l. ?f ''tokens'' = Some x \<and> amount x \<and> ?f ''last_ms'' = Some l) \<or> ?f ''tokens'' = None"
    using D(3) [of ax key] D(5) [of t ax key]
    by (auto simp: bucket_wf_def num_wf_def lua_field_def L(1) split: option.splits)
  moreover have "amount (min c (f64_add x (f64_mul e (f64_div c 60))))" if "amount x" "0 \<le> e" for x e
  proof -
    have "0 \<le> f64_div c 60" using amountD(2) [OF c] f64.rnd_lower [of 0 "c / 60"] by (simp add: f64_div_def)
    then have "0 \<le> f64_mul e (f64_div c 60)"
      using \<open>0 \<le> e\<close> f64.rnd_lower [of 0 "e * f64_div c 60"] by (simp add: f64_mul_def)
    then show ?thesis by (rule amount_credit [OF c that(1)])
  qed
  moreover have "0 \<le> f64_div (f64_sub (lua_now t) l) 1000" if "l < lua_now t" for l
  proof -
    have "0 \<le> f64_sub (lua_now t) l" using that f64.rnd_lower [of 0 "lua_now t - l"] by (simp add: f64_sub_def)
    then show ?thesis using f64.rnd_lower [of 0 "f64_sub (lua_now t) l / 1000"] by (simp add: f64_div_def)
  qed
  ultimately show ?thesis using c by (auto simp: lua_refill_def Let_def split: option.splits)
qed

lemma res_num:
  assumes ok: "redis_ok R H D s" and f: "lua_field R s t (reservationKey rid) f = Some x"
  shows "f \<in> limit_fields \<Longrightarrow> amount x" and "f \<in> cost_fields \<Longrightarrow> is_f64 x \<and> 0 \<le> x"
  using f redis_okD(6) [OF ok, of t rid]
  by (auto simp: lua_field_def redis_lawsD(1) [OF redis_okD(1) [OF ok]] res_wf_def res_field_wf_def num_wf_def
      split: option.splits)

section \<open>Writing\<close>

lemma put_ok:
  assumes ok: "redis_ok R H D s" and x: "amount x"
  shows "redis_ok R H D (lua_put R t (rkey ax key) x s)"
proof -
  note D = redis_okD [OF ok]
  let ?fvs = "[(''tokens'', rNumText R x), (''last_ms'', rNumText R (lua_now t))]"
  have "H (lua_put R t (rkey ax key) x s) = (H s)(rkey ax key := rfields H D s t (rkey ax key) ++ map_of ?fvs)"
    "D (lua_put R t (rkey ax key) x s) = D s"
    using redis_lawsD(3,4) [OF D(1), of ?fvs] D(2) by (simp_all add: lua_put_def rlive_def)
  then show ?thesis
    using D amountD(1) [OF x] x
    by (auto simp: redis_ok_def bucket_wf_def num_wf_text [OF D(1)])
qed

lemma set_res_ok:
  assumes ok: "redis_ok R H D s" and fvs: "fvs \<noteq> []" "distinct (map fst fvs)"
    and wf: "\<forall>(f, v) \<in> set fvs. res_field_wf R f v"
    and shape: "res_shape (rfields H D s t (reservationKey rid) ++ map_of fvs)"
  shows "redis_ok R H D (rExpire R (rHMSet R s t (reservationKey rid) fvs) t (reservationKey rid) n)"
proof -
  note D = redis_okD [OF ok]
  let ?k = "reservationKey rid" and ?s = "rHMSet R s t (reservationKey rid) fvs"
  have ne: "rfields H D ?s t ?k \<noteq> Map.empty"
    using fvs(1) unfolding rfields_HMSet [OF D(1) fvs] by simp
  have H: "H (rExpire R ?s t ?k n) = (H s)(?k := rfields H D s t ?k ++ map_of fvs)"
    using redis_lawsD(5) [OF D(1) ne] redis_lawsD(3) [OF D(1) fvs] by simp
  have DD: "D (rExpire R ?s t ?k n) (rkey ax key) = None" for ax key
    using redis_lawsD(6) [OF D(1) ne] redis_lawsD(4) [OF D(1) fvs] D(2) by simp
  have "res_field_wf R f v" if "(rfields H D s t ?k ++ map_of fvs) f = Some v" for f v
    using that D(6) [of t rid] wf by (auto simp: map_add_Some_iff res_wf_def dest!: map_of_SomeD)
  then show ?thesis using D using shape unfolding redis_ok_def H by (simp add: DD res_wf_def)
qed

section \<open>The scripts keep the data well formed\<close>

lemmas res_wf_simps = res_field_wf_def limit_fields_def cost_fields_def

lemma rfields_put:
  assumes "redis_laws R H D" "k \<noteq> rkey ax key"
  shows "rfields H D (lua_put R t (rkey ax key) x s) t k = rfields H D s t k"
  using assms by (simp add: lua_put_def rfields_HMSet)

lemma live_shape:
  assumes "redis_ok R H D s" "rExists R s t (reservationKey rid)"
  shows "res_shape (rfields H D s t (reservationKey rid))"
  using redis_okD(6) [OF assms(1), of t rid] redis_lawsD(2) [OF redis_okD(1) [OF assms(1)], of s t "reservationKey rid"] assms(2)
  by (simp add: res_wf_def)

lemma shape_put:
  assumes "redis_laws R H D" "res_shape (rfields H D s t (reservationKey rid))"
  shows "res_shape (rfields H D (lua_put R t (rkey ax key) x s) t (reservationKey rid))"
  using assms by (simp add: rfields_put)

text \<open>Finishing a reservation changes its status and adds fields no script needs.\<close>

lemma shape_finish:
  assumes "res_shape m" "map_of fvs ''status'' \<in> {Some ''settled'', Some ''refunded''}" "map_of fvs ''mode'' = None"
  shows "res_shape (m ++ map_of fvs)"
proof -
  have md: "(m ++ map_of fvs) ''mode'' = m ''mode''" using assms(3) by (simp add: map_add_def)
  have st: "(m ++ map_of fvs) ''status'' = map_of fvs ''status''" using assms(2) by (auto simp: map_add_def)
  have "(m ++ map_of fvs) ''subject'' \<noteq> None"
    using assms(1) by (simp add: res_shape_def map_add_def split: option.splits)
  then show ?thesis using assms(1,2) unfolding res_shape_def md st insert_subset dom_map_add by blast
qed

lemma finish_res_ok:
  assumes "redis_ok R H D s" "fvs \<noteq> []" "distinct (map fst fvs)" "\<forall>(f, v) \<in> set fvs. res_field_wf R f v"
    and "map_of fvs ''status'' \<in> {Some ''settled'', Some ''refunded''}" "map_of fvs ''mode'' = None"
    and "res_shape (rfields H D s t (reservationKey rid))"
  shows "redis_ok R H D (rExpire R (rHMSet R s t (reservationKey rid) fvs) t (reservationKey rid) n)"
  using set_res_ok [OF assms(1-4) shape_finish] assms(5-) by blast

lemma lua_check_ok:
  assumes ok: "redis_ok R H D s" and c: "rlimit l1" "rlimit l2"
  shows "redis_ok R H D (snd (lua_check R s t (rkey Rpm key) (rkey Tpm key) (reservationKey rid)
    l1 l2 n1 n2 ttl sub m))"
proof -
  note r = lua_refill_amount [OF ok amount_limit [OF c(1)]] lua_refill_amount [OF ok amount_limit [OF c(2)]]
  show ?thesis
    using ok c r amountD(1) [OF amount_limit] unfolding lua_check_def Let_def
    by (auto intro!: set_res_ok put_ok amount_debit simp: not_less num_wf_text [OF redis_okD(1) [OF ok]] res_wf_simps res_shape_def)
qed

lemma lua_check_io_ok:
  assumes ok: "redis_ok R H D s" and c: "rlimit l1" "rlimit l2" "rlimit l3"
  shows "redis_ok R H D (snd (lua_check_io R s t (rkey Rpm key) (rkey Itpm key) (rkey Otpm key)
    (reservationKey rid) l1 l2 l3 n1 n2 n3 ttl sub m))"
proof -
  note r = lua_refill_amount [OF ok amount_limit [OF c(1)]] lua_refill_amount [OF ok amount_limit [OF c(2)]]
    lua_refill_amount [OF ok amount_limit [OF c(3)]]
  show ?thesis
    using ok c r unfolding lua_check_io_def Let_def
    by (auto intro!: set_res_ok put_ok amount_debit simp: not_less num_wf_text [OF redis_okD(1) [OF ok]] res_wf_simps res_shape_def)
qed

lemma apply_delta_amount:
  assumes "amount x" "amount c"
  shows "amount (fst (lua_apply_delta x c reserved actual))"
proof -
  have "f64_floor x \<le> x" by (simp add: f64_floor_def)
  moreover have "0 \<le> f64_floor x" using amountD(2) [OF assms(1)] by (simp add: f64_floor_def)
  ultimately have "amount (f64_sub x (f64_floor x))" "y \<le> f64_floor x \<Longrightarrow> 0 \<le> y \<Longrightarrow> amount (f64_sub x y)" for y
    using amount_debit [OF assms(1)] by simp_all
  then show ?thesis
    using assms amount_credit [OF assms(2,1)] amountD(2)
    by (auto simp: lua_apply_delta_def Let_def not_less)
qed

lemma settle_keys:
  "''limit_rpm'' \<in> limit_fields" "''limit_tpm'' \<in> limit_fields" "''limit_itpm'' \<in> limit_fields"
  "''limit_otpm'' \<in> limit_fields" "''rpm_cost'' \<in> cost_fields" "''tpm_reserved'' \<in> cost_fields"
  "''itpm_reserved'' \<in> cost_fields" "''otpm_reserved'' \<in> cost_fields"
  by (simp_all add: limit_fields_def cost_fields_def)

lemmas script_ok_intros = finish_res_ok shape_put redis_okD(1) put_ok lua_refill_amount apply_delta_amount amount_credit amount_debit

lemma lua_settle_ok:
  assumes ok: "redis_ok R H D s"
  shows "redis_ok R H D (snd (lua_settle R s t (reservationKey rid) (rkey Rpm key) (rkey Tpm key) n ttl))"
  using ok live_shape [OF ok] res_num(1) [OF ok _ settle_keys(1)] res_num(1) [OF ok _ settle_keys(2)]
  unfolding lua_settle_def Let_def
  by (auto intro!: script_ok_intros simp: res_wf_simps prod.case_eq_if split: option.splits)

lemma lua_settle_io_ok:
  assumes ok: "redis_ok R H D s"
  shows "redis_ok R H D (snd (lua_settle_io R s t (reservationKey rid) (rkey Rpm key) (rkey Itpm key)
    (rkey Otpm key) n n' ttl))"
  using ok live_shape [OF ok] res_num(1) [OF ok _ settle_keys(1)] res_num(1) [OF ok _ settle_keys(3)]
    res_num(1) [OF ok _ settle_keys(4)]
  unfolding lua_settle_io_def Let_def
  by (auto intro!: script_ok_intros simp: res_wf_simps prod.case_eq_if split: option.splits)

lemma lua_refund_ok:
  assumes ok: "redis_ok R H D s"
  shows "redis_ok R H D (snd (lua_refund R s t (reservationKey rid) (rkey Rpm key) (rkey Tpm key) ttl))"
  using ok live_shape [OF ok] res_num(1) [OF ok _ settle_keys(1)] res_num(1) [OF ok _ settle_keys(2)]
    res_num(2) [OF ok _ settle_keys(5)] res_num(2) [OF ok _ settle_keys(6)]
  unfolding lua_refund_def Let_def
  by (auto intro!: script_ok_intros simp: res_wf_simps split: option.splits)

lemma lua_refund_io_ok:
  assumes ok: "redis_ok R H D s"
  shows "redis_ok R H D (snd (lua_refund_io R s t (reservationKey rid) (rkey Rpm key) (rkey Itpm key)
    (rkey Otpm key) ttl))"
proof -
  have z: "0 \<le> lua_or0 (lua_field R s t (reservationKey rid) f)" if "f \<in> cost_fields" for f
    using res_num(2) [OF ok _ that] by (auto simp: lua_or0_def split: option.splits)
  show ?thesis
    using ok live_shape [OF ok] res_num(1) [OF ok _ settle_keys(1)] res_num(1) [OF ok _ settle_keys(3)]
      res_num(1) [OF ok _ settle_keys(4)] z [OF settle_keys(5)] z [OF settle_keys(7)] z [OF settle_keys(8)]
    unfolding lua_refund_io_def Let_def
    by (auto intro!: script_ok_intros simp: res_wf_simps split: option.splits)
qed

text \<open>What a loan takes from one bucket.\<close>

definition loan :: "float64 \<Rightarrow> float64 \<Rightarrow> float64 \<Rightarrow> float64" where
  "loan tokens mn chunk = min (f64_floor tokens) (max mn chunk)"

lemma want_got_loan: "lua_want_got (f64_floor x) mn chunk = loan x mn chunk"
  by (simp add: lua_want_got_def loan_def Let_def min_def max_def)

lemma loan_amount:
  assumes "amount x" "0 \<le> mn"
  shows "amount (f64_sub x (loan x mn chunk))" and "loan x mn chunk < 2 ^ 53" and "0 \<le> loan x mn chunk"
    and "mn \<le> f64_floor x \<Longrightarrow> mn \<le> loan x mn chunk"
proof -
  have f: "f64_floor x \<le> x" "0 \<le> f64_floor x" "f64_floor x < 2 ^ 53"
    using amountD(2,3) [OF amount_floor [OF assms(1)]] by (simp_all add: f64_floor_def)
  have l: "loan x mn chunk \<le> f64_floor x" by (simp add: loan_def)
  show l0: "0 \<le> loan x mn chunk" using f assms(2) by (simp add: loan_def)
  show "amount (f64_sub x (loan x mn chunk))" using amount_debit [OF assms(1) l0] l f(1) by simp
  show "loan x mn chunk < 2 ^ 53" using l f(3) by simp
  show "mn \<le> f64_floor x \<Longrightarrow> mn \<le> loan x mn chunk" by (simp add: loan_def)
qed

lemma lua_borrow_ok:
  assumes ok: "redis_ok R H D s" and c: "rlimit l1" "rlimit l2"
  shows "redis_ok R H D (snd (lua_borrow R s t (rkey Rpm key) (rkey Tpm key) l1 l2 n1 n2 k1 k2))"
  using ok c unfolding lua_borrow_def Let_def loan_def [symmetric]
  by (auto intro!: put_ok loan_amount(1) lua_refill_amount)

lemma lua_borrow_io_ok:
  assumes ok: "redis_ok R H D s" and c: "rlimit l1" "rlimit l2" "rlimit l3"
  shows "redis_ok R H D (snd (lua_borrow_io R s t (rkey Rpm key) (rkey Itpm key) (rkey Otpm key)
    l1 l2 l3 n1 n2 n3 k1 k2 k3))"
  using ok c unfolding lua_borrow_io_def Let_def lua_remaining_def want_got_loan
  by (auto intro!: put_ok loan_amount(1) lua_refill_amount)

lemma lua_return_ok:
  assumes ok: "redis_ok R H D s" and c: "rlimit l1" "rlimit l2"
  shows "redis_ok R H D (snd (lua_return R s t (rkey Rpm key) (rkey Tpm key) l1 l2 n1 n2))"
  using ok c unfolding lua_return_def Let_def by (auto intro!: script_ok_intros)

lemma lua_return_io_ok:
  assumes ok: "redis_ok R H D s" and c: "rlimit l1" "rlimit l2" "rlimit l3"
  shows "redis_ok R H D (snd (lua_return_io R s t (rkey Rpm key) (rkey Itpm key) (rkey Otpm key) l1 l2 l3 n1 n2 n3))"
  using ok c unfolding lua_return_io_def Let_def by (auto intro!: script_ok_intros)

section \<open>The operations\<close>

lemma run_script_ok:
  assumes "redis_ok R H D s" "redis_ok R H D (snd (script s))"
  shows "redis_ok R H D (snd (run_script R s t name script))"
  using assms by (auto simp: run_script_def split: fault.splits script_result.splits prod.splits)

lemma run_script_Inr:
  assumes "fst (run_script R s t name script) = Inr r"
  shows "fst (script s) = Reply r" and "snd (run_script R s t name script) = snd (script s)"
  using assms by (auto simp: run_script_def split: fault.splits script_result.splits prod.splits)

lemma redis_Check_ok:
  assumes ok: "redis_ok R H D s" and l: "redis_limits limits"
  shows "redis_ok R H D (snd (redis_Check R s t key limits cost rid))"
  using ok redis_limitsD [OF l, of Rpm] redis_limitsD [OF l, of Tpm] redis_limitsD [OF l, of Itpm] redis_limitsD [OF l, of Otpm]
  unfolding redis_Check_def bucketKeys_rkey bucketKeysIO_rkey
  by (auto intro!: run_script_ok lua_check_ok lua_check_io_ok simp: prod.case_eq_if split: option.splits)

lemma redis_Borrow_ok:
  assumes ok: "redis_ok R H D s" and l: "redis_limits limits"
  shows "redis_ok R H D (snd (redis_Borrow R s t key limits spec))"
  using ok redis_limitsD [OF l, of Rpm] redis_limitsD [OF l, of Tpm] redis_limitsD [OF l, of Itpm] redis_limitsD [OF l, of Otpm]
  unfolding redis_Borrow_def bucketKeys_rkey bucketKeysIO_rkey
  by (auto intro!: run_script_ok lua_borrow_ok lua_borrow_io_ok simp: prod.case_eq_if split: option.splits)

lemma redis_Return_ok:
  assumes ok: "redis_ok R H D s" and l: "redis_limits limits"
  shows "redis_ok R H D (snd (redis_Return R s t key limits n1 n2 n3 n4))"
  using ok redis_limitsD [OF l, of Rpm] redis_limitsD [OF l, of Tpm] redis_limitsD [OF l, of Itpm] redis_limitsD [OF l, of Otpm]
  unfolding redis_Return_def bucketKeys_rkey bucketKeysIO_rkey
  by (auto intro!: run_script_ok lua_return_ok lua_return_io_ok simp: prod.case_eq_if)

lemma redis_Settle_ok: "redis_ok R H D s \<Longrightarrow> redis_ok R H D (snd (redis_Settle R s t rid n))"
  unfolding redis_Settle_def bucketKeys_rkey
  by (auto intro!: run_script_ok lua_settle_ok simp: prod.case_eq_if split: sum.splits)

lemma redis_SettleIO_ok: "redis_ok R H D s \<Longrightarrow> redis_ok R H D (snd (redis_SettleIO R s t rid n m))"
  unfolding redis_SettleIO_def bucketKeysIO_rkey
  by (auto intro!: run_script_ok lua_settle_io_ok simp: prod.case_eq_if split: sum.splits)

lemma redis_Refund_ok: "redis_ok R H D s \<Longrightarrow> redis_ok R H D (snd (redis_Refund R s t rid))"
  unfolding redis_Refund_def bucketKeys_rkey bucketKeysIO_rkey Let_def
  by (auto intro!: run_script_ok lua_refund_ok lua_refund_io_ok simp: prod.case_eq_if split: sum.splits)

section \<open>Loans\<close>

lemma toInt64_rnum [simp]: "toInt64 (rnum x) = i64_of_f64 x"
  by (simp add: rnum_def)

lemma loan_reply:
  assumes x: "amount x" and n: "\<not> f64_floor x < lua_clamp (f64_of_int n)"
  shows "max 0 n \<le> i64_of_f64 (loan x (lua_clamp (f64_of_int n)) k)"
    and "i64_of_f64 (loan x (lua_clamp (f64_of_int n)) k) \<le> 2 ^ 53"
proof -
  let ?m = "lua_clamp (f64_of_int n)"
  note l = loan_amount [OF x clamp_nonneg(1), of "f64_of_int n" k]
  have "loan x ?m k < of_int (2 ^ 53)" using l(2) by simp
  then have fl: "\<lfloor>loan x ?m k\<rfloor> < 2 ^ 53" by (simp only: floor_less_iff)
  then have tr: "i64_of_f64 (loan x ?m k) = \<lfloor>loan x ?m k\<rfloor>"
    using l(3) by (simp add: i64_of_f64_def f64_trunc_def in64_def)
  have "max 0 n \<le> \<lfloor>loan x ?m k\<rfloor>"
  proof (cases "0 < n")
    case True
    have m: "?m = f64_of_int n" using True by (simp add: lua_clamp_def not_less)
    have "n < 2 ^ 53"
    proof (rule ccontr)
      assume "\<not> n < 2 ^ 53"
      then have "f64_of_int (2 ^ 53) \<le> f64_of_int n" by (intro f64_of_int_mono) simp
      then have "2 ^ 53 \<le> f64_floor x" using n m by (simp add: f64_of_int_exact)
      then show False using amountD(3) [OF amount_floor [OF x]] by simp
    qed
    then have "?m = of_int n" using True m by (simp add: f64_capacity)
    then show ?thesis using n l(4) True by (simp add: le_floor_iff)
  qed (use l(3) in simp)
  then show "max 0 n \<le> i64_of_f64 (loan x ?m k)" "i64_of_f64 (loan x ?m k) \<le> 2 ^ 53"
    using tr fl by simp_all
qed

lemma lua_borrow_got:
  assumes ok: "redis_ok R H D s" and c: "rlimit l1" "rlimit l2"
    and r: "fst (lua_borrow R s t (rkey Rpm key) (rkey Tpm key) l1 l2 n1 n2 k1 k2) = Reply r"
    and b: "parseBorrow r limits = Inr b" "BrAllowed b"
  shows "max 0 n1 \<le> GotRPM b \<and> GotRPM b \<le> 2 ^ 53" "max 0 n2 \<le> GotTPM b \<and> GotTPM b \<le> 2 ^ 53"
    "GotITPM b = 0" "GotOTPM b = 0"
  using r b loan_reply [OF lua_refill_amount [OF ok amount_limit [OF c(1)]]]
    loan_reply [OF lua_refill_amount [OF ok amount_limit [OF c(2)]]]
  unfolding lua_borrow_def Let_def loan_def [symmetric]
  by (auto simp: parseBorrow_def reply_arr_def zero_BorrowResult_def split: if_splits)

lemma lua_borrow_io_got:
  assumes ok: "redis_ok R H D s" and c: "rlimit l1" "rlimit l2" "rlimit l3"
    and r: "fst (lua_borrow_io R s t (rkey Rpm key) (rkey Itpm key) (rkey Otpm key)
      l1 l2 l3 n1 n2 n3 k1 k2 k3) = Reply r"
    and b: "parseBorrowIO r limits = Inr b" "BrAllowed b"
  shows "max 0 n1 \<le> GotRPM b \<and> GotRPM b \<le> 2 ^ 53" "max 0 n2 \<le> GotITPM b \<and> GotITPM b \<le> 2 ^ 53"
    "max 0 n3 \<le> GotOTPM b \<and> GotOTPM b \<le> 2 ^ 53" "GotTPM b = 0"
  using r b loan_reply [OF lua_refill_amount [OF ok amount_limit [OF c(1)]]]
    loan_reply [OF lua_refill_amount [OF ok amount_limit [OF c(2)]]]
    loan_reply [OF lua_refill_amount [OF ok amount_limit [OF c(3)]]]
  unfolding lua_borrow_io_def Let_def lua_remaining_def want_got_loan
  by (auto simp: parseBorrowIO_def reply_arr_def zero_BorrowResult_def split: if_splits)

lemma redis_borrow_covers:
  assumes ok: "redis_ok R H D s" and l: "redis_limits limits"
    and b: "fst (redis_Borrow R s t key limits spec) = Inr b" "BrAllowed b"
  shows "if active ax (Split limits)
    then max 0 (axis_min ax spec) \<le> axis_got ax b \<and> axis_got ax b \<le> 2 ^ 53 else axis_got ax b = 0"
proof (cases "Split limits")
  case True
  let ?f = "\<lambda>s. lua_borrow_io R s t (rkey Rpm key) (rkey Itpm key) (rkey Otpm key)
    (RequestsPerMinute limits) (InputTokensPerMinute limits) (OutputTokensPerMinute limits)
    (MinRPM spec) (MinITPM spec) (MinOTPM spec) (ChunkRPM spec) (ChunkITPM spec) (ChunkOTPM spec)"
  obtain r where r: "fst (run_script R s t ''borrow_io'' ?f) = Inr r" "parseBorrowIO r limits = Inr b"
    using b(1) True unfolding redis_Borrow_def bucketKeysIO_rkey
    by (auto simp: prod.case_eq_if split: option.splits if_splits sum.splits)
  note g = lua_borrow_io_got [OF ok _ _ _ run_script_Inr(1) [OF r(1)] r(2) b(2)]
  show ?thesis
    using g redis_limitsD [OF l, of Rpm] redis_limitsD [OF l, of Itpm] redis_limitsD [OF l, of Otpm] True
    by (cases ax) simp_all
next
  case False
  let ?f = "\<lambda>s. lua_borrow R s t (rkey Rpm key) (rkey Tpm key)
    (RequestsPerMinute limits) (TokensPerMinute limits)
    (MinRPM spec) (MinTPM spec) (ChunkRPM spec) (ChunkTPM spec)"
  obtain r where r: "fst (run_script R s t ''borrow'' ?f) = Inr r" "parseBorrow r limits = Inr b"
    using b(1) False unfolding redis_Borrow_def bucketKeys_rkey
    by (auto simp: prod.case_eq_if split: option.splits if_splits sum.splits)
  note g = lua_borrow_got [OF ok _ _ run_script_Inr(1) [OF r(1)] r(2) b(2)]
  show ?thesis
    using g redis_limitsD [OF l, of Rpm] redis_limitsD [OF l, of Tpm] False by (cases ax) simp_all
qed

lemma redis_check_id:
  assumes "fst (redis_Check R s t key limits cost rid) = Inr d"
  shows "ReservationID d = (if Allowed d then rid else '''')"
  using assms
  by (auto simp: redis_Check_def parseDecision_def parseDecisionIO_def zero_Decision_def Let_def prod.case_eq_if
      split: option.splits if_splits sum.splits)

section \<open>The Redis store provides what the limiter relies on\<close>

definition redis_inv :: "'r RedisOps \<Rightarrow> ('r \<Rightarrow> string \<Rightarrow> string \<rightharpoonup> string) \<Rightarrow>
    ('r \<Rightarrow> string \<Rightarrow> int option) \<Rightarrow> time \<Rightarrow> 'r \<Rightarrow> bool" where
  "redis_inv R H D t s \<longleftrightarrow> redis_ok R H D s"

interpretation redis: store_contract "redis_store R" "redis_inv R H D" "\<lambda>t. True" redis_limits for R H D
proof (unfold_locales, goal_cases)
  case (7 t0 s t limits key spec b s' ax)
  then show ?case using redis_borrow_covers [of R H D s limits t key spec b ax]
    by (simp add: redis_inv_def redis_store_def)
next
  case 8 then show ?case by (intro redis_check_id) (simp add: redis_store_def)
qed (simp_all add: redis_inv_def redis_store_def redis_Check_ok redis_Borrow_ok redis_Return_ok
  redis_Settle_ok redis_SettleIO_ok redis_Refund_ok)

end
