(* ===== verification/Redis_Agreement.thy ===== *)
theory Redis_Agreement
  imports Redis_Invariant
begin

text \<open>
  The Redis store against the in-memory store. The scripts repeat the arithmetic of package
  \<^verbatim>\<open>bucket\<close> in Lua; here both are compared: from corresponding buckets a script reads the
  amount the bucket code reads, decides as it decides (apart from the tolerance \<^verbatim>\<open>1e-9\<close>,
  which the scripts do not have) and leaves the amount it leaves.
\<close>

section \<open>The clock\<close>

lemma floor_rnd64_milli:
  assumes "0 \<le> u" "u < 1000000"
  shows "\<lfloor>f64_div (f64_of_int u) 1000\<rfloor> = u div 1000"
proof -
  let ?x = "of_int u / 1000 :: rat"
  define n where "n = u div 1000"
  have n: "n * 1000 \<le> u" "u \<le> n * 1000 + 999" "0 \<le> n" "n < 1000" using assms by (auto simp: n_def)
  have nr: "of_int n \<le> ?x" "?x \<le> of_int n + 999 / 1000"
  proof -
    have "of_int (n * 1000) \<le> (of_int u :: rat)" "of_int u \<le> (of_int (n * 1000 + 999) :: rat)"
      using n by (simp_all only: of_int_le_iff)
    then show "of_int n \<le> ?x" "?x \<le> of_int n + 999 / 1000" by (simp_all add: field_simps)
  qed
  have "is_f64 (of_int n)" using n by (intro is_f64_int) simp
  then have lo: "of_int n \<le> rnd64 ?x" using nr(1) by (intro f64.rnd_lower)
  have nn: "(of_int n :: rat) \<le> 1000" "0 \<le> (of_int n :: rat)" using n by simp_all
  have "\<bar>rnd64 ?x - ?x\<bar> \<le> \<bar>?x\<bar> / 2 ^ 53 + 1 / 2 ^ 1075" by (rule rnd64_error)
  also have "\<dots> \<le> 1001 / 2 ^ 53 + 1 / 2 ^ 1075"
    using nr nn by (intro add_right_mono divide_right_mono) auto
  also have "\<dots> < 1 / 1000" by code_simp
  finally have "rnd64 ?x < of_int n + 1" using nr(2) by linarith
  with lo have "\<lfloor>rnd64 ?x\<rfloor> = n" by (simp add: floor_eq_iff)
  then show ?thesis using assms by (simp add: f64_div_def f64_of_int_exact n_def)
qed

lemma lua_now_exact:
  assumes "0 \<le> t" "t div 1000000 \<le> 2 ^ 53"
  shows "lua_now t = of_int (t div 1000000)"
proof -
  let ?s = "t div 1000000000" and ?u = "t div 1000 mod 1000000"
  have e: "?s * 1000 + ?u div 1000 = t div 1000000"
  proof -
    define m a where "m = t div 1000" and "a = m div 1000"
    have a: "?s = a div 1000" "t div 1000000 = a"
      using zdiv_zmult2_eq [of 1000000 t 1000] zdiv_zmult2_eq [of 1000 t 1000] zdiv_zmult2_eq [of 1000 m 1000]
      by (simp_all add: m_def a_def)
    have "m mod 1000000 = 1000 * (a mod 1000) + m mod 1000"
      using zmod_zmult2_eq [of 1000 m 1000] by (simp add: a_def)
    then have "?u div 1000 = a mod 1000" by (simp add: m_def [symmetric])
    then show ?thesis unfolding a by (simp only: div_mult_mod_eq)
  qed
  have s: "0 \<le> ?s" "?s * 1000 \<le> 2 ^ 53" using assms e by (simp_all add: pos_imp_zdiv_nonneg_iff) 
  have u: "f64_floor (f64_div (f64_of_int ?u) 1000) = of_int (?u div 1000)"
    by (simp add: f64_floor_def floor_rnd64_milli)
  have "f64_mul (f64_of_int ?s) 1000 = of_int (?s * 1000)"
    using s rnd64_of_int [of "?s * 1000"] by (simp add: f64_mul_def f64_of_int_exact)
  then have "lua_now t = rnd64 (of_int (?s * 1000 + ?u div 1000))"
    unfolding lua_now_def u by (simp add: f64_add_def)
  then show ?thesis unfolding e using assms by (simp add: rnd64_of_int pos_imp_zdiv_nonneg_iff)
qed

section \<open>Corresponding buckets\<close>

definition hash_num :: "'r RedisOps \<Rightarrow> (string \<rightharpoonup> string) \<Rightarrow> string \<Rightarrow> float64 option" where
  "hash_num R m f = (case m f of None \<Rightarrow> None | Some v \<Rightarrow> rToNumber R v)"

text \<open>A hash in Redis and a bucket of the in-memory store that hold the same amount and
  timestamp, within the capacity \<open>c\<close>, at the millisecond \<open>now\<close>.\<close>

definition same_bucket :: "'r RedisOps \<Rightarrow> (string \<rightharpoonup> string) \<Rightarrow> bucketState option \<Rightarrow> int64 \<Rightarrow> int64 \<Rightarrow> bool" where
  "same_bucket R m b c now \<longleftrightarrow>
     (case b of
        None \<Rightarrow> m = Map.empty
      | Some st \<Rightarrow> hash_num R m ''tokens'' = Some (bsTokens st) \<and>
          hash_num R m ''last_ms'' = Some (of_int (bsLastMs st)) \<and>
          is_f64 (bsTokens st) \<and> 0 \<le> bsTokens st \<and> bsTokens st \<le> of_int c \<and>
          0 < bsLastMs st \<and> bsLastMs st \<le> now)"

text \<open>A cost that the bucket covers, or that it misses by more than the tolerance.\<close>

definition clear_cut :: "State \<Rightarrow> int64 \<Rightarrow> bool" where
  "clear_cut B n \<longleftrightarrow> of_int (max 0 n) \<le> Tokens B \<or> Tokens B + 2 * f64_eps < of_int (max 0 n)"

lemma rlimit_cap: "rlimit c \<Longrightarrow> f64_of_int c = of_int c" "rlimit c \<Longrightarrow> cap_ok c"
  by (simp_all add: rlimit_def cap_ok_def f64_capacity)

lemma refill_same:
  assumes x: "is_f64 x" "0 \<le> x" "x \<le> of_int c" and l: "0 < l" "l \<le> now" and now: "now \<le> 2 ^ 53"
    and c: "rlimit c"
  shows "Tokens (Refill \<lparr>Tokens = x, LastMs = l, Capacity = c\<rparr> now) =
    (if of_int l < (of_int now :: rat) \<and> 0 < f64_of_int c
     then min (f64_of_int c) (f64_add x (f64_mul (f64_div (f64_sub (of_int now) (of_int l)) 1000) (f64_div (f64_of_int c) 60)))
     else x)"
proof (cases "c = 0")
  case True
  then show ?thesis using x by (simp add: Refill_def)
next
  case False
  then have c0: "0 < c" "0 < f64_of_int c" using c by (simp_all add: rlimit_def rlimit_cap)
  show ?thesis
  proof (cases "l = now")
    case True
    have "bucket_ok \<lparr>Tokens = x, LastMs = l, Capacity = c\<rparr>"
      using x l now c neg_2eps_le [of x] by (simp add: bucket_ok_def rlimit_def in64_def)
    from Refill_same [OF this, of now] show ?thesis
      using True c0 now l by (simp add: clock_ok_def in64_def)
  next
    case neq: False
    then have lt: "l < now" using l by simp
    have d: "i64_sub now l = now - l" using l now by (simp add: i64_exact in64_def)
    have "f64_sub (of_int now) (of_int l) = f64_of_int (now - l)" by (simp add: f64_sub_def f64_of_int_def)
    then show ?thesis using lt l c0 d by (simp add: Refill_def RefillPerSec_def Let_def)
  qed
qed

lemma load_agrees:
  assumes ok: "redis_ok R H D s" and same: "same_bucket R (H s (rkey ax key)) (mb k) c now"
    and t: "0 \<le> t" "now = t div 1000000" "now \<le> 2 ^ 53" and c: "rlimit c"
  shows "lua_refill R s t (rkey ax key) (f64_of_int c) = Tokens (loadBucket mb k c now)"
proof -
  note L = redis_lawsD [OF redis_okD(1) [OF ok]] and f = redis_okD(5) [OF ok, of t ax key]
  have n: "lua_now t = of_int now" using lua_now_exact t by simp
  have fld: "lua_field R s t (rkey ax key) g = hash_num R (H s (rkey ax key)) g" for g
    by (simp add: lua_field_def hash_num_def L(1) f)
  show ?thesis
  proof (cases "mb k")
    case None
    then have "hash_num R (H s (rkey ax key)) g = None" for g using same by (simp add: same_bucket_def hash_num_def)
    then show ?thesis
      using None c by (auto simp: lua_refill_def Let_def fld loadBucket_def Refill_def rlimit_def)
  next
    case (Some st)
    then show ?thesis
      using same refill_same [of "bsTokens st" c "bsLastMs st" now] t c
      by (simp add: same_bucket_def lua_refill_def Let_def fld n loadBucket_def)
  qed
qed

lemma same_load_ok:
  assumes same: "same_bucket R m (mb k) c now" and c: "rlimit c" and t: "0 < now" "now \<le> 2 ^ 53"
  shows "bucket_ok (loadBucket mb k c now)" and "Refill (loadBucket mb k c now) now = loadBucket mb k c now"
proof -
  let ?s = "stored mb k c"
  have pre: "bucket_pre ?s" "LastMs ?s \<le> now"
    using same c t neg_2eps_le
    by (auto simp: same_bucket_def stored_def bucket_pre_def rlimit_def in64_def split: option.splits)
  show "bucket_ok (loadBucket mb k c now)" "Refill (loadBucket mb k c now) now = loadBucket mb k c now"
    unfolding loadBucket_stored using Refill_caps Refill_idem pre t by (simp_all add: clock_ok_def in64_def)
qed

lemma clamp_of_int: "n \<le> 2 ^ 53 \<Longrightarrow> - (2 ^ 53) \<le> n \<Longrightarrow> lua_clamp (f64_of_int n) = of_int (max 0 n)"
  by (simp add: lua_clamp_def f64_of_int_exact)

lemma clamp_max: "n \<le> 2 ^ 53 \<Longrightarrow> lua_clamp (f64_of_int n) = of_int (max 0 n)"
proof (cases "0 \<le> n")
  case False
  then have "f64_of_int n \<le> f64_of_int 0" by (intro f64_of_int_mono) simp
  then show ?thesis using False by (simp add: lua_clamp_def)
qed (simp add: clamp_of_int)

lemma i64_of_f64_of_int: "in64 z \<Longrightarrow> i64_of_f64 (of_int z) = z"
  by (simp add: i64_of_f64_def f64_trunc_def)

lemma rate_lower:
  assumes "0 < c" "c \<le> 2 ^ 53"
  shows "1 / 61 \<le> RefillPerSec c"
proof -
  have "(1 / 61 :: rat) \<le> 1 / 60 * (1 - 1 / 2 ^ 53)" by simp
  also have "\<dots> \<le> of_int c / 60 * (1 - 1 / 2 ^ 53)" using assms by (intro mult_right_mono) auto
  also have "\<dots> \<le> RefillPerSec c" by (rule RefillPerSec_lower [OF assms])
  finally show ?thesis .
qed

text \<open>The seconds to wait for a deficit of at most \<open>10 ^ 8\<close> units.\<close>

lemma wait_seconds:
  assumes d: "0 < d" "d \<le> 100000000" and R: "1 / 61 \<le> R"
  shows "0 \<le> \<lceil>f64_div d R\<rceil>" "\<lceil>f64_div d R\<rceil> \<le> 6100000000"
proof -
  have Rp: "0 < R" by (rule less_le_trans [OF _ R]) simp
  have "0 \<le> f64_div d R" using d(1) Rp by (simp add: f64_div_def f64.rnd_lower)
  then show "0 \<le> \<lceil>f64_div d R\<rceil>" by simp
  have "d / R \<le> 100000000 / (1 / 61)" using d R by (intro frac_le) auto
  then have "f64_div d R \<le> of_int 6100000000"
    using is_f64_int [of 6100000000] unfolding f64_div_def by (intro f64.rnd_upper) auto
  then show "\<lceil>f64_div d R\<rceil> \<le> 6100000000" by (simp only: ceiling_le_iff)
qed

text \<open>The waiting time, in milliseconds there and in nanoseconds here.\<close>

lemma retry_agrees:
  assumes c: "rlimit c" and B: "Capacity B = c" "0 \<le> Tokens B" and n: "0 \<le> n" "n \<le> 100000000"
  shows "retryAfter B (of_int n) = i64_mul (i64_of_f64 (lua_retry_after_ms (Tokens B) (f64_of_int c) (of_int n))) Millisecond"
proof (cases "c = 0")
  case True
  then show ?thesis using B by (simp add: retryAfter_def lua_retry_after_ms_def RefillPerSec_def Let_def
      i64_of_f64_def f64_trunc_def in64_def i64_exact Millisecond_def Hour_def)
next
  case False
  then have c0: "0 < c" "c \<le> 2 ^ 53" using c by (simp_all add: rlimit_def)
  have cp: "\<not> f64_of_int c \<le> 0" using c0 f64_of_int_pos [of c] by linarith
  have R: "f64_div (f64_of_int c) 60 = RefillPerSec c" using c0 by (simp add: RefillPerSec_def)
  note R0 = rate_lower [OF c0]
  then have Rp: "0 < RefillPerSec c" by (rule less_le_trans [rotated]) simp
  define d where "d = f64_sub (of_int n) (Tokens B)"
  define K where "K = \<lceil>f64_div d (RefillPerSec c)\<rceil>"
  show ?thesis
  proof (cases "d \<le> 0")
    case True
    then show ?thesis using B cp Rp
      by (simp add: retryAfter_def lua_retry_after_ms_def Let_def R d_def [symmetric]
          i64_of_f64_def f64_trunc_def i64_exact)
  next
    case d0: False
    have "of_int n \<le> (of_int 100000000 :: rat)" using n(2) by (simp only: of_int_le_iff)
    then have "of_int n - Tokens B \<le> of_int 100000000" using B(2) by linarith
    then have d1: "d \<le> 100000000"
      using f64.rnd_upper [of "of_int n - Tokens B" "of_int 100000000"] is_f64_int [of 100000000]
      by (simp add: d_def f64_sub_def)
    have K0: "0 \<le> K" and K1: "K \<le> 6100000000" using wait_seconds [OF _ d1 R0] d0 by (simp_all add: K_def)
    have "f64_mul (of_int K) 1000 = of_int (K * 1000)"
      using rnd64_of_int [of "K * 1000"] K0 K1 by (simp add: f64_mul_def)
    then have "i64_mul (i64_of_f64 (f64_mul (of_int K) 1000)) Millisecond = i64_mul (i64_of_f64 (of_int K)) Second"
      using K0 K1 i64_of_f64_of_int [of K] i64_of_f64_of_int [of "K * 1000"]
      by (simp add: in64_def i64_exact Millisecond_def Second_def del: of_int_mult)
    then show ?thesis
      using d0 Rp cp B(1)
      by (simp add: retryAfter_def lua_retry_after_ms_def Let_def R d_def [symmetric] f64_ceil_def K_def [symmetric])
  qed
qed

lemma consume_agrees:
  fixes mb :: buckets and k :: string and c now :: int64
  defines "B \<equiv> loadBucket mb k c now"
  assumes same: "same_bucket R m (mb k) c now" and now: "0 < now" "now \<le> 2 ^ 53"
    and c: "rlimit c" and T: "T = Tokens B" "amount T" and n: "n \<le> 100000000" and clear: "clear_cut B n"
  shows "ResAllowed (snd (TryConsume B now n)) \<longleftrightarrow> \<not> (T < lua_clamp (f64_of_int n) \<or> f64_of_int c < lua_clamp (f64_of_int n))"
    and "\<not> ResAllowed (snd (TryConsume B now n)) \<Longrightarrow> ResRemaining (snd (TryConsume B now n)) = i64_of_f64 (lua_remaining T)"
    and "\<not> ResAllowed (snd (TryConsume B now n)) \<Longrightarrow> ResRetryAfter (snd (TryConsume B now n)) =
      i64_mul (i64_of_f64 (lua_retry_after_ms T (f64_of_int c) (lua_clamp (f64_of_int n)))) Millisecond"
    and "ResAllowed (snd (TryConsume B now n)) \<Longrightarrow> Tokens (fst (TryConsume B now n)) = f64_sub T (lua_clamp (f64_of_int n))"
    and "ResAllowed (snd (TryConsume B now n)) \<Longrightarrow>
      ResRemaining (snd (TryConsume B now n)) = i64_of_f64 (lua_remaining (f64_sub T (lua_clamp (f64_of_int n))))"
proof -
  note ld = same_load_ok [where mb = mb and k = k, OF same c now, folded B_def]
  have ck: "clock_ok now" using now by (simp add: clock_ok_def in64_def)
  have cap: "Capacity B = c" by (simp add: B_def loadBucket_stored)
  have N: "lua_clamp (f64_of_int n) = of_int (max 0 n)" "f64_of_int (max 0 n) = of_int (max 0 n)"
    using n by (simp_all add: clamp_max f64_of_int_exact)
  show al: "ResAllowed (snd (TryConsume B now n)) \<longleftrightarrow> \<not> (T < lua_clamp (f64_of_int n) \<or> f64_of_int c < lua_clamp (f64_of_int n))"
  proof
    assume a: "ResAllowed (snd (TryConsume B now n))"
    have "of_int (max 0 n) \<le> T"
      using TryConsume_sound [OF ld(1) ck a] clear by (simp add: ld(2) clear_cut_def T)
    moreover have "max 0 n \<le> c" using a by (simp only: TryConsume_allowed_iff cap)
    then have "of_int (max 0 n) \<le> f64_of_int c" unfolding rlimit_cap(1) [OF c] by (simp only: of_int_le_iff)
    ultimately show "\<not> (T < lua_clamp (f64_of_int n) \<or> f64_of_int c < lua_clamp (f64_of_int n))"
      unfolding N by linarith
  next
    assume a: "\<not> (T < lua_clamp (f64_of_int n) \<or> f64_of_int c < lua_clamp (f64_of_int n))"
    then have "max 0 n \<le> Capacity B"
      unfolding N rlimit_cap(1) [OF c] cap by (simp only: de_Morgan_disj not_less of_int_le_iff)
    moreover have "of_int (max 0 n) \<le> Tokens (Refill B now) + f64_eps"
      using a f64_eps_nonneg unfolding N ld(2) T(1) by linarith
    ultimately show "ResAllowed (snd (TryConsume B now n))" by (rule TryConsume_complete [OF ld(1) ck])
  qed
  show "ResRemaining (snd (TryConsume B now n)) = i64_of_f64 (lua_remaining T)"
    if "\<not> ResAllowed (snd (TryConsume B now n))"
    using TryConsume_denied_state [OF that] by (simp add: TryConsume_remaining ld(2) T RemainingInt_def lua_remaining_def)
  show "ResRetryAfter (snd (TryConsume B now n)) =
      i64_mul (i64_of_f64 (lua_retry_after_ms T (f64_of_int c) (lua_clamp (f64_of_int n)))) Millisecond"
    if "\<not> ResAllowed (snd (TryConsume B now n))"
    using retry_agrees [OF c cap, of "max 0 n"] n amountD(2) [OF T(2)]
    unfolding TryConsume_retry_denied [OF that] ld(2) N by (simp add: T)
  show tk: "Tokens (fst (TryConsume B now n)) = f64_sub T (lua_clamp (f64_of_int n))"
    if "ResAllowed (snd (TryConsume B now n))"
    using TryConsume_allowed_state [OF that] by (simp add: ld(2) T N)
  show "ResRemaining (snd (TryConsume B now n)) = i64_of_f64 (lua_remaining (f64_sub T (lua_clamp (f64_of_int n))))"
    if "ResAllowed (snd (TryConsume B now n))"
    using tk [OF that] by (simp add: TryConsume_remaining RemainingInt_def lua_remaining_def)
qed

section \<open>Check\<close>

definition no_resets :: "Decision \<Rightarrow> Decision" where
  "no_resets d = d\<lparr>ResetRPM := zero_time, ResetTPM := zero_time, ResetITPM := zero_time, ResetOTPM := zero_time\<rparr>"

text \<open>What one axis of the two stores needs for the comparison.\<close>

definition axis_agrees :: "'r RedisOps \<Rightarrow> ('r \<Rightarrow> string \<Rightarrow> string \<rightharpoonup> string) \<Rightarrow> 'r \<Rightarrow> Store \<Rightarrow> time \<Rightarrow>
    Key \<Rightarrow> Limits \<Rightarrow> axis \<Rightarrow> bool" where
  "axis_agrees R H s m t key limits ax \<longleftrightarrow>
     same_bucket R (H s (rkey ax key)) (axis_map ax m (bucketKey key)) (axis_limit ax limits) (ms_of_time t)"

definition axis_clear :: "Store \<Rightarrow> time \<Rightarrow> Key \<Rightarrow> Limits \<Rightarrow> Cost \<Rightarrow> axis \<Rightarrow> bool" where
  "axis_clear m t key limits cost ax \<longleftrightarrow> axis_cost ax cost \<le> 100000000 \<and>
     clear_cut (axis_load ax m (bucketKey key) (axis_limit ax limits) (ms_of_time t)) (axis_cost ax cost)"

definition redis_clock :: "time \<Rightarrow> bool" where
  "redis_clock t \<longleftrightarrow> 0 < t div 1000000 \<and> t div 1000000 \<le> 2 ^ 53"

lemma redis_clockD:
  assumes "redis_clock t"
  shows "ms_of_time t = t div 1000000" and "0 \<le> t" and "0 < ms_of_time t" and "ms_of_time t \<le> 2 ^ 53"
    and "lua_now t = of_int (ms_of_time t)" and "clock_ok (ms_of_time t)"
proof -
  show ms: "ms_of_time t = t div 1000000" using assms by (simp add: redis_clock_def ms_of_time_def in64_def)
  show t0: "0 \<le> t" using assms by (simp add: redis_clock_def pos_imp_zdiv_pos_iff)
  show "0 < ms_of_time t" "ms_of_time t \<le> 2 ^ 53" using assms by (simp_all add: ms redis_clock_def)
  then show "clock_ok (ms_of_time t)" by (simp add: clock_ok_def in64_def)
  show "lua_now t = of_int (ms_of_time t)" using lua_now_exact [OF t0] assms by (simp add: ms redis_clock_def)
qed

lemma clamp_clampCost [simp]: "lua_clamp (f64_of_int (clampCost n)) = lua_clamp (f64_of_int n)"
proof (cases "n < 0")
  case True
  then have "f64_of_int n \<le> f64_of_int 0" by (intro f64_of_int_mono) simp
  then show ?thesis using True by (simp add: clampCost_def lua_clamp_def)
qed (simp add: clampCost_def)

lemma axis_consume:
  assumes ok: "redis_ok R H D s" and t: "redis_clock t" and l: "redis_limits limits"
    and ag: "axis_agrees R H s m t key limits ax" and cl: "axis_clear m t key limits cost ax"
  defines "B \<equiv> axis_load ax m (bucketKey key) (axis_limit ax limits) (ms_of_time t)"
    and "T \<equiv> lua_refill R s t (rkey ax key) (f64_of_int (axis_limit ax limits))"
    and "N \<equiv> lua_clamp (f64_of_int (axis_cost ax cost))"
    and "n \<equiv> clampCost (axis_cost ax cost)"
  shows "T = Tokens B" "amount T"
    "ResAllowed (snd (TryConsume B (ms_of_time t) n)) \<longleftrightarrow> \<not> (T < N \<or> f64_of_int (axis_limit ax limits) < N)"
    "\<not> ResAllowed (snd (TryConsume B (ms_of_time t) n)) \<Longrightarrow>
       ResRemaining (snd (TryConsume B (ms_of_time t) n)) = i64_of_f64 (lua_remaining T)"
    "\<not> ResAllowed (snd (TryConsume B (ms_of_time t) n)) \<Longrightarrow> ResRetryAfter (snd (TryConsume B (ms_of_time t) n)) =
       i64_mul (i64_of_f64 (lua_retry_after_ms T (f64_of_int (axis_limit ax limits)) N)) Millisecond"
    "ResAllowed (snd (TryConsume B (ms_of_time t) n)) \<Longrightarrow> Tokens (fst (TryConsume B (ms_of_time t) n)) = f64_sub T N"
    "ResAllowed (snd (TryConsume B (ms_of_time t) n)) \<Longrightarrow>
       ResRemaining (snd (TryConsume B (ms_of_time t) n)) = i64_of_f64 (lua_remaining (f64_sub T N))"
proof -
  note ms = redis_clockD(1) [OF t] and t0 = redis_clockD(2) [OF t] and now = redis_clockD(3,4) [OF t]
  note c = redis_limitsD [OF l, of ax]
  note ag' = ag [unfolded axis_agrees_def]
  show T: "T = Tokens B" unfolding T_def B_def using load_agrees [where mb = "axis_map ax m" and k = "bucketKey key", OF ok ag' t0 ms now(2) c] .
  show am: "amount T" unfolding T_def by (rule lua_refill_amount [OF ok amount_limit [OF c]])
  have n: "n \<le> 100000000" "clear_cut B n"
    using cl by (auto simp: axis_clear_def n_def clampCost_def clear_cut_def B_def max_def)
  have N: "N = lua_clamp (f64_of_int n)" unfolding N_def n_def by (rule clamp_clampCost [symmetric])
  from consume_agrees [where mb = "axis_map ax m" and k = "bucketKey key", OF ag' now c T [unfolded B_def] am n(1) n(2) [unfolded B_def], folded B_def N]
  show "ResAllowed (snd (TryConsume B (ms_of_time t) n)) \<longleftrightarrow> \<not> (T < N \<or> f64_of_int (axis_limit ax limits) < N)"
    "\<not> ResAllowed (snd (TryConsume B (ms_of_time t) n)) \<Longrightarrow>
       ResRemaining (snd (TryConsume B (ms_of_time t) n)) = i64_of_f64 (lua_remaining T)"
    "\<not> ResAllowed (snd (TryConsume B (ms_of_time t) n)) \<Longrightarrow> ResRetryAfter (snd (TryConsume B (ms_of_time t) n)) =
       i64_mul (i64_of_f64 (lua_retry_after_ms T (f64_of_int (axis_limit ax limits)) N)) Millisecond"
    "ResAllowed (snd (TryConsume B (ms_of_time t) n)) \<Longrightarrow> Tokens (fst (TryConsume B (ms_of_time t) n)) = f64_sub T N"
    "ResAllowed (snd (TryConsume B (ms_of_time t) n)) \<Longrightarrow>
       ResRemaining (snd (TryConsume B (ms_of_time t) n)) = i64_of_f64 (lua_remaining (f64_sub T N))"
    by blast+
qed

definition no_faults :: "'r RedisOps \<Rightarrow> 'r \<Rightarrow> time \<Rightarrow> bool" where
  "no_faults R s t \<longleftrightarrow> (\<forall>name. rFault R s t name = NoFault)"

lemma run_script_no_fault:
  "no_faults R s t \<Longrightarrow> run_script R s t name script =
     (case script s of (Reply r, s') \<Rightarrow> (Inr r, s') | (ErrorReply msg, s') \<Rightarrow> (Inl (ErrBackend msg), s'))"
  by (simp add: no_faults_def run_script_def)

lemma i64_mul_0 [simp]: "i64_mul 0 x = 0"
  by (simp add: i64_exact)

lemma purge_axis [simp]: "axis_map ax (purgeExpired m t) = axis_map ax m"
  by (cases ax) (simp_all add: purgeExpired_def)

lemmas check_agree_defs = redis_Check_def mem_Check_def bucketKeys_rkey bucketKeysIO_rkey lua_check_def lua_check_io_def
  checkClassicLocked_def checkSplitLocked_def

lemmas check_agree_simps = parseDecision_def parseDecisionIO_def reply_arr_def no_resets_def zero_Decision_def
  case_prod_beta ms_dur_def purgeExpired_def RemainingInt_def lua_remaining_def limit_type_defs

lemma check_classic_agrees:
  assumes ok: "redis_ok R H D s" and t: "redis_clock t" and l: "redis_limits limits"
    and ag: "axis_agrees R H s m t key limits Rpm" "axis_agrees R H s m t key limits Tpm"
    and cl: "axis_clear m t key limits cost Rpm" "axis_clear m t key limits cost Tpm"
    and sp: "\<not> Split limits" and f: "no_faults R s t"
  shows "map_sum id no_resets (fst (redis_Check R s t key limits cost rid)) =
     map_sum id no_resets (fst (mem_Check m t key limits cost rid))"
  using axis_consume [OF ok t l ag(1) cl(1)] axis_consume [OF ok t l ag(2) cl(2)] sp
  unfolding check_agree_defs Let_def
  by (auto simp: run_script_no_fault [OF f] check_agree_simps split: option.splits)

lemma check_split_agrees:
  assumes ok: "redis_ok R H D s" and t: "redis_clock t" and l: "redis_limits limits"
    and ag: "axis_agrees R H s m t key limits Rpm" "axis_agrees R H s m t key limits Itpm"
      "axis_agrees R H s m t key limits Otpm"
    and cl: "axis_clear m t key limits cost Rpm" "axis_clear m t key limits cost Itpm"
      "axis_clear m t key limits cost Otpm"
    and sp: "Split limits" and f: "no_faults R s t"
  shows "map_sum id no_resets (fst (redis_Check R s t key limits cost rid)) =
     map_sum id no_resets (fst (mem_Check m t key limits cost rid))"
  using axis_consume [OF ok t l ag(1) cl(1)] axis_consume [OF ok t l ag(2) cl(2)] axis_consume [OF ok t l ag(3) cl(3)] sp
  unfolding check_agree_defs Let_def
  by (auto simp: run_script_no_fault [OF f] check_agree_simps split: option.splits)

section \<open>The buckets after a check\<close>

lemma put_num:
  assumes ok: "redis_ok R H D s" and x: "is_f64 x"
  shows "hash_num R (H (lua_put R t (rkey ax key) x s) (rkey ax key)) ''tokens'' = Some x"
    and "hash_num R (H (lua_put R t (rkey ax key) x s) (rkey ax key)) ''last_ms'' = Some (lua_now t)"
    and "k \<noteq> rkey ax key \<Longrightarrow> H (lua_put R t (rkey ax key) x s) k = H s k"
  using redis_lawsD(3) [OF redis_okD(1) [OF ok], of "[(''tokens'', rNumText R x), (''last_ms'', rNumText R (lua_now t))]"]
    redis_lawsD(7) [OF redis_okD(1) [OF ok]] x
  by (simp_all add: lua_put_def hash_num_def)

lemma set_res_other:
  assumes ok: "redis_ok R H D s" and fvs: "fvs \<noteq> []" "distinct (map fst fvs)" and k: "k \<noteq> reservationKey rid"
  shows "H (rExpire R (rHMSet R s t (reservationKey rid) fvs) t (reservationKey rid) n) k = H s k"
proof -
  note D = redis_okD [OF ok]
  let ?s = "rHMSet R s t (reservationKey rid) fvs"
  have ne: "rfields H D ?s t (reservationKey rid) \<noteq> Map.empty"
    using fvs(1) unfolding rfields_HMSet [OF D(1) fvs] by simp
  show ?thesis using redis_lawsD(5) [OF D(1) ne] redis_lawsD(3) [OF D(1) fvs] k by simp
qed

lemma redis_Check_refused_state:
  assumes "no_faults R s t" "\<not> granted (fst (redis_Check R s t key limits cost rid))"
  shows "snd (redis_Check R s t key limits cost rid) = s"
  using assms(2) unfolding redis_Check_def bucketKeys_rkey bucketKeysIO_rkey lua_check_def lua_check_io_def Let_def
  by (auto simp: run_script_no_fault [OF assms(1)] parseDecision_def parseDecisionIO_def reply_arr_def split: option.splits if_splits)

definition rtok :: "'r RedisOps \<Rightarrow> 'r \<Rightarrow> time \<Rightarrow> Key \<Rightarrow> Limits \<Rightarrow> axis \<Rightarrow> float64" where
  "rtok R s t key limits ax = lua_refill R s t (rkey ax key) (f64_of_int (axis_limit ax limits))"

definition rcost :: "Cost \<Rightarrow> axis \<Rightarrow> float64" where
  "rcost cost ax = lua_clamp (f64_of_int (axis_cost ax cost))"

text \<open>A check is granted exactly when every budget it uses covers its cost.\<close>

lemma redis_Check_granted_iff:
  assumes f: "no_faults R s t" and "Validate limits = None" "Subject key \<noteq> ''''" "rid \<noteq> ''''"
  shows "granted (fst (redis_Check R s t key limits cost rid)) \<longleftrightarrow>
    (\<forall>ax. active ax (Split limits) \<longrightarrow> rcost cost ax \<le> rtok R s t key limits ax \<and>
       rcost cost ax \<le> f64_of_int (axis_limit ax limits))"
  unfolding active_all redis_Check_def bucketKeys_rkey bucketKeysIO_rkey lua_check_def lua_check_io_def Let_def
  using assms(2-)
  by (auto simp: run_script_no_fault [OF f] parseDecision_def parseDecisionIO_def reply_arr_def rtok_def rcost_def not_less
      split: option.splits if_splits)

lemma redis_Check_valid:
  assumes "granted (fst (redis_Check R s t key limits cost rid))"
  shows "Validate limits = None" "Subject key \<noteq> ''''" "rid \<noteq> ''''"
  using assms by (auto simp: redis_Check_def split: option.splits if_splits)

definition holds_tokens :: "'r RedisOps \<Rightarrow> (string \<rightharpoonup> string) \<Rightarrow> float64 \<Rightarrow> time \<Rightarrow> bool" where
  "holds_tokens R m x t \<longleftrightarrow> hash_num R m ''tokens'' = Some x \<and> hash_num R m ''last_ms'' = Some (lua_now t)"

lemma put_holds:
  assumes "redis_ok R H D s" "amount x"
  shows "holds_tokens R (H (lua_put R t (rkey ax key) x s) (rkey ax key)) x t"
    and "redis_ok R H D (lua_put R t (rkey ax key) x s)"
    and "k \<noteq> rkey ax key \<Longrightarrow> H (lua_put R t (rkey ax key) x s) k = H s k"
  using put_num [OF assms(1) amountD(1) [OF assms(2)]] put_ok [OF assms] by (simp_all add: holds_tokens_def)

lemma lua_check_state:
  fixes R :: "'r RedisOps"
  defines "T1 \<equiv> \<lambda>s t k l. lua_refill R s t k (f64_of_int l)" and "N \<equiv> \<lambda>n. lua_clamp (f64_of_int n)"
  assumes "\<not> (T1 s t k1 l1 < N n1 \<or> f64_of_int l1 < N n1)" "\<not> (T1 s t k2 l2 < N n2 \<or> f64_of_int l2 < N n2)"
  shows "\<exists>fvs. snd (lua_check R s t k1 k2 res l1 l2 n1 n2 ttl sub m) =
      rExpire R (rHMSet R (lua_put R t k2 (f64_sub (T1 s t k2 l2) (N n2))
        (lua_put R t k1 (f64_sub (T1 s t k1 l1) (N n1)) s)) t res fvs) t res ttl \<and>
      fvs \<noteq> [] \<and> distinct (map fst fvs) \<and>
      map_of fvs ''status'' = Some ''pending'' \<and> map_of fvs ''mode'' = Some ''classic'' \<and>
      map_of fvs ''subject'' = Some sub \<and> map_of fvs ''model'' = Some m \<and>
      map_of fvs ''limit_rpm'' = Some (rNumText R (f64_of_int l1)) \<and> map_of fvs ''rpm_cost'' = Some (rNumText R (N n1)) \<and>
      map_of fvs ''limit_tpm'' = Some (rNumText R (f64_of_int l2)) \<and> map_of fvs ''tpm_reserved'' = Some (rNumText R (N n2))"
  using assms(3-) unfolding lua_check_def Let_def T1_def N_def
  by (simp only: if_False snd_conv de_Morgan_disj simp_thms) (rule exI, rule conjI, rule refl, simp)

lemma lua_check_io_state:
  fixes R :: "'r RedisOps"
  defines "T1 \<equiv> \<lambda>s t k l. lua_refill R s t k (f64_of_int l)" and "N \<equiv> \<lambda>n. lua_clamp (f64_of_int n)"
  assumes "\<not> (T1 s t k1 l1 < N n1 \<or> f64_of_int l1 < N n1)" "\<not> (T1 s t k2 l2 < N n2 \<or> f64_of_int l2 < N n2)"
    "\<not> (T1 s t k3 l3 < N n3 \<or> f64_of_int l3 < N n3)"
  shows "\<exists>fvs. snd (lua_check_io R s t k1 k2 k3 res l1 l2 l3 n1 n2 n3 ttl sub m) =
      rExpire R (rHMSet R (lua_put R t k3 (f64_sub (T1 s t k3 l3) (N n3)) (lua_put R t k2 (f64_sub (T1 s t k2 l2) (N n2))
        (lua_put R t k1 (f64_sub (T1 s t k1 l1) (N n1)) s))) t res fvs) t res ttl \<and>
      fvs \<noteq> [] \<and> distinct (map fst fvs) \<and>
      map_of fvs ''status'' = Some ''pending'' \<and> map_of fvs ''mode'' = Some ''split'' \<and>
      map_of fvs ''subject'' = Some sub \<and> map_of fvs ''model'' = Some m \<and>
      map_of fvs ''limit_rpm'' = Some (rNumText R (f64_of_int l1)) \<and> map_of fvs ''rpm_cost'' = Some (rNumText R (N n1)) \<and>
      map_of fvs ''limit_itpm'' = Some (rNumText R (f64_of_int l2)) \<and> map_of fvs ''itpm_reserved'' = Some (rNumText R (N n2)) \<and>
      map_of fvs ''limit_otpm'' = Some (rNumText R (f64_of_int l3)) \<and> map_of fvs ''otpm_reserved'' = Some (rNumText R (N n3))"
  using assms(3-) unfolding lua_check_io_def Let_def T1_def N_def
  by (simp only: if_False snd_conv de_Morgan_disj simp_thms) (rule exI, rule conjI, rule refl, simp)

lemma snd_run_script: "no_faults R s t \<Longrightarrow> snd (run_script R s t name script) = snd (script s)"
  by (simp add: run_script_no_fault split: prod.splits script_result.splits)

definition left_over :: "'r RedisOps \<Rightarrow> 'r \<Rightarrow> time \<Rightarrow> Key \<Rightarrow> Limits \<Rightarrow> Cost \<Rightarrow> axis \<Rightarrow> float64" where
  "left_over R s t key limits cost ax = f64_sub (rtok R s t key limits ax) (rcost cost ax)"

text \<open>The state after a granted check: the debited buckets and the new reservation.\<close>

lemma redis_Check_granted_state:
  assumes f: "no_faults R s t" and g: "granted (fst (redis_Check R s t key limits cost rid))"
  obtains fvs where "snd (redis_Check R s t key limits cost rid) =
      rExpire R (rHMSet R (if Split limits
          then lua_put R t (rkey Otpm key) (left_over R s t key limits cost Otpm)
            (lua_put R t (rkey Itpm key) (left_over R s t key limits cost Itpm)
              (lua_put R t (rkey Rpm key) (left_over R s t key limits cost Rpm) s))
          else lua_put R t (rkey Tpm key) (left_over R s t key limits cost Tpm)
            (lua_put R t (rkey Rpm key) (left_over R s t key limits cost Rpm) s))
        t (reservationKey rid) fvs) t (reservationKey rid) ttl_seconds"
    and "fvs \<noteq> []" "distinct (map fst fvs)" "map_of fvs ''status'' = Some ''pending''"
    "map_of fvs ''mode'' = Some (if Split limits then ''split'' else ''classic'')"
    "map_of fvs ''subject'' = Some (Subject key)" "map_of fvs ''model'' = Some (modelOrDash (Model key))"
    "\<And>ax. active ax (Split limits) \<Longrightarrow> map_of fvs (limit_field ax) = Some (rNumText R (f64_of_int (axis_limit ax limits)))"
    "\<And>ax. active ax (Split limits) \<Longrightarrow> map_of fvs (reserved_field ax) = Some (rNumText R (rcost cost ax))"
proof -
  note v = redis_Check_valid [OF g]
  have cov: "\<not> (rtok R s t key limits ax < rcost cost ax \<or> f64_of_int (axis_limit ax limits) < rcost cost ax)"
    if "active ax (Split limits)" for ax
    using g that unfolding redis_Check_granted_iff [OF f v] by (auto simp: not_less)
  note un = rtok_def rcost_def left_over_def axis_limit.simps axis_cost.simps
  show thesis
  proof (cases "Split limits")
    case False
    have ac: "active Rpm (Split limits)" "active Tpm (Split limits)" using False by simp_all
    show thesis
    apply (rule exE [OF lua_check_state [OF cov [OF ac(1), unfolded un] cov [OF ac(2), unfolded un],
          of "reservationKey rid" ttl_seconds "Subject key" "modelOrDash (Model key)"]])
      apply (elim conjE)
      subgoal for fvs
        apply (rule that [of fvs])
        subgoal using v False unfolding redis_Check_def bucketKeys_rkey un by (simp add: case_prod_beta snd_run_script [OF f])
        using False apply simp_all
        subgoal for ax by (cases ax) simp_all
        subgoal for ax by (cases ax) (simp_all add: rcost_def)
        done
      done
  next
    case True
    have ac: "active Rpm (Split limits)" "active Itpm (Split limits)" "active Otpm (Split limits)" using True by simp_all
    show thesis
    apply (rule exE [OF lua_check_io_state [OF cov [OF ac(1), unfolded un] cov [OF ac(2), unfolded un] cov [OF ac(3), unfolded un],
          of "reservationKey rid" ttl_seconds "Subject key" "modelOrDash (Model key)"]])
      apply (elim conjE)
      subgoal for fvs
        apply (rule that [of fvs])
        subgoal using v True unfolding redis_Check_def bucketKeysIO_rkey un by (simp add: case_prod_beta snd_run_script [OF f])
        using True apply simp_all
        subgoal for ax by (cases ax) simp_all
        subgoal for ax by (cases ax) (simp_all add: rcost_def)
        done
      done
  qed
qed

lemma redis_Check_granted_bucket:
  assumes ok: "redis_ok R H D s" and f: "no_faults R s t" and l: "redis_limits limits"
    and g: "granted (fst (redis_Check R s t key limits cost rid))" and a: "active ax (Split limits)"
  shows "holds_tokens R (H (snd (redis_Check R s t key limits cost rid)) (rkey ax key))
    (left_over R s t key limits cost ax) t"
proof -
  note v = redis_Check_valid [OF g]
  have am: "amount (left_over R s t key limits cost ax)" if "active ax (Split limits)" for ax
    using amount_debit [OF lua_refill_amount [OF ok amount_limit [OF redis_limitsD [OF l]]]] g that
    unfolding redis_Check_granted_iff [OF f v] by (simp add: left_over_def rtok_def rcost_def)
  from redis_Check_granted_state [OF f g] obtain fvs where st: "snd (redis_Check R s t key limits cost rid) =
      rExpire R (rHMSet R (if Split limits
          then lua_put R t (rkey Otpm key) (left_over R s t key limits cost Otpm)
            (lua_put R t (rkey Itpm key) (left_over R s t key limits cost Itpm)
              (lua_put R t (rkey Rpm key) (left_over R s t key limits cost Rpm) s))
          else lua_put R t (rkey Tpm key) (left_over R s t key limits cost Tpm)
            (lua_put R t (rkey Rpm key) (left_over R s t key limits cost Rpm) s))
        t (reservationKey rid) fvs) t (reservationKey rid) ttl_seconds" and fvs: "fvs \<noteq> []" "distinct (map fst fvs)"
    by metis
  have ac: "active Rpm (Split limits)" by simp
  note p1 = put_holds [OF ok am [OF ac], where t = t and ax = Rpm and key = key]
  show ?thesis
  proof (cases "Split limits")
    case False
    then have at: "active Tpm (Split limits)" by simp
    note p2 = put_holds [OF p1(2) am [OF at], where t = t and ax = Tpm and key = key]
    show ?thesis
      using a False p1(1) p2(1) p2(3) set_res_other [OF p2(2) fvs, of "rkey ax key"] st by (cases ax) simp_all
  next
    case True
    then have at: "active Itpm (Split limits)" "active Otpm (Split limits)" by simp_all
    note p2 = put_holds [OF p1(2) am [OF at(1)], where t = t and ax = Itpm and key = key]
    note p3 = put_holds [OF p2(2) am [OF at(2)], where t = t and ax = Otpm and key = key]
    show ?thesis
      using a True p1(1) p2(1) p2(3) p3(1) p3(3) set_res_other [OF p3(2) fvs, of "rkey ax key"] st by (cases ax) simp_all
  qed
qed

section \<open>The two stores agree\<close>

text \<open>
  C7 (the two stores agree). With a working connection and from corresponding buckets, where no budget
  is within the tolerance of the cost and costs are at most 100 million, a check of the Redis store answers
  as a check of the in-memory store at the same instant, up to the reset times: the same
  error, or the same verdict, limit type, remaining amounts, limits, waiting time and
  reservation id. Afterwards the buckets correspond again, so the amounts debited are equal
  as doubles.
\<close>

theorem redis_check_agrees:
  assumes ok: "redis_ok R H D s" and f: "no_faults R s t" and t: "redis_clock t" and l: "redis_limits limits"
    and ag: "\<forall>ax \<in> {Rpm, Tpm, Itpm, Otpm}. active ax (Split limits) \<longrightarrow>
      axis_agrees R H s m t key limits ax \<and> axis_clear m t key limits cost ax"
  shows "map_sum id no_resets (fst (redis_Check R s t key limits cost rid)) =
      map_sum id no_resets (fst (mem_Check m t key limits cost rid)) \<and>
    (\<forall>ax \<in> {Rpm, Tpm, Itpm, Otpm}. active ax (Split limits) \<longrightarrow>
      axis_agrees R H (snd (redis_Check R s t key limits cost rid)) (snd (mem_Check m t key limits cost rid)) t key limits ax)"
proof -
  have ag': "axis_agrees R H s m t key limits ax" "axis_clear m t key limits cost ax"
    if "active ax (Split limits)" for ax using ag that unfolding all_axes by blast+
  have d: "map_sum id no_resets (fst (redis_Check R s t key limits cost rid)) =
      map_sum id no_resets (fst (mem_Check m t key limits cost rid))"
    using check_classic_agrees [OF ok t l, of m key cost rid] check_split_agrees [OF ok t l, of m key cost rid] ag' f
    by (cases "Split limits") simp_all
  have same: "granted (fst (redis_Check R s t key limits cost rid)) = granted (fst (mem_Check m t key limits cost rid))"
    using d by (cases "fst (redis_Check R s t key limits cost rid)"; cases "fst (mem_Check m t key limits cost rid)")
      (auto simp: no_resets_def dest: arg_cong [where f = Allowed])
  have "axis_agrees R H (snd (redis_Check R s t key limits cost rid)) (snd (mem_Check m t key limits cost rid)) t key limits ax"
    if a: "active ax (Split limits)" for ax
  proof (cases "granted (fst (mem_Check m t key limits cost rid))")
    case False
    then show ?thesis
      using ag'(1) [OF a] same redis_Check_refused_state [OF f, of key limits cost rid] by (simp add: axis_agrees_def mem_Check_axis)
  next
    case True
    note g = True [folded same]
    let ?now = "ms_of_time t" and ?c = "axis_limit ax limits"
    let ?B = "axis_load ax m (bucketKey key) ?c ?now" and ?n = "max 0 (axis_cost ax cost)"
    note now = redis_clockD(3-) [OF t]
    have n: "clampCost (axis_cost ax cost) = ?n" by (simp add: clampCost_def max_def)
    note al = mem_Check_granted_axis [OF True a]
    have tok: "Tokens (fst (TryConsume ?B ?now ?n)) = left_over R s t key limits cost ax"
      using axis_consume(6) [OF ok t l ag' [OF a], unfolded n, OF al] by (simp add: left_over_def rtok_def rcost_def)
    have cov: "rcost cost ax \<le> rtok R s t key limits ax"
      using g a unfolding redis_Check_granted_iff [OF f redis_Check_valid [OF g]] by simp
    have am: "amount (left_over R s t key limits cost ax)"
      using amount_debit [OF lua_refill_amount [OF ok amount_limit [OF redis_limitsD [OF l]]]] cov
      by (simp add: left_over_def rtok_def rcost_def)
    have "bucket_ok ?B"
      by (rule same_load_ok(1) [where mb = "axis_map ax m" and k = "bucketKey key",
          OF ag'(1) [OF a, unfolded axis_agrees_def] redis_limitsD [OF l] now(1,2)])
    then have "left_over R s t key limits cost ax \<le> of_int ?c"
      using bucket_okD(3) [OF TryConsume_ok [OF _ now(4), of ?B ?n]] tok by (simp add: loadBucket_stored)
    then show ?thesis
      using redis_Check_granted_bucket [OF ok f l g a] True a tok am now
      by (simp add: axis_agrees_def mem_Check_axis saveBucket_def same_bucket_def holds_tokens_def amountD(1,2))
  qed
  then show ?thesis using d unfolding all_axes by blast
qed

definition redis_empty :: rmap where
  "redis_empty = (\<lambda>k. ([], None))"

abbreviation rmap_H :: "rmap \<Rightarrow> string \<Rightarrow> string \<rightharpoonup> string" where
  "rmap_H \<equiv> \<lambda>s k. map_of (fst (s k))"

abbreviation rmap_D :: "rmap \<Rightarrow> string \<Rightarrow> int option" where
  "rmap_D \<equiv> \<lambda>s k. snd (s k)"

lemma redis_empty_ok: "redis_ok redis_map rmap_H rmap_D redis_empty"
  using redis_map_laws by (simp add: redis_ok_def redis_empty_def bucket_wf_def res_wf_def)

lemma redis_map_no_faults: "no_faults redis_map s t"
  by (simp add: no_faults_def redis_map_def)

theorem redis_check_agrees_witness:
  "map_sum id no_resets (fst (redis_Check redis_map redis_empty 1700000000000000000 \<lparr>Subject = ''u'', Model = ''m''\<rparr>
      \<lparr>RequestsPerMinute = 60, TokensPerMinute = 1000, InputTokensPerMinute = 0, OutputTokensPerMinute = 0\<rparr>
      \<lparr>Requests = 1, CTokens = 400, InputTokens = 0, OutputTokens = 0\<rparr> ''r'')) =
   map_sum id no_resets (fst (mem_Check mem_New 1700000000000000000 \<lparr>Subject = ''u'', Model = ''m''\<rparr>
      \<lparr>RequestsPerMinute = 60, TokensPerMinute = 1000, InputTokensPerMinute = 0, OutputTokensPerMinute = 0\<rparr>
      \<lparr>Requests = 1, CTokens = 400, InputTokens = 0, OutputTokens = 0\<rparr> ''r''))"
proof (rule redis_check_agrees [OF redis_empty_ok redis_map_no_faults, THEN conjunct1])
  let ?l = "\<lparr>RequestsPerMinute = 60, TokensPerMinute = 1000, InputTokensPerMinute = 0, OutputTokensPerMinute = 0\<rparr> :: Limits"
  show "redis_clock 1700000000000000000" by (simp add: redis_clock_def)
  show "redis_limits ?l" by (simp add: redis_limits_def rlimit_def)
  show "\<forall>ax \<in> {Rpm, Tpm, Itpm, Otpm}. active ax (Split ?l) \<longrightarrow>
      axis_agrees redis_map rmap_H redis_empty mem_New 1700000000000000000 \<lparr>Subject = ''u'', Model = ''m''\<rparr> ?l ax \<and>
      axis_clear mem_New 1700000000000000000 \<lparr>Subject = ''u'', Model = ''m''\<rparr> ?l
        \<lparr>Requests = 1, CTokens = 400, InputTokens = 0, OutputTokens = 0\<rparr> ax"
    by (simp add: Split_def axis_agrees_def axis_clear_def redis_empty_def same_bucket_def mem_New_def clear_cut_def
        loadBucket_def Refill_def f64_of_int_exact)
qed

end
