(* ===== verification/Redis_Lifecycle.thy ===== *)
theory Redis_Lifecycle
  imports Redis_Agreement
begin

text \<open>
  The life of a reservation in Redis. What a caller can observe of it is read off its hash
  (\<open>redis_view\<close>); the Redis store follows the same abstract protocol, with the same errors,
  as the in-memory store.
\<close>

section \<open>What a caller observes\<close>

definition status_of :: "string option \<Rightarrow> status" where
  "status_of v = (if v = Some ''settled'' then Settled else if v = Some ''refunded'' then Refunded else Pending)"

definition view_of :: "(string \<rightharpoonup> string) \<Rightarrow> (status \<times> bool) option" where
  "view_of m = (if m = Map.empty then None else Some (status_of (m ''status''), m ''mode'' = Some ''split''))"

definition redis_view :: "('r \<Rightarrow> string \<Rightarrow> string \<rightharpoonup> string) \<Rightarrow> ('r \<Rightarrow> string \<Rightarrow> int option) \<Rightarrow>
    'r \<Rightarrow> time \<Rightarrow> string \<Rightarrow> (status \<times> bool) option" where
  "redis_view H D s t rid = view_of (rfields H D s t (reservationKey rid))"

fun redis_exec :: "'r RedisOps \<Rightarrow> store_op \<Rightarrow> time \<Rightarrow> 'r \<Rightarrow> 'r" where
  "redis_exec R (DoCheck key limits cost rid) t s = snd (redis_Check R s t key limits cost rid)"
| "redis_exec R (DoSettle rid a) t s = snd (redis_Settle R s t rid a)"
| "redis_exec R (DoSettleIO rid a b) t s = snd (redis_SettleIO R s t rid a b)"
| "redis_exec R (DoRefund rid) t s = snd (redis_Refund R s t rid)"
| "redis_exec R (DoBorrow key limits spec) t s = snd (redis_Borrow R s t key limits spec)"
| "redis_exec R (DoReturn key limits a b c d) t s = snd (redis_Return R s t key limits a b c d)"

fun redis_granted :: "'r RedisOps \<Rightarrow> 'r \<Rightarrow> time \<Rightarrow> store_op \<Rightarrow> bool" where
  "redis_granted R s t (DoCheck key limits cost rid) = granted (fst (redis_Check R s t key limits cost rid))"
| "redis_granted R s t opn = False"

lemma ttl_900: "ttl_seconds = 900"
  by code_simp

section \<open>Errors\<close>

lemma mapResErr_simps [simp]:
  "mapResErr ErrReservationNotFound = ErrReservationNotFound"
  "mapResErr (ErrBackend ''reservation not found'') = ErrReservationNotFound"
  "mapResErr (ErrBackend ''reservation already settled'') = ErrReservationSettled"
  "mapResErr (ErrBackend ''reservation already refunded'') = ErrReservationRefunded"
  "mapResErr (ErrBackend ''wrong settle mode for reservation'') = ErrWrongSettleMode"
  by code_simp+

lemma mode_absent:
  assumes "redis_laws R H D" "no_faults R s t" "redis_view H D s t rid = None"
  shows "reservationMode R s t rid = Inl ErrReservationNotFound"
  using assms by (simp add: reservationMode_def redis_view_def view_of_def no_faults_def redis_lawsD(1) split: if_splits)

lemma mode_present:
  assumes ok: "redis_ok R H D s" and f: "no_faults R s t" and v: "redis_view H D s t rid = Some (st, sp)"
  obtains key where "reservationMode R s t rid = Inr (if sp then ''split'' else ''classic'', key)"
    and "rExists R s t (reservationKey rid)" and "res_shape (rfields H D s t (reservationKey rid))"
proof -
  let ?m = "rfields H D s t (reservationKey rid)"
  note L = redis_lawsD [OF redis_okD(1) [OF ok]]
  have ne: "?m \<noteq> Map.empty" and sp: "sp \<longleftrightarrow> ?m ''mode'' = Some ''split''"
    using v by (auto simp: redis_view_def view_of_def split: if_splits)
  have ex: "rExists R s t (reservationKey rid)" using ne by (simp add: L(2))
  note sh = live_shape [OF ok ex]
  have "\<exists>key. reservationMode R s t rid = Inr (if sp then ''split'' else ''classic'', key)"
    using sh f sp unfolding reservationMode_def Let_def
    by (auto simp: no_faults_def L(1) res_shape_def)
  then show thesis using that ex sh by blast
qed

text \<open>The numbers a reservation has are readable.\<close>

lemma field_present:
  assumes ok: "redis_ok R H D s" and f: "f \<in> dom (rfields H D s t (reservationKey rid))" "f \<in> limit_fields \<union> cost_fields"
  shows "\<exists>x. lua_field R s t (reservationKey rid) f = Some x"
proof -
  obtain v where v: "rfields H D s t (reservationKey rid) f = Some v" using f(1) by blast
  then have "res_field_wf R f v" using redis_okD(6) [OF ok, of t rid] by (simp add: res_wf_def)
  then show ?thesis
    using f(2) v by (auto simp: lua_field_def redis_lawsD(1) [OF redis_okD(1) [OF ok]] res_field_wf_def num_wf_def
        split: option.splits)
qed

lemma classic_numbers:
  assumes ok: "redis_ok R H D s" and sh: "res_shape (rfields H D s t (reservationKey rid))"
    and m: "rfields H D s t (reservationKey rid) ''mode'' \<noteq> Some ''split''"
  obtains a b c d where "lua_field R s t (reservationKey rid) ''rpm_cost'' = Some a"
    "lua_field R s t (reservationKey rid) ''tpm_reserved'' = Some b"
    "lua_field R s t (reservationKey rid) ''limit_rpm'' = Some c"
    "lua_field R s t (reservationKey rid) ''limit_tpm'' = Some d"
  using sh m field_present [OF ok, of "''rpm_cost''" t rid] field_present [OF ok, of "''tpm_reserved''" t rid]
    field_present [OF ok, of "''limit_rpm''" t rid] field_present [OF ok, of "''limit_tpm''" t rid] settle_keys
  by (auto simp: res_shape_def)

lemma split_numbers:
  assumes ok: "redis_ok R H D s" and sh: "res_shape (rfields H D s t (reservationKey rid))"
    and m: "rfields H D s t (reservationKey rid) ''mode'' = Some ''split''"
  obtains a b c d e where "lua_field R s t (reservationKey rid) ''itpm_reserved'' = Some a"
    "lua_field R s t (reservationKey rid) ''otpm_reserved'' = Some b"
    "lua_field R s t (reservationKey rid) ''limit_rpm'' = Some c"
    "lua_field R s t (reservationKey rid) ''limit_itpm'' = Some d"
    "lua_field R s t (reservationKey rid) ''limit_otpm'' = Some e"
  using sh m field_present [OF ok, of "''itpm_reserved''" t rid] field_present [OF ok, of "''otpm_reserved''" t rid]
    field_present [OF ok, of "''limit_rpm''" t rid] field_present [OF ok, of "''limit_itpm''" t rid]
    field_present [OF ok, of "''limit_otpm''" t rid] settle_keys
  by (auto simp: res_shape_def)

section \<open>Steps\<close>

lemma res_after:
  assumes L: "redis_laws R H D" and fvs: "fvs \<noteq> []" "distinct (map fst fvs)"
  shows "rfields H D (rExpire R (rHMSet R s t k fvs) t k ttl_seconds) t k' =
    (if k' = k then rfields H D s t k ++ map_of fvs else rfields H D s t k')"
proof -
  have "rfields H D (rHMSet R s t k fvs) t k \<noteq> Map.empty" using fvs(1) by (simp add: rfields_HMSet [OF L fvs])
  then show ?thesis using rfields_Expire [OF L, of _ t k ttl_seconds] rfields_HMSet [OF L fvs, of s t k] by (simp add: ttl_900)
qed

lemma view_put: "redis_laws R H D \<Longrightarrow> redis_view H D (lua_put R t (rkey ax key) x s) t rid = redis_view H D s t rid"
  by (simp add: redis_view_def rfields_put)

lemma view_finish:
  assumes L: "redis_laws R H D" and fvs: "fvs \<noteq> []" "distinct (map fst fvs)" "map_of fvs ''mode'' = None"
    and v: "redis_view H D s t rid = Some (st, sp)"
    and st: "map_of fvs ''status'' = Some x" "status_of (Some x) = st'"
  shows "redis_view H D (rExpire R (rHMSet R s t (reservationKey rid) fvs) t (reservationKey rid) ttl_seconds) t rid' =
    (if rid' = rid then Some (st', sp) else redis_view H D s t rid')"
proof -
  let ?m = "rfields H D s t (reservationKey rid)"
  have "(?m ++ map_of fvs) ''mode'' = ?m ''mode''" "(?m ++ map_of fvs) ''status'' = Some x"
    using fvs(3) st(1) by (simp_all add: map_add_def)
  then show ?thesis
    using v st(2) fvs(1) by (auto simp: redis_view_def res_after [OF L fvs(1,2)] view_of_def split: if_splits)
qed

lemma view_status:
  assumes "redis_ok R H D s" "redis_view H D s t rid = Some (st, sp)"
  shows "rHGet R s t (reservationKey rid) ''status'' = Some ''settled'' \<longleftrightarrow> st = Settled"
    and "rHGet R s t (reservationKey rid) ''status'' = Some ''refunded'' \<longleftrightarrow> st = Refunded"
    and "rHGet R s t (reservationKey rid) ''mode'' = Some ''split'' \<longleftrightarrow> sp"
  using assms by (auto simp: redis_lawsD(1) [OF redis_okD(1) [OF assms(1)]] redis_view_def view_of_def status_of_def
      split: if_splits)

lemma settle_step:
  assumes ok: "redis_ok R H D s" and f: "no_faults R s t"
  shows "err_of (fst (redis_Settle R s t rid a)) = settle_spec False (redis_view H D s t rid)"
    and "redis_view H D (snd (redis_Settle R s t rid a)) t rid' = spec_next ok' (DoSettle rid a) rid' (redis_view H D s t rid')"
proof -
  note L = redis_okD(1) [OF ok]
  have "err_of (fst (redis_Settle R s t rid a)) = settle_spec False (redis_view H D s t rid) \<and>
    redis_view H D (snd (redis_Settle R s t rid a)) t rid' = spec_next ok' (DoSettle rid a) rid' (redis_view H D s t rid')"
  proof (cases "redis_view H D s t rid")
    case None
    then show ?thesis using mode_absent [OF L f None] by (simp add: redis_Settle_def err_of_def settle_spec_def)
  next
    case (Some p)
    then obtain st sp where v: "redis_view H D s t rid = Some (st, sp)" by (cases p) auto
    obtain key where m: "reservationMode R s t rid = Inr (if sp then ''split'' else ''classic'', key)"
      and ex: "rExists R s t (reservationKey rid)" and sh: "res_shape (rfields H D s t (reservationKey rid))"
      by (rule mode_present [OF ok f v])
    note vs = view_status [OF ok v]
    show ?thesis
    proof (cases "sp \<or> st \<noteq> Pending")
      case True
      then show ?thesis
        using v m ex vs
        by (cases st) (auto simp: redis_Settle_def bucketKeys_rkey run_script_no_fault [OF f] lua_settle_def Let_def
            err_of_def settle_spec_def parseSettle_def reply_arr_def)
    next
      case False
      then have sp: "\<not> sp" "st = Pending" by auto
      have "rfields H D s t (reservationKey rid) ''mode'' \<noteq> Some ''split''"
        using vs(3) sp by (simp add: redis_lawsD(1) [OF L])
      from classic_numbers [OF ok sh this] obtain n1 n2 n3 n4 where
        n: "lua_field R s t (reservationKey rid) ''rpm_cost'' = Some n1"
          "lua_field R s t (reservationKey rid) ''tpm_reserved'' = Some n2"
          "lua_field R s t (reservationKey rid) ''limit_rpm'' = Some n3"
          "lua_field R s t (reservationKey rid) ''limit_tpm'' = Some n4" by metis
      show ?thesis
        using v m ex vs sp
        by (simp add: redis_Settle_def bucketKeys_rkey run_script_no_fault [OF f] lua_settle_def Let_def n
            err_of_def settle_spec_def parseSettle_def reply_arr_def case_prod_beta
            view_finish [OF L _ _ _ view_put [OF L, THEN trans, OF view_put [OF L, THEN trans, OF v]]] view_put [OF L] status_of_def)
    qed
  qed
  then show "err_of (fst (redis_Settle R s t rid a)) = settle_spec False (redis_view H D s t rid)"
    "redis_view H D (snd (redis_Settle R s t rid a)) t rid' = spec_next ok' (DoSettle rid a) rid' (redis_view H D s t rid')"
    by simp_all
qed

lemma settle_io_step:
  assumes ok: "redis_ok R H D s" and f: "no_faults R s t"
  shows "err_of (fst (redis_SettleIO R s t rid a b)) = settle_spec True (redis_view H D s t rid)"
    and "redis_view H D (snd (redis_SettleIO R s t rid a b)) t rid' =
      spec_next ok' (DoSettleIO rid a b) rid' (redis_view H D s t rid')"
proof -
  note L = redis_okD(1) [OF ok]
  have "err_of (fst (redis_SettleIO R s t rid a b)) = settle_spec True (redis_view H D s t rid) \<and>
    redis_view H D (snd (redis_SettleIO R s t rid a b)) t rid' =
      spec_next ok' (DoSettleIO rid a b) rid' (redis_view H D s t rid')"
  proof (cases "redis_view H D s t rid")
    case None
    then show ?thesis using mode_absent [OF L f None] by (simp add: redis_SettleIO_def err_of_def settle_spec_def)
  next
    case (Some p)
    then obtain st sp where v: "redis_view H D s t rid = Some (st, sp)" by (cases p) auto
    obtain key where m: "reservationMode R s t rid = Inr (if sp then ''split'' else ''classic'', key)"
      and ex: "rExists R s t (reservationKey rid)" and sh: "res_shape (rfields H D s t (reservationKey rid))"
      by (rule mode_present [OF ok f v])
    note vs = view_status [OF ok v]
    show ?thesis
    proof (cases "\<not> sp \<or> st \<noteq> Pending")
      case True
      then show ?thesis
        using v m ex vs
        by (cases st) (auto simp: redis_SettleIO_def bucketKeysIO_rkey run_script_no_fault [OF f] lua_settle_io_def Let_def
            err_of_def settle_spec_def parseSettleIO_def reply_arr_def)
    next
      case False
      then have sp: "sp" "st = Pending" by auto
      have "rfields H D s t (reservationKey rid) ''mode'' = Some ''split''"
        using vs(3) sp by (simp add: redis_lawsD(1) [OF L])
      from split_numbers [OF ok sh this] obtain n1 n2 n3 n4 n5 where
        n: "lua_field R s t (reservationKey rid) ''itpm_reserved'' = Some n1"
          "lua_field R s t (reservationKey rid) ''otpm_reserved'' = Some n2"
          "lua_field R s t (reservationKey rid) ''limit_rpm'' = Some n3"
          "lua_field R s t (reservationKey rid) ''limit_itpm'' = Some n4"
          "lua_field R s t (reservationKey rid) ''limit_otpm'' = Some n5" by metis
      note v3 = view_put [OF L, THEN trans, OF view_put [OF L, THEN trans, OF view_put [OF L, THEN trans, OF v]]]
      show ?thesis
        using v m ex vs sp
        by (simp add: redis_SettleIO_def bucketKeysIO_rkey run_script_no_fault [OF f] lua_settle_io_def Let_def n
            err_of_def settle_spec_def parseSettleIO_def reply_arr_def case_prod_beta
            view_finish [OF L _ _ _ v3] view_put [OF L] status_of_def)
    qed
  qed
  then show "err_of (fst (redis_SettleIO R s t rid a b)) = settle_spec True (redis_view H D s t rid)"
    "redis_view H D (snd (redis_SettleIO R s t rid a b)) t rid' =
      spec_next ok' (DoSettleIO rid a b) rid' (redis_view H D s t rid')"
    by simp_all
qed

lemma refund_pending:
  assumes ok: "redis_ok R H D s" and f: "no_faults R s t" and v: "redis_view H D s t rid = Some (Pending, sp)"
  shows "fst (redis_Refund R s t rid) = None \<and>
    redis_view H D (snd (redis_Refund R s t rid)) t rid' = (if rid' = rid then Some (Refunded, sp) else redis_view H D s t rid')"
proof -
  note L = redis_okD(1) [OF ok]
  obtain key where m: "reservationMode R s t rid = Inr (if sp then ''split'' else ''classic'', key)"
    and ex: "rExists R s t (reservationKey rid)" and sh: "res_shape (rfields H D s t (reservationKey rid))"
    by (rule mode_present [OF ok f v])
  note vs = view_status [OF ok v] and md = redis_lawsD(1) [OF L, of s t "reservationKey rid" "''mode''"]
  note v2 = view_put [OF L, THEN trans, OF view_put [OF L, THEN trans, OF v]]
  show ?thesis
  proof (cases sp)
    case False
    then have "rfields H D s t (reservationKey rid) ''mode'' \<noteq> Some ''split''" using vs(3) md by simp
    from classic_numbers [OF ok sh this] obtain n1 n2 n3 n4 where
      n: "lua_field R s t (reservationKey rid) ''rpm_cost'' = Some n1"
        "lua_field R s t (reservationKey rid) ''tpm_reserved'' = Some n2"
        "lua_field R s t (reservationKey rid) ''limit_rpm'' = Some n3"
        "lua_field R s t (reservationKey rid) ''limit_tpm'' = Some n4" by metis
    show ?thesis using v m ex vs False
      by (simp add: redis_Refund_def bucketKeys_rkey run_script_no_fault [OF f] lua_refund_def Let_def n
          view_finish [OF L _ _ _ v2] view_put [OF L] status_of_def)
  next
    case True
    then have "rfields H D s t (reservationKey rid) ''mode'' = Some ''split''" using vs(3) md by simp
    from split_numbers [OF ok sh this] obtain n1 n2 n3 n4 n5 where
      n: "lua_field R s t (reservationKey rid) ''itpm_reserved'' = Some n1"
        "lua_field R s t (reservationKey rid) ''otpm_reserved'' = Some n2"
        "lua_field R s t (reservationKey rid) ''limit_rpm'' = Some n3"
        "lua_field R s t (reservationKey rid) ''limit_itpm'' = Some n4"
        "lua_field R s t (reservationKey rid) ''limit_otpm'' = Some n5" by metis
    note v3 = view_put [OF L, THEN trans, OF v2]
    show ?thesis using v m ex vs True
      by (simp add: redis_Refund_def bucketKeysIO_rkey run_script_no_fault [OF f] lua_refund_io_def Let_def n
          view_finish [OF L _ _ _ v3] view_put [OF L] status_of_def)
  qed
qed

lemma refund_step:
  assumes ok: "redis_ok R H D s" and f: "no_faults R s t"
  shows "fst (redis_Refund R s t rid) = refund_spec (redis_view H D s t rid)"
    and "redis_view H D (snd (redis_Refund R s t rid)) t rid' =
      spec_next ok' (DoRefund rid) rid' (redis_view H D s t rid')"
proof -
  have "fst (redis_Refund R s t rid) = refund_spec (redis_view H D s t rid) \<and>
    redis_view H D (snd (redis_Refund R s t rid)) t rid' = spec_next ok' (DoRefund rid) rid' (redis_view H D s t rid')"
  proof (cases "redis_view H D s t rid")
    case None
    then show ?thesis using mode_absent [OF redis_okD(1) [OF ok] f None] by (simp add: redis_Refund_def refund_spec_def)
  next
    case (Some p)
    then obtain st sp where v: "redis_view H D s t rid = Some (st, sp)" by (cases p) auto
    show ?thesis
    proof (cases "st = Pending")
      case True
      then show ?thesis using refund_pending [OF ok f v [unfolded True], of rid'] v by (auto simp: refund_spec_def)
    next
      case False
      obtain key where m: "reservationMode R s t rid = Inr (if sp then ''split'' else ''classic'', key)"
        and ex: "rExists R s t (reservationKey rid)"
        by (rule mode_present [OF ok f v])
      show ?thesis using v m ex False view_status [OF ok v]
        by (cases st; cases sp) (auto simp: redis_Refund_def bucketKeys_rkey bucketKeysIO_rkey run_script_no_fault [OF f]
            lua_refund_def lua_refund_io_def Let_def refund_spec_def)
    qed
  qed
  then show "fst (redis_Refund R s t rid) = refund_spec (redis_view H D s t rid)"
    "redis_view H D (snd (redis_Refund R s t rid)) t rid' = spec_next ok' (DoRefund rid) rid' (redis_view H D s t rid')"
    by simp_all
qed

lemma check_step:
  assumes L: "redis_laws R H D" and f: "no_faults R s t"
  shows "redis_view H D (snd (redis_Check R s t key limits cost rid)) t rid' =
    spec_next (granted (fst (redis_Check R s t key limits cost rid))) (DoCheck key limits cost rid) rid' (redis_view H D s t rid')"
proof (cases "granted (fst (redis_Check R s t key limits cost rid))")
  case False
  then show ?thesis using redis_Check_refused_state [OF f False] by simp
next
  case True
  from redis_Check_granted_state [OF f True] obtain fvs where
    st: "snd (redis_Check R s t key limits cost rid) =
      rExpire R (rHMSet R (if Split limits
          then lua_put R t (rkey Otpm key) (left_over R s t key limits cost Otpm)
            (lua_put R t (rkey Itpm key) (left_over R s t key limits cost Itpm)
              (lua_put R t (rkey Rpm key) (left_over R s t key limits cost Rpm) s))
          else lua_put R t (rkey Tpm key) (left_over R s t key limits cost Tpm)
            (lua_put R t (rkey Rpm key) (left_over R s t key limits cost Rpm) s))
        t (reservationKey rid) fvs) t (reservationKey rid) ttl_seconds"
    and fvs: "fvs \<noteq> []" "distinct (map fst fvs)" "map_of fvs ''status'' = Some ''pending''"
      "map_of fvs ''mode'' = Some (if Split limits then ''split'' else ''classic'')" by metis
  have "(m ++ map_of fvs) ''status'' = Some ''pending''"
    "(m ++ map_of fvs) ''mode'' = Some (if Split limits then ''split'' else ''classic'')" for m :: "string \<rightharpoonup> string"
    using fvs(3,4) by (simp_all add: map_add_def)
  then show ?thesis
    using fvs(1) True
    by (auto simp: st redis_view_def res_after [OF L fvs(1,2)] view_of_def status_of_def rfields_put [OF L])
qed

lemma loan_step:
  assumes "redis_laws R H D" and f: "no_faults R s t"
  shows "redis_view H D (snd (redis_Borrow R s t key limits spec)) t rid = redis_view H D s t rid"
    and "redis_view H D (snd (redis_Return R s t key limits n1 n2 n3 n4)) t rid = redis_view H D s t rid"
  unfolding redis_Borrow_def redis_Return_def bucketKeys_rkey bucketKeysIO_rkey
    lua_borrow_def lua_borrow_io_def lua_return_def lua_return_io_def Let_def
  by (auto simp: run_script_no_fault [OF f] view_put [OF assms(1)] split: option.splits)

section \<open>The protocol\<close>

text \<open>
  C8 (one protocol for both stores). With a working connection and well-formed data, what a caller can
  observe of a reservation in Redis changes under every operation as the abstract protocol of
  the in-memory store says, and \<^verbatim>\<open>Settle\<close>, \<^verbatim>\<open>SettleIO\<close> and \<^verbatim>\<open>Refund\<close> succeed or fail with the
  error the protocol prescribes: the texts of the scripts' errors, carried through the client,
  are mapped back to the right sentinel errors.
\<close>

theorem redis_refinement:
  assumes ok: "redis_ok R H D s" and f: "no_faults R s t"
  shows "redis_view H D (redis_exec R opn t s) t rid =
      spec_next (redis_granted R s t opn) opn rid (redis_view H D s t rid) \<and>
    err_of (fst (redis_Settle R s t rid a)) = settle_spec False (redis_view H D s t rid) \<and>
    err_of (fst (redis_SettleIO R s t rid a b)) = settle_spec True (redis_view H D s t rid) \<and>
    fst (redis_Refund R s t rid) = refund_spec (redis_view H D s t rid)"
  using settle_step [OF ok f] settle_io_step [OF ok f] refund_step [OF ok f]
    check_step [OF redis_okD(1) [OF ok] f] loan_step [OF redis_okD(1) [OF ok] f]
  by (cases opn) simp_all

definition ex_rkey :: Key where "ex_rkey = \<lparr>Subject = ''u'', Model = ''m''\<rparr>"

definition ex_rlimits :: Limits where
  "ex_rlimits = \<lparr>RequestsPerMinute = 60, TokensPerMinute = 1000, InputTokensPerMinute = 0, OutputTokensPerMinute = 0\<rparr>"

definition ex_rcost :: Cost where
  "ex_rcost = \<lparr>Requests = 1, CTokens = 400, InputTokens = 0, OutputTokens = 0\<rparr>"

definition ex_checked :: rmap where
  "ex_checked = snd (redis_Check redis_map redis_empty 1700000000000000000 ex_rkey ex_rlimits ex_rcost ''r'')"

lemma ex_checked_ok: "redis_ok redis_map rmap_H rmap_D ex_checked"
  unfolding ex_checked_def by (rule redis_Check_ok [OF redis_empty_ok]) (simp add: redis_limits_def ex_rlimits_def rlimit_def)

lemma ex_granted: "granted (fst (redis_Check redis_map redis_empty 1700000000000000000 ex_rkey ex_rlimits ex_rcost ''r''))"
  by code_simp

lemma ex_checked_view: "redis_view rmap_H rmap_D ex_checked 1700000000000000000 ''r'' = Some (Pending, False)"
  using check_step [OF redis_map_laws redis_map_no_faults, of redis_empty 1700000000000000000 ex_rkey ex_rlimits ex_rcost "''r''" "''r''"]
    ex_granted by (simp add: ex_checked_def Split_def ex_rlimits_def)

theorem redis_refinement_witness:
  "redis_view rmap_H rmap_D (redis_exec redis_map (DoRefund ''r'') 1700000000000000000 ex_checked) 1700000000000000000 ''r''
     = Some (Refunded, False) \<and>
   err_of (fst (redis_SettleIO redis_map ex_checked 1700000000000000000 ''r'' 1 2)) = Some ErrWrongSettleMode"
  using redis_refinement [OF ex_checked_ok redis_map_no_faults, of "DoRefund ''r''" 1700000000000000000 "''r''"]
  by (simp add: ex_checked_view settle_spec_def)

section \<open>Settling twice\<close>

lemma apply_delta_f64: "is_f64 x \<Longrightarrow> is_f64 (snd (lua_apply_delta x c reserved actual))"
  by (simp add: lua_apply_delta_def Let_def)

text \<open>A hash that was just finished, read at a later instant before it expires.\<close>

lemma finished_later:
  assumes L: "redis_laws R H D" and fvs: "fvs \<noteq> []" "distinct (map fst fvs)"
    and t': "t' div 1000000 \<le> t div 1000000 + 900000"
  shows "rfields H D (rExpire R (rHMSet R s t k fvs) t k ttl_seconds) t' k = rfields H D s t k ++ map_of fvs"
proof -
  let ?s = "rHMSet R s t k fvs"
  have ne: "rfields H D ?s t k \<noteq> Map.empty" using fvs(1) by (simp add: rfields_HMSet [OF L fvs])
  show ?thesis
    using redis_lawsD(5,6) [OF L ne, of ttl_seconds] redis_lawsD(3) [OF L fvs, of s t k] t'
    by (simp add: rfields_def rlive_def ttl_900)
qed

text \<open>
  C19 (settling twice). A pending classic reservation in Redis is settled; a second \<^verbatim>\<open>Settle\<close>
  with any amount before the reservation expires changes nothing and returns the decision of
  the first, except that both reset times are the Unix epoch.
\<close>

theorem redis_settle_replay:
  assumes ok: "redis_ok R H D s" and f: "\<forall>s t. no_faults R s t" and v: "redis_view H D s t rid = Some (Pending, False)"
    and t': "t' div 1000000 \<le> t div 1000000 + 900000"
  shows "\<exists>d s'. redis_Settle R s t rid a = (Inr d, s') \<and>
    redis_Settle R s' t' rid a' = (Inr (d\<lparr>ResetRPM := time_of_ms 0, ResetTPM := time_of_ms 0\<rparr>), s')"
proof -
  note L = redis_okD(1) [OF ok] and rt = redis_lawsD(7) [OF redis_okD(1) [OF ok]]
  have f': "no_faults R s t" for s t using f by blast
  let ?k = "reservationKey rid"
  obtain key where m: "reservationMode R s t rid = Inr (''classic'', key)"
    and ex: "rExists R s t ?k" and sh: "res_shape (rfields H D s t ?k)"
    using mode_present [OF ok f' v] by auto
  note vs = view_status [OF ok v]
  have md: "rfields H D s t ?k ''mode'' \<noteq> Some ''split''" using vs(3) by (simp add: redis_lawsD(1) [OF L])
  from classic_numbers [OF ok sh md] obtain n1 n2 n3 n4 where
    n: "lua_field R s t ?k ''tpm_reserved'' = Some n2" "lua_field R s t ?k ''limit_rpm'' = Some n3"
      "lua_field R s t ?k ''limit_tpm'' = Some n4" by metis
  have am: "amount n3" "amount n4" using res_num(1) [OF ok] n(2,3) settle_keys(1,2) by blast+
  define rpm where "rpm = lua_refill R s t (rkey Rpm key) n3"
  define ad where "ad = lua_apply_delta (lua_refill R s t (rkey Tpm key) n4) n4 n2 (lua_clamp (f64_of_int a))"
  have fl: "is_f64 (lua_remaining rpm)" "is_f64 (lua_remaining (fst ad))" "is_f64 (snd ad)"
    using lua_refill_amount [OF ok am(1)] apply_delta_amount [OF lua_refill_amount [OF ok am(2)] am(2)]
      apply_delta_f64 amountD(1) lua_refill_amount [OF ok am(2)] amount_floor
    by (simp_all add: rpm_def ad_def lua_remaining_def)
  let ?fvs = "[(''status'', ''settled''), (''snap_allowed'', rNumText R 1), (''snap_remaining_rpm'', rNumText R (lua_remaining rpm)),
    (''snap_remaining_tpm'', rNumText R (lua_remaining (fst ad))), (''snap_overshoot'', rNumText R (snd ad))]"
  let ?s2 = "lua_put R t (rkey Rpm key) rpm (lua_put R t (rkey Tpm key) (fst ad) s)"
  define s' where "s' = rExpire R (rHMSet R ?s2 t ?k ?fvs) t ?k ttl_seconds"
  have M: "rfields H D s' t' ?k = rfields H D s t ?k ++ map_of ?fvs"
    unfolding s'_def by (subst finished_later [OF L _ _ t']) (simp_all add: rfields_put [OF L])
  let ?d = "zero_Decision\<lparr>Allowed := True, RemainingRPM := i64_of_f64 (lua_remaining rpm),
    RemainingTPM := i64_of_f64 (lua_remaining (fst ad)), OvershootTPM := i64_of_f64 (snd ad), ReservationID := rid,
    LimitRPM := i64_of_f64 n3, LimitTPM := i64_of_f64 n4\<rparr>"
  let ?at = "\<lambda>p q. ?d\<lparr>ResetRPM := time_of_ms p, ResetTPM := time_of_ms q\<rparr>"
  obtain p q where 1: "redis_Settle R s t rid a = (Inr (?at p q), s')"
    using m ex vs
    by (simp add: redis_Settle_def bucketKeys_rkey run_script_no_fault [OF f'] lua_settle_def Let_def n
        parseSettle_def reply_arr_def case_prod_beta rpm_def [symmetric] ad_def [symmetric] s'_def [symmetric]
        zero_Decision_def ms_dur_def unix_ms_def LimitTypeNone_def)
  have fld: "lua_field R s' t' ?k g = (case map_of ?fvs g of Some w \<Rightarrow> rToNumber R w | None \<Rightarrow> lua_field R s t ?k g)" for g
    by (simp add: lua_field_def redis_lawsD(1) [OF L] M map_add_def split: option.splits)
  have g: "rHGet R s' t' ?k ''status'' = Some ''settled''" "rHGet R s' t' ?k ''mode'' = rHGet R s t ?k ''mode''"
    "rHGet R s' t' ?k ''subject'' = rHGet R s t ?k ''subject''" "rHGet R s' t' ?k ''model'' = rHGet R s t ?k ''model''"
    "rExists R s' t' ?k"
    by (simp_all add: redis_lawsD(1,2) [OF L] M)
  have "reservationMode R s' t' rid = reservationMode R s t rid"
    using f' unfolding reservationMode_def no_faults_def Let_def by (simp add: g)
  then have "redis_Settle R s' t' rid a' = (Inr (?at 0 0), s')"
    using m g vs(3)
    by (simp add: redis_Settle_def bucketKeys_rkey run_script_no_fault [OF f'] lua_settle_def Let_def
        parseSettle_def reply_arr_def fld n rt fl lua_or0_def zero_Decision_def ms_dur_def unix_ms_def LimitTypeNone_def)
  with 1 show ?thesis by (intro exI [of _ "?at p q"] exI [of _ s'] conjI) (simp_all add: zero_Decision_def)
qed

theorem redis_settle_replay_witness:
  "\<exists>d s'. redis_Settle redis_map ex_checked 1700000000000000000 ''r'' 500 = (Inr d, s') \<and>
     redis_Settle redis_map s' 1700000060000000000 ''r'' 7 =
       (Inr (d\<lparr>ResetRPM := time_of_ms 0, ResetTPM := time_of_ms 0\<rparr>), s')"
  using redis_settle_replay [OF ex_checked_ok _ ex_checked_view, of 1700000060000000000 500 7] redis_map_no_faults by simp

section \<open>The data stays well formed\<close>

fun redis_op_ok :: "store_op \<Rightarrow> bool" where
  "redis_op_ok (DoCheck key limits cost rid) = redis_limits limits"
| "redis_op_ok (DoBorrow key limits spec) = redis_limits limits"
| "redis_op_ok (DoReturn key limits a b c d) = redis_limits limits"
| "redis_op_ok opn = True"

fun redis_run :: "'r RedisOps \<Rightarrow> (time \<times> store_op) list \<Rightarrow> 'r \<Rightarrow> 'r" where
  "redis_run R [] s = s"
| "redis_run R ((t, opn) # ops) s = redis_run R ops (redis_exec R opn t s)"

lemma redis_exec_ok: "redis_ok R H D s \<Longrightarrow> redis_op_ok opn \<Longrightarrow> redis_ok R H D (redis_exec R opn t s)"
  by (cases opn) (simp_all add: redis_Check_ok redis_Settle_ok redis_SettleIO_ok redis_Refund_ok redis_Borrow_ok redis_Return_ok)

text \<open>
  C20 (the data in Redis). Over any sequence of operations, at any instants (also with a clock that
  runs backwards) and whichever requests or replies are lost on the way, the amount that a
  script reads from a bucket for a limit below \<open>2 ^ 53\<close> is a double from zero to below \<open>2 ^ 53\<close>:
  no bucket in Redis goes below zero.
\<close>

theorem redis_invariant:
  assumes "redis_ok R H D s" and "\<forall>(t, opn) \<in> set ops. redis_op_ok opn" and "rlimit c"
  shows "amount (lua_refill R (redis_run R ops s) t (rkey ax key) (f64_of_int c))"
proof -
  have "redis_ok R H D (redis_run R ops s)"
    using assms(1,2)
  proof (induction ops arbitrary: s)
    case (Cons p ops)
    then show ?case using redis_exec_ok [of R H D s "snd p" "fst p"] by (cases p) auto
  qed simp
  then show ?thesis by (rule lua_refill_amount [OF _ amount_limit [OF assms(3)]])
qed

theorem redis_invariant_witness:
  "amount (lua_refill redis_map (redis_run redis_map
       [(1700000000000000000, DoCheck ex_rkey ex_rlimits ex_rcost ''r''), (1600000000000000000, DoSettle ''r'' 9000)] redis_empty)
     1700000000000000000 (rkey Tpm ex_rkey) (f64_of_int 1000))"
  by (rule redis_invariant [OF redis_empty_ok]) (simp_all add: redis_limits_def ex_rlimits_def rlimit_def)

section \<open>A limit of zero\<close>

text \<open>Both stores hold five requests and a hundred tokens for a key. When its limits are set to
  zero the in-memory store refuses a loan; the script does not cap the stored amounts to a
  capacity of zero and lends what is left.\<close>

definition ex_rich :: rmap where
  "ex_rich = lua_put redis_map 1700000000000000000 (rkey Tpm ex_rkey) 100
     (lua_put redis_map 1700000000000000000 (rkey Rpm ex_rkey) 5 redis_empty)"

definition ex_mrich :: Store where
  "ex_mrich = mem_New\<lparr>sRpm := [bucketKey ex_rkey \<mapsto> \<lparr>bsTokens = 5, bsLastMs = 1700000000000\<rparr>],
     sTpm := [bucketKey ex_rkey \<mapsto> \<lparr>bsTokens = 100, bsLastMs = 1700000000000\<rparr>]\<rparr>"

definition ex_rspec :: BorrowSpec where
  "ex_rspec = zero_BorrowSpec\<lparr>MinRPM := 1, MinTPM := 50, ChunkRPM := 10, ChunkTPM := 500\<rparr>"

lemma zero_limit_lends:
  "(case fst (redis_Borrow redis_map ex_rich 1700000060000000000 ex_rkey zero_Limits ex_rspec) of
      Inl e \<Rightarrow> False | Inr b \<Rightarrow> BrAllowed b \<and> GotRPM b = 5 \<and> GotTPM b = 100) \<and>
   \<not> lent (fst (mem_Borrow ex_mrich 1700000060000000000 ex_rkey zero_Limits ex_rspec))"
  by code_simp

end
