(* ===== verification/Redis_Rate.thy ===== *)
theory Redis_Rate
  imports Redis_Lifecycle
begin

text \<open>
  The rate limit the Redis store enforces. Every script writes some of the buckets of one key; what it
  writes is the refilled amount, less what it takes or plus what it gives back. That makes the store a
  metered resource: the interface \<open>metered\<close> is interpreted on its operations, as for the in-memory store.
\<close>

section \<open>Which buckets an operation writes\<close>

text \<open>A bucket key tells its axis.\<close>

lemma rkey_suffix: "take 4 (rev (rkey ax key)) = take 4 (rev (axis_suffix ax))"
  by (cases ax) (simp_all add: rkey_def)

lemma rkey_other: "rkey ax key = rkey ax' key' \<Longrightarrow> ax = ax'"
proof -
  assume "rkey ax key = rkey ax' key'"
  then have "take 4 (rev (axis_suffix ax)) = take 4 (rev (axis_suffix ax'))" using rkey_suffix by metis
  then show "ax = ax'" by (cases ax; cases ax') simp_all
qed

text \<open>At instant \<open>t\<close> the buckets of \<open>key\<close> on the axes in \<open>g\<close> got the given amounts; all other buckets are as
  before.\<close>

definition wrote :: "'r RedisOps \<Rightarrow> ('r \<Rightarrow> string \<Rightarrow> string \<rightharpoonup> string) \<Rightarrow> time \<Rightarrow> Key \<Rightarrow> (axis \<rightharpoonup> float64) \<Rightarrow>
    'r \<Rightarrow> 'r \<Rightarrow> bool" where
  "wrote R H t key g s s' \<longleftrightarrow> (\<forall>ax key'.
     case if rkey ax key' = rkey ax key then g ax else None of
       Some y \<Rightarrow> holds_tokens R (H s' (rkey ax key')) y t
     | None \<Rightarrow> H s' (rkey ax key') = H s (rkey ax key'))"

lemma wrote_nil: "wrote R H t key Map.empty s s"
  by (simp add: wrote_def)

lemma wrote_put:
  assumes "wrote R H t key g s s1" "redis_ok R H D s1" "amount x"
  shows "wrote R H t key (g(ax \<mapsto> x)) s (lua_put R t (rkey ax key) x s1)"
  unfolding wrote_def
proof (intro allI)
  fix ax' key'
  note p = put_holds [OF assms(2,3), where t = t and ax = ax and key = key]
  show "case if rkey ax' key' = rkey ax' key then (g(ax \<mapsto> x)) ax' else None of
      Some y \<Rightarrow> holds_tokens R (H (lua_put R t (rkey ax key) x s1) (rkey ax' key')) y t
    | None \<Rightarrow> H (lua_put R t (rkey ax key) x s1) (rkey ax' key') = H s (rkey ax' key')"
  proof (cases "rkey ax' key' = rkey ax key")
    case True
    then show ?thesis using p(1) rkey_other [OF True] by simp
  next
    case False
    then show ?thesis
      using assms(1) [unfolded wrote_def, rule_format, of ax' key'] p(3) [OF False] by (auto split: if_splits option.splits)
  qed
qed

lemma wrote_res:
  assumes "wrote R H t key g s s1" "redis_ok R H D s1" "fvs \<noteq> []" "distinct (map fst fvs)"
  shows "wrote R H t key g s (rExpire R (rHMSet R s1 t (reservationKey rid) fvs) t (reservationKey rid) n)"
proof -
  have e: "H (rExpire R (rHMSet R s1 t (reservationKey rid) fvs) t (reservationKey rid) n) (rkey ax key') = H s1 (rkey ax key')" for ax key'
    by (rule set_res_other [OF assms(2-4)]) simp
  show ?thesis using assms(1) unfolding wrote_def e .
qed

text \<open>The reservations are as before.\<close>

definition same_res :: "('r \<Rightarrow> string \<Rightarrow> string \<rightharpoonup> string) \<Rightarrow> ('r \<Rightarrow> string \<Rightarrow> int option) \<Rightarrow> 'r \<Rightarrow> 'r \<Rightarrow> bool" where
  "same_res H D s s' \<longleftrightarrow> D s' = D s \<and> (\<forall>rid. H s' (reservationKey rid) = H s (reservationKey rid))"

lemma same_res_put:
  assumes "same_res H D s s1" "redis_ok R H D s1" "amount x"
  shows "same_res H D s (lua_put R t (rkey ax key) x s1)"
proof -
  have "D (lua_put R t (rkey ax key) x s1) = D s1"
    using redis_lawsD(4) [OF redis_okD(1) [OF assms(2)], of "[(''tokens'', rNumText R x), (''last_ms'', rNumText R (lua_now t))]"]
      redis_okD(2) [OF assms(2), of ax key] by (simp add: lua_put_def rlive_def)
  then show ?thesis using assms put_holds(3) [OF assms(2,3)] by (simp add: same_res_def)
qed

lemma same_res_refl: "same_res H D s s"
  by (simp add: same_res_def)

text \<open>The amounts of the axes of a mode, and the ways the scripts write them.\<close>

definition on_active :: "bool \<Rightarrow> (axis \<Rightarrow> float64) \<Rightarrow> (axis \<rightharpoonup> float64)" where
  "on_active sp f = (\<lambda>ax. if active ax sp then Some (f ax) else None)"

lemma wrote_axes:
  fixes key :: Key and t :: time
  assumes ok: "redis_ok R H D s" and am: "\<forall>ax. active ax sp \<longrightarrow> amount (y ax)"
  defines "P \<equiv> \<lambda>ax. lua_put R t (rkey ax key) (y ax)"
  shows "\<not> sp \<Longrightarrow> wrote R H t key (on_active sp y) s (P Tpm (P Rpm s)) \<and> redis_ok R H D (P Tpm (P Rpm s)) \<and> same_res H D s (P Tpm (P Rpm s))"
    and "\<not> sp \<Longrightarrow> wrote R H t key (on_active sp y) s (P Rpm (P Tpm s)) \<and> redis_ok R H D (P Rpm (P Tpm s)) \<and> same_res H D s (P Rpm (P Tpm s))"
    and "sp \<Longrightarrow> wrote R H t key (on_active sp y) s (P Otpm (P Itpm (P Rpm s))) \<and> redis_ok R H D (P Otpm (P Itpm (P Rpm s))) \<and>
      same_res H D s (P Otpm (P Itpm (P Rpm s)))"
proof -
  have on: "on_active False y = [Rpm \<mapsto> y Rpm, Tpm \<mapsto> y Tpm]" "on_active False y = [Tpm \<mapsto> y Tpm, Rpm \<mapsto> y Rpm]"
    "on_active True y = [Rpm \<mapsto> y Rpm, Itpm \<mapsto> y Itpm, Otpm \<mapsto> y Otpm]"
    by (auto simp: on_active_def fun_eq_iff elim: active.elims)
  note w = wrote_put [where D = D and H = H] wrote_nil put_ok [where D = D] same_res_put [where R = R] same_res_refl ok conjI
  show "wrote R H t key (on_active sp y) s (P Tpm (P Rpm s)) \<and> redis_ok R H D (P Tpm (P Rpm s)) \<and> same_res H D s (P Tpm (P Rpm s))" if "\<not> sp"
    using that am unfolding P_def by (simp only: on(1)) (intro w am [rule_format]; simp)
  show "wrote R H t key (on_active sp y) s (P Rpm (P Tpm s)) \<and> redis_ok R H D (P Rpm (P Tpm s)) \<and> same_res H D s (P Rpm (P Tpm s))" if "\<not> sp"
    using that am unfolding P_def by (simp only: on(2)) (intro w am [rule_format]; simp)
  show "wrote R H t key (on_active sp y) s (P Otpm (P Itpm (P Rpm s))) \<and> redis_ok R H D (P Otpm (P Itpm (P Rpm s))) \<and>
      same_res H D s (P Otpm (P Itpm (P Rpm s)))" if "sp"
    using that am unfolding P_def by (simp only: on(3)) (intro w am [rule_format]; simp)
qed

section \<open>What is written\<close>

text \<open>From the refilled amount \<open>x\<close> of a bucket with capacity \<open>c\<close> to the new one, labelled with the amount
  drawn.\<close>

inductive drew :: "int64 \<Rightarrow> float64 \<Rightarrow> int \<Rightarrow> float64 \<Rightarrow> bool" for c x where
  drew_none: "drew c x 0 x"
| drew_take: "0 \<le> n \<Longrightarrow> of_int n \<le> x \<Longrightarrow> drew c x n (f64_sub x (of_int n))"
| drew_give: "0 \<le> n \<Longrightarrow> drew c x (- n) (min (of_int c) (f64_add x (of_int n)))"

lemma drew_bounds:
  assumes "drew c x d y" and x: "amount x" "x \<le> of_int c" and c: "0 < c" "rlimit c"
  shows "amount y" "y \<le> of_int c" "of_int d \<le> x - y + of_int c / 2 ^ 51"
proof -
  have x0: "0 \<le> x" using amountD(2) [OF x(1)] .
  have c1: "1 \<le> (of_int c :: rat)" using c by simp
  have s: "of_int c / 2 ^ 52 \<le> (of_int c / 2 ^ 51 :: rat)" "0 \<le> (of_int c / 2 ^ 51 :: rat)" using c by simp_all
  have "amount y \<and> y \<le> of_int c \<and> of_int d \<le> x - y + of_int c / 2 ^ 51"
    using assms(1)
  proof cases
    case drew_none
    then show ?thesis using x s by simp
  next
    case drew_take
    have d0: "0 \<le> (of_int d :: rat)" using drew_take by simp
    have am: "amount y" using amount_debit [OF x(1) d0] drew_take by simp
    have ab: "\<bar>x - of_int d\<bar> \<le> of_int c + 0" using drew_take d0 x(2) by linarith
    have r: "rnd64 (x - of_int d) \<le> x - of_int d + of_int c / 2 ^ 52" using rnd64_slack [OF ab c(1)] by simp
    have "f64_sub x (of_int d) \<le> x"
      using f64.rnd_upper [of "x - of_int d" x] amountD(1) [OF x(1)] d0 by (simp add: f64_sub_def)
    then show ?thesis using am r s x(2) drew_take by (simp add: f64_sub_def)
  next
    case (drew_give n)
    have n0: "0 \<le> (of_int n :: rat)" using drew_give by simp
    have am: "amount y" using amount_credit [OF amount_of_int [OF c(2)] x(1) n0] drew_give by simp
    have "y \<le> x + of_int n + of_int c / 2 ^ 51"
    proof (cases "x + of_int n \<le> of_int c + of_int c")
      case True
      then have ab: "\<bar>x + of_int n\<bar> \<le> of_int c + of_int c" using x0 n0 by simp
      have "rnd64 (x + of_int n) \<le> x + of_int n + of_int c / 2 ^ 52 + of_int c / 2 ^ 53"
        using rnd64_slack [OF ab c(1)] c1 by simp
      also have "\<dots> \<le> x + of_int n + of_int c / 2 ^ 51" using c1 by simp
      finally show ?thesis using drew_give by (simp add: f64_add_def min_le_iff_disj)
    next
      case False
      have "y \<le> of_int c" using drew_give by simp
      then show ?thesis using False c1 s by linarith
    qed
    then show ?thesis using am drew_give by simp
  qed
  then show "amount y" "y \<le> of_int c" "of_int d \<le> x - y + of_int c / 2 ^ 51" by blast+
qed

lemma clamp_exact:
  assumes "lua_clamp (f64_of_int n) < 2 ^ 53"
  shows "lua_clamp (f64_of_int n) = of_int (max 0 n)"
proof (rule clamp_max, rule ccontr)
  assume "\<not> n \<le> 2 ^ 53"
  then have "f64_of_int (2 ^ 53) \<le> f64_of_int n" by (intro f64_of_int_mono) simp
  then show False using assms by (simp add: f64_of_int_exact lua_clamp_def split: if_splits)
qed

lemma rcost_int:
  assumes c: "rlimit c" and le: "rcost cost ax \<le> of_int c"
  shows "rcost cost ax = of_int (max 0 (axis_cost ax cost))" and "max 0 (axis_cost ax cost) \<le> 2 ^ 53"
proof -
  have lt: "rcost cost ax < 2 ^ 53" using le amountD(3) [OF amount_of_int [OF c]] by linarith
  then show e: "rcost cost ax = of_int (max 0 (axis_cost ax cost))" unfolding rcost_def by (rule clamp_exact)
  have "of_int (max 0 (axis_cost ax cost)) < (of_int (2 ^ 53) :: rat)" using lt e by simp
  then show "max 0 (axis_cost ax cost) \<le> 2 ^ 53" by (simp only: of_int_less_iff)
qed

text \<open>A settlement.\<close>

lemma apply_delta_drew:
  fixes c :: int64
  assumes x: "amount x" and n: "0 \<le> n" "n \<le> 2 ^ 53" and a: "0 \<le> a" "a \<le> 2 ^ 53"
  defines "p \<equiv> lua_apply_delta x (of_int c) (of_int n) (of_int a)"
  shows "\<exists>o'. snd p = of_int o' \<and> 0 \<le> o' \<and> o' \<le> 2 ^ 53 \<and> drew c x (a - n - o') (fst p)"
proof -
  have sub: "f64_sub (of_int n) (of_int a) = of_int (n - a)"
    using n a rnd64_of_int [of "n - a"] by (simp add: f64_sub_def)
  have fl: "f64_floor x = of_int \<lfloor>x\<rfloor>" "rlimit \<lfloor>x\<rfloor>" "of_int \<lfloor>x\<rfloor> \<le> x"
    using floor_rlimit [OF x] by (simp_all add: f64_floor_def)
  consider "a < n" | "a = n" | "n < a" "a - n \<le> \<lfloor>x\<rfloor>" | "n < a" "\<lfloor>x\<rfloor> < a - n" by linarith
  then show ?thesis
  proof cases
    case 1
    then show ?thesis using drew_give [of "n - a" c x] by (intro exI [of _ 0]) (simp add: p_def lua_apply_delta_def Let_def sub)
  next
    case 2
    then have "f64_sub (of_int n) (of_int n) = 0" using sub by simp
    then show ?thesis using 2 drew_none by (intro exI [of _ 0]) (simp add: p_def lua_apply_delta_def)
  next
    case 3
    have "of_int (a - n) \<le> x" using 3 by (simp add: le_floor_iff)
    moreover have "of_int (a - n) \<le> (of_int \<lfloor>x\<rfloor> :: rat)" using 3 by (simp only: of_int_le_iff)
    ultimately show ?thesis
      using 3 drew_take [of "a - n" x c] by (intro exI [of _ 0]) (simp add: p_def lua_apply_delta_def Let_def sub fl(1))
  next
    case 4
    have "\<bar>a - n - \<lfloor>x\<rfloor>\<bar> \<le> 2 ^ 53" using 4 n a fl(2) unfolding rlimit_def by linarith
    from rnd64_of_int [OF this] have o: "f64_sub (of_int (a - n)) (of_int \<lfloor>x\<rfloor>) = of_int (a - n - \<lfloor>x\<rfloor>)"
      by (simp add: f64_sub_def)
    have nn: "\<not> f64_sub x (of_int \<lfloor>x\<rfloor>) < 0" using amountD(2) [OF amount_debit [OF x _ fl(3)]] fl(2) by (simp add: rlimit_def not_less)
    have "\<not> of_int (a - n) \<le> (of_int \<lfloor>x\<rfloor> :: rat)" using 4 by (simp only: of_int_le_iff not_le)
    moreover have "a - n - \<lfloor>x\<rfloor> \<le> 2 ^ 53" using n a fl(2) unfolding rlimit_def by linarith
    ultimately show ?thesis
      using 4 n a fl(2) drew_take [of "\<lfloor>x\<rfloor>" x c] o nn
      by (intro exI [of _ "a - n - \<lfloor>x\<rfloor>"]) (simp add: p_def lua_apply_delta_def Let_def sub fl rlimit_def)
  qed
qed

section \<open>What an operation draws\<close>

text \<open>Who holds a reservation, and how much of an axis.\<close>

definition res_holder :: "(string \<rightharpoonup> string) \<Rightarrow> Key" where
  "res_holder m = \<lparr>Subject = (case m ''subject'' of None \<Rightarrow> '''' | Some x \<Rightarrow> x),
     Model = (case m ''model'' of None \<Rightarrow> '''' | Some x \<Rightarrow> x)\<rparr>"

definition res_reserved :: "'r RedisOps \<Rightarrow> (string \<rightharpoonup> string) \<Rightarrow> axis \<Rightarrow> int" where
  "res_reserved R m ax = (case hash_num R m (reserved_field ax) of None \<Rightarrow> 0 | Some x \<Rightarrow> \<lfloor>x\<rfloor>)"

text \<open>The key an operation works on, if it changes buckets at all, and the mode it works in.\<close>

fun redis_key :: "('r \<Rightarrow> string \<Rightarrow> string \<rightharpoonup> string) \<Rightarrow> ('r \<Rightarrow> string \<Rightarrow> int option) \<Rightarrow> 'r \<Rightarrow> time \<Rightarrow> store_op \<Rightarrow>
    (Key \<times> bool) option" where
  "redis_key H D s t (DoCheck key limits cost rid) = Some (key, Split limits)"
| "redis_key H D s t (DoSettle rid a) =
     (if redis_view H D s t rid = Some (Pending, False) then Some (res_holder (rfields H D s t (reservationKey rid)), False) else None)"
| "redis_key H D s t (DoSettleIO rid a b) =
     (if redis_view H D s t rid = Some (Pending, True) then Some (res_holder (rfields H D s t (reservationKey rid)), True) else None)"
| "redis_key H D s t (DoRefund rid) =
     (case redis_view H D s t rid of
        Some (Pending, sp) \<Rightarrow> Some (res_holder (rfields H D s t (reservationKey rid)), sp)
      | _ \<Rightarrow> None)"
| "redis_key H D s t (DoBorrow key limits spec) = Some (key, Split limits)"
| "redis_key H D s t (DoReturn key limits a b c d) = Some (key, Split limits)"

text \<open>What the caller of an operation is charged on an axis, read off the answers as for the in-memory store.\<close>

fun redis_draw :: "'r RedisOps \<Rightarrow> ('r \<Rightarrow> string \<Rightarrow> string \<rightharpoonup> string) \<Rightarrow> ('r \<Rightarrow> string \<Rightarrow> int option) \<Rightarrow>
    axis \<Rightarrow> 'r \<Rightarrow> time \<Rightarrow> store_op \<Rightarrow> int" where
  "redis_draw R H D ax s t (DoCheck key limits cost rid) =
     (if granted (fst (redis_Check R s t key limits cost rid)) then max 0 (axis_cost ax cost) else 0)"
| "redis_draw R H D ax s t (DoSettle rid a) =
     (case fst (redis_Settle R s t rid a) of
        Inr d \<Rightarrow> if ax = Tpm then max 0 a - res_reserved R (rfields H D s t (reservationKey rid)) ax - OvershootTPM d else 0
      | Inl _ \<Rightarrow> 0)"
| "redis_draw R H D ax s t (DoSettleIO rid a b) =
     (case fst (redis_SettleIO R s t rid a b) of
        Inr d \<Rightarrow>
          if ax = Itpm then max 0 a - res_reserved R (rfields H D s t (reservationKey rid)) ax - OvershootITPM d
          else if ax = Otpm then max 0 b - res_reserved R (rfields H D s t (reservationKey rid)) ax - OvershootOTPM d
          else 0
      | Inl _ \<Rightarrow> 0)"
| "redis_draw R H D ax s t (DoRefund rid) = - res_reserved R (rfields H D s t (reservationKey rid)) ax"
| "redis_draw R H D ax s t (DoBorrow key limits spec) =
     (case fst (redis_Borrow R s t key limits spec) of Inr b \<Rightarrow> axis_got ax b | Inl _ \<Rightarrow> 0)"
| "redis_draw R H D ax s t (DoReturn key limits a b c d) =
     (if fst (redis_Return R s t key limits a b c d) = None then - max 0 (axis_pick ax a b c d) else 0)"

text \<open>The draw on one bucket.\<close>

definition redis_draw_on :: "'r RedisOps \<Rightarrow> ('r \<Rightarrow> string \<Rightarrow> string \<rightharpoonup> string) \<Rightarrow> ('r \<Rightarrow> string \<Rightarrow> int option) \<Rightarrow>
    axis \<Rightarrow> string \<Rightarrow> 'r \<Rightarrow> time \<Rightarrow> store_op \<Rightarrow> int" where
  "redis_draw_on R H D ax k s t opn =
     (case redis_key H D s t opn of
        Some (key, sp) \<Rightarrow> if rkey ax key = k \<and> active ax sp then redis_draw R H D ax s t opn else 0
      | None \<Rightarrow> 0)"

text \<open>Amounts in range, and the bucket \<open>k\<close> always used with the capacity \<open>c\<close>.\<close>

fun redis_uses :: "axis \<Rightarrow> string \<Rightarrow> int64 \<Rightarrow> store_op \<Rightarrow> bool" where
  "redis_uses ax k c (DoCheck key limits cost rid) =
     (redis_limits limits \<and> (rkey ax key = k \<and> active ax (Split limits) \<longrightarrow> axis_limit ax limits = c))"
| "redis_uses ax k c (DoSettle rid a) = (a \<le> 2 ^ 53)"
| "redis_uses ax k c (DoSettleIO rid a b) = (a \<le> 2 ^ 53 \<and> b \<le> 2 ^ 53)"
| "redis_uses ax k c (DoRefund rid) = True"
| "redis_uses ax k c (DoBorrow key limits spec) =
     (redis_limits limits \<and> (rkey ax key = k \<and> active ax (Split limits) \<longrightarrow> axis_limit ax limits = c))"
| "redis_uses ax k c (DoReturn key limits a b d e) =
     (redis_limits limits \<and> a \<le> 2 ^ 53 \<and> b \<le> 2 ^ 53 \<and> d \<le> 2 ^ 53 \<and> e \<le> 2 ^ 53 \<and>
      (rkey ax key = k \<and> active ax (Split limits) \<longrightarrow> axis_limit ax limits = c))"

text \<open>A reservation on the bucket \<open>k\<close> was made with the capacity \<open>c\<close> and holds a whole amount.\<close>

definition res_metered :: "'r RedisOps \<Rightarrow> axis \<Rightarrow> string \<Rightarrow> int64 \<Rightarrow> (string \<rightharpoonup> string) \<Rightarrow> bool" where
  "res_metered R ax k c m \<longleftrightarrow> (m \<noteq> Map.empty \<and> rkey ax (res_holder m) = k \<and> active ax (m ''mode'' = Some ''split'') \<longrightarrow>
     hash_num R m (limit_field ax) = Some (of_int c) \<and>
     (\<exists>n. 0 \<le> n \<and> n \<le> 2 ^ 53 \<and> hash_num R m (reserved_field ax) = Some (of_int n)))"

section \<open>The operations, one bucket at a time\<close>

text \<open>The effect of an operation on bucket \<open>k\<close> of an axis: none, or the refilled amount is replaced by one from
  which \<open>d\<close> was drawn.\<close>

definition bucket_eff :: "'r RedisOps \<Rightarrow> ('r \<Rightarrow> string \<Rightarrow> string \<rightharpoonup> string) \<Rightarrow> string \<Rightarrow> int64 \<Rightarrow> time \<Rightarrow> int \<Rightarrow> 'r \<Rightarrow> 'r \<Rightarrow> bool" where
  "bucket_eff R H k c t d s s' \<longleftrightarrow> H s' k = H s k \<and> d = 0 \<or>
     (\<exists>y. drew c (lua_refill R s t k (of_int c)) d y \<and> holds_tokens R (H s' k) y t)"

lemma wrote_eff:
  assumes w: "wrote R H t key (on_active sp g) s s'" and k: "k = rkey ax key'"
    and d: "k = rkey ax key \<Longrightarrow> active ax sp \<Longrightarrow> drew c (lua_refill R s t k (of_int c)) d (g ax)"
    and z: "\<not> (k = rkey ax key \<and> active ax sp) \<Longrightarrow> d = 0"
  shows "bucket_eff R H k c t d s s'"
  using w [unfolded wrote_def on_active_def, rule_format, of ax key'] d z unfolding bucket_eff_def k
  by (auto split: if_splits)

lemma bucket_eff_same: "bucket_eff R H k c t 0 s s"
  by (simp add: bucket_eff_def)

lemma redis_check_eff:
  assumes ok: "redis_ok R H D s" and f: "no_faults R s t" and k: "k = rkey ax key'"
    and op: "redis_uses ax k c (DoCheck key limits cost rid)"
  shows "bucket_eff R H k c t (redis_draw_on R H D ax k s t (DoCheck key limits cost rid)) s
    (snd (redis_Check R s t key limits cost rid))"
proof (cases "granted (fst (redis_Check R s t key limits cost rid))")
  case False
  then show ?thesis using redis_Check_refused_state [OF f False] by (simp add: redis_draw_on_def bucket_eff_same)
next
  case g: True
  have l: "redis_limits limits" using op by simp
  note v = redis_Check_valid [OF g]
  note cov = g [unfolded redis_Check_granted_iff [OF f v], rule_format]
  have am: "\<forall>ax. active ax (Split limits) \<longrightarrow> amount (left_over R s t key limits cost ax)"
    using amount_debit [OF lua_refill_amount [OF ok amount_limit [OF redis_limitsD [OF l]]]] cov
    by (simp add: left_over_def rtok_def rcost_def)
  let ?y = "left_over R s t key limits cost"
  note W = wrote_axes [OF ok am, of t key]
  have w: "wrote R H t key (on_active (Split limits) ?y) s (snd (redis_Check R s t key limits cost rid))"
    by (rule redis_Check_granted_state [OF f g]) (use W in \<open>cases "Split limits"; auto intro: wrote_res\<close>)
  have n: "drew c (lua_refill R s t k (of_int c)) (max 0 (axis_cost ax cost)) (left_over R s t key limits cost ax)"
    if "k = rkey ax key" "active ax (Split limits)"
  proof -
    have c: "axis_limit ax limits = c" "rlimit c" using op that redis_limitsD [OF l, of ax] by auto
    note cv = cov [OF that(2)]
    have "rcost cost ax \<le> of_int c" using cv c by (simp add: rlimit_cap)
    note rc = rcost_int(1) [OF c(2) this]
    show ?thesis
      using drew_take [of "max 0 (axis_cost ax cost)" "lua_refill R s t k (of_int c)" c] cv
      by (simp add: left_over_def rc rtok_def c rlimit_cap that(1) [symmetric])
  qed
  show ?thesis
    by (rule wrote_eff [OF w k]) (use n g in \<open>auto simp: redis_draw_on_def\<close>)
qed

lemma redis_return_eff:
  assumes ok: "redis_ok R H D s" and f: "no_faults R s t" and k: "k = rkey ax key'"
    and op: "redis_uses ax k c (DoReturn key limits n1 n2 n3 n4)"
  shows "bucket_eff R H k c t (redis_draw_on R H D ax k s t (DoReturn key limits n1 n2 n3 n4)) s
    (snd (redis_Return R s t key limits n1 n2 n3 n4))"
proof -
  let ?r = "redis_Return R s t key limits n1 n2 n3 n4" and ?sp = "Split limits"
  let ?n = "\<lambda>ax. max 0 (axis_pick ax n1 n2 n3 n4)"
  let ?y = "\<lambda>ax. min (f64_of_int (axis_limit ax limits)) (f64_add (rtok R s t key limits ax) (of_int (?n ax)))"
  have l: "redis_limits limits" and b: "n1 \<le> 2 ^ 53" "n2 \<le> 2 ^ 53" "n3 \<le> 2 ^ 53" "n4 \<le> 2 ^ 53" using op by simp_all
  have am: "\<forall>ax. active ax ?sp \<longrightarrow> amount (?y ax)"
    unfolding rtok_def
    by (intro allI impI amount_credit amount_limit lua_refill_amount [OF ok] redis_limitsD [OF l]) simp
  have cl: "lua_clamp (f64_of_int n1) = of_int (?n Rpm)" "lua_clamp (f64_of_int n2) = of_int (?n Tpm)"
    "lua_clamp (f64_of_int n3) = of_int (?n Itpm)" "lua_clamp (f64_of_int n4) = of_int (?n Otpm)"
    using b by (simp_all add: clamp_max)
  note W = wrote_axes [OF ok am, of t key]
  have "wrote R H t key (on_active ?sp ?y) s (snd ?r) \<and> fst ?r = None \<or>
      snd ?r = s \<and> (fst ?r \<noteq> None \<or> (active ax ?sp \<longrightarrow> ?n ax = 0))"
    using W unfolding redis_Return_def bucketKeys_rkey bucketKeysIO_rkey lua_return_def lua_return_io_def Let_def cl
    by (cases ?sp; cases ax) (auto simp: run_script_no_fault [OF f] rtok_def)
  then show ?thesis
  proof (elim disjE conjE)
    assume w: "wrote R H t key (on_active ?sp ?y) s (snd ?r)" and "fst ?r = None"
    then show ?thesis
      using op redis_limitsD [OF l, of ax] drew_give [of "?n ax" c "lua_refill R s t k (of_int c)"]
      by (intro wrote_eff [OF w k]) (auto simp: redis_draw_on_def rtok_def rlimit_cap)
  qed (auto simp: redis_draw_on_def bucket_eff_same)
qed

text \<open>A loan is a whole amount that the bucket covers.\<close>

lemma loan_int:
  fixes n m :: int64
  assumes x: "amount x"
  defines "g \<equiv> loan x (lua_clamp (f64_of_int n)) (lua_clamp (f64_of_int m))"
  shows "g = of_int (i64_of_f64 g) \<and> 0 \<le> i64_of_f64 g \<and> g \<le> x"
proof -
  note l = loan_amount [OF x clamp_nonneg(1), of "f64_of_int n" "lua_clamp (f64_of_int m)", folded g_def]
  have "\<exists>z. g = of_int z"
  proof (cases "g = f64_floor x")
    case False
    then have "g = max (lua_clamp (f64_of_int n)) (lua_clamp (f64_of_int m))" by (auto simp: g_def loan_def min_def)
    then show ?thesis using clamp_exact l(2) by (metis max_def)
  qed (simp add: f64_floor_def)
  then obtain z where z: "g = of_int z" ..
  have "0 \<le> z" "z < 2 ^ 53" using l(2,3) unfolding z by simp_all
  then have "i64_of_f64 g = z" by (simp add: z i64_of_f64_of_int in64_def)
  moreover have "g \<le> x" unfolding g_def loan_def f64_floor_def by (simp add: min_le_iff_disj)
  ultimately show ?thesis using \<open>0 \<le> z\<close> z by simp
qed

lemma redis_borrow_eff:
  assumes ok: "redis_ok R H D s" and f: "no_faults R s t" and k: "k = rkey ax key'"
    and op: "redis_uses ax k c (DoBorrow key limits spec)"
  shows "bucket_eff R H k c t (redis_draw_on R H D ax k s t (DoBorrow key limits spec)) s
    (snd (redis_Borrow R s t key limits spec))"
proof -
  let ?r = "redis_Borrow R s t key limits spec" and ?sp = "Split limits" and ?x = "rtok R s t key limits"
  let ?g = "\<lambda>ax. loan (?x ax) (lua_clamp (f64_of_int (axis_min ax spec))) (lua_clamp (f64_of_int (axis_chunk ax spec)))"
  let ?y = "\<lambda>ax. f64_sub (?x ax) (?g ax)" and ?d = "redis_draw R H D ax s t (DoBorrow key limits spec)"
  have l: "redis_limits limits" using op by simp
  have x: "amount (?x ax)" for ax unfolding rtok_def by (intro lua_refill_amount [OF ok] amount_limit redis_limitsD [OF l])
  have "\<forall>ax. active ax ?sp \<longrightarrow> amount (?y ax)" using loan_amount(1) [OF x clamp_nonneg(1)] by blast
  note W = wrote_axes [OF ok this, of t key]
  have "wrote R H t key (on_active ?sp ?y) s (snd ?r) \<and> (active ax ?sp \<longrightarrow> ?d = i64_of_f64 (?g ax)) \<or> snd ?r = s \<and> ?d = 0"
    using W unfolding redis_draw.simps redis_Borrow_def bucketKeys_rkey bucketKeysIO_rkey lua_borrow_def lua_borrow_io_def Let_def
      lua_remaining_def want_got_loan loan_def [symmetric]
    by (cases ax) (auto simp: run_script_no_fault [OF f] rtok_def parseBorrow_def parseBorrowIO_def reply_arr_def
        zero_BorrowResult_def split: option.splits)
  then show ?thesis
  proof (elim disjE conjE)
    assume w: "wrote R H t key (on_active ?sp ?y) s (snd ?r)" and d: "active ax ?sp \<longrightarrow> ?d = i64_of_f64 (?g ax)"
    note g = loan_int [OF x, of ax "axis_min ax spec" "axis_chunk ax spec"]
    show ?thesis
      using op redis_limitsD [OF l, of ax] drew_take [of "i64_of_f64 (?g ax)" "lua_refill R s t k (of_int c)" c] g d
      by (intro wrote_eff [OF w k]) (auto simp: redis_draw_on_def rtok_def rlimit_cap)
  qed (auto simp: redis_draw_on_def bucket_eff_same)
qed

lemma loan_same_res:
  assumes ok: "redis_ok R H D s" and f: "no_faults R s t"
  shows "redis_uses ax k c (DoBorrow key limits spec) \<Longrightarrow> same_res H D s (snd (redis_Borrow R s t key limits spec))"
    and "redis_uses ax k c (DoReturn key limits n1 n2 n3 n4) \<Longrightarrow> same_res H D s (snd (redis_Return R s t key limits n1 n2 n3 n4))"
proof -
  have x: "redis_limits limits \<Longrightarrow> amount (lua_refill R s t (rkey ax key) (f64_of_int (axis_limit ax limits)))" for ax
    by (intro lua_refill_amount [OF ok] amount_limit redis_limitsD)
  note x' = x [of Rpm, simplified] x [of Tpm, simplified] x [of Itpm, simplified] x [of Otpm, simplified]
  note w = same_res_put [where R = R] same_res_refl put_ok ok amount_credit loan_amount(1) amount_limit
  show "same_res H D s (snd (redis_Borrow R s t key limits spec))" if "redis_uses ax k c (DoBorrow key limits spec)"
    using that x' unfolding redis_Borrow_def bucketKeys_rkey bucketKeysIO_rkey lua_borrow_def lua_borrow_io_def Let_def
      lua_remaining_def want_got_loan loan_def [symmetric]
    by (auto simp: case_prod_beta snd_run_script [OF f] intro!: w split: option.splits)
  show "same_res H D s (snd (redis_Return R s t key limits n1 n2 n3 n4))" if "redis_uses ax k c (DoReturn key limits n1 n2 n3 n4)"
    using that x' redis_limitsD [of limits Rpm] redis_limitsD [of limits Tpm] redis_limitsD [of limits Itpm] redis_limitsD [of limits Otpm]
    unfolding redis_Return_def bucketKeys_rkey bucketKeysIO_rkey lua_return_def lua_return_io_def Let_def
    by (auto simp: case_prod_beta snd_run_script [OF f] intro!: w)
qed

section \<open>Finishing a reservation\<close>

text \<open>The fields that say what a reservation was made with.\<close>

definition res_names :: "string set" where
  "res_names = {''subject'', ''model'', ''mode''} \<union> limit_field ` {Rpm, Tpm, Itpm, Otpm} \<union> reserved_field ` {Rpm, Tpm, Itpm, Otpm}"

lemma res_names_fields: "limit_field ax \<in> res_names" "reserved_field ax \<in> res_names"
  by (cases ax; simp add: res_names_def)+

text \<open>A reservation was finished: other fields were written to it.\<close>

definition finished_by :: "'r RedisOps \<Rightarrow> time \<Rightarrow> string \<Rightarrow> 'r \<Rightarrow> 'r \<Rightarrow> bool" where
  "finished_by R t rid s s' \<longleftrightarrow> (\<exists>fvs. s' = rExpire R (rHMSet R s t (reservationKey rid) fvs) t (reservationKey rid) ttl_seconds \<and>
     fvs \<noteq> [] \<and> distinct (map fst fvs) \<and> set (map fst fvs) \<inter> res_names = {})"

lemma finished_byI:
  "fvs \<noteq> [] \<Longrightarrow> distinct (map fst fvs) \<Longrightarrow> set (map fst fvs) \<inter> res_names = {} \<Longrightarrow>
     finished_by R t rid s (rExpire R (rHMSet R s t (reservationKey rid) fvs) t (reservationKey rid) ttl_seconds)"
  by (auto simp: finished_by_def)

lemma finished_wrote:
  "wrote R H t key g s s1 \<Longrightarrow> redis_ok R H D s1 \<Longrightarrow> finished_by R t rid s1 s' \<Longrightarrow> wrote R H t key g s s'"
  by (auto simp: finished_by_def intro: wrote_res)

lemma mode_holder:
  assumes ok: "redis_ok R H D s" and f: "no_faults R s t" and v: "redis_view H D s t rid = Some (st, sp)"
  shows "reservationMode R s t rid =
    Inr (if sp then ''split'' else ''classic'', res_holder (rfields H D s t (reservationKey rid)))"
proof -
  note L = redis_lawsD [OF redis_okD(1) [OF ok]]
  obtain key where "reservationMode R s t rid = Inr (if sp then ''split'' else ''classic'', key)"
    using mode_present [OF ok f v] by auto
  moreover have "reservationMode R s t rid = Inr (x, key) \<Longrightarrow> key = res_holder (rfields H D s t (reservationKey rid))" for x key
    using f by (auto simp: reservationMode_def no_faults_def Let_def L(1) res_holder_def split: if_splits)
  ultimately show ?thesis by blast
qed

lemma field_num:
  assumes "redis_ok R H D s"
  shows "lua_field R s t (reservationKey rid) g = hash_num R (rfields H D s t (reservationKey rid)) g"
  by (simp add: lua_field_def hash_num_def redis_lawsD(1) [OF redis_okD(1) [OF assms]])

text \<open>A reservation that is not pending, or of the other mode, is not touched.\<close>

lemma finish_idle:
  assumes ok: "redis_ok R H D s" and f: "no_faults R s t"
  shows "redis_view H D s t rid \<noteq> Some (Pending, False) \<Longrightarrow> snd (redis_Settle R s t rid a) = s"
    and "redis_view H D s t rid \<noteq> Some (Pending, True) \<Longrightarrow> snd (redis_SettleIO R s t rid a b) = s"
    and "(\<And>sp. redis_view H D s t rid \<noteq> Some (Pending, sp)) \<Longrightarrow> snd (redis_Refund R s t rid) = s"
proof -
  have "(redis_view H D s t rid \<noteq> Some (Pending, False) \<longrightarrow> snd (redis_Settle R s t rid a) = s) \<and>
    (redis_view H D s t rid \<noteq> Some (Pending, True) \<longrightarrow> snd (redis_SettleIO R s t rid a b) = s) \<and>
    ((\<forall>sp. redis_view H D s t rid \<noteq> Some (Pending, sp)) \<longrightarrow> snd (redis_Refund R s t rid) = s)"
  proof (cases "redis_view H D s t rid")
    case None
    then show ?thesis
      using mode_absent [OF redis_okD(1) [OF ok] f None] by (simp add: redis_Settle_def redis_SettleIO_def redis_Refund_def)
  next
    case (Some p)
    then obtain st sp where v: "redis_view H D s t rid = Some (st, sp)" by (cases p) auto
    note m = mode_holder [OF ok f v] and vs = view_status [OF ok v]
    have "snd (redis_Settle R s t rid a) = s" if "st \<noteq> Pending \<or> sp"
      using that m vs by (cases st) (auto simp: redis_Settle_def bucketKeys_rkey case_prod_beta snd_run_script [OF f] lua_settle_def Let_def)
    moreover have "snd (redis_SettleIO R s t rid a b) = s" if "st \<noteq> Pending \<or> \<not> sp"
      using that m vs by (cases st) (auto simp: redis_SettleIO_def bucketKeysIO_rkey case_prod_beta snd_run_script [OF f] lua_settle_io_def Let_def)
    moreover have "snd (redis_Refund R s t rid) = s" if "st \<noteq> Pending"
      using that m vs by (cases st) (auto simp: redis_Refund_def bucketKeys_rkey bucketKeysIO_rkey case_prod_beta
          snd_run_script [OF f] lua_refund_def lua_refund_io_def Let_def)
    ultimately show ?thesis using v by auto
  qed
  then show "redis_view H D s t rid \<noteq> Some (Pending, False) \<Longrightarrow> snd (redis_Settle R s t rid a) = s"
    "redis_view H D s t rid \<noteq> Some (Pending, True) \<Longrightarrow> snd (redis_SettleIO R s t rid a b) = s"
    "(\<And>sp. redis_view H D s t rid \<noteq> Some (Pending, sp)) \<Longrightarrow> snd (redis_Refund R s t rid) = s" by blast+
qed

text \<open>The numbers the scripts read from a reservation.\<close>

definition res_reads :: "'r RedisOps \<Rightarrow> 'r \<Rightarrow> time \<Rightarrow> string \<Rightarrow> bool \<Rightarrow> (axis \<Rightarrow> float64) \<Rightarrow> (axis \<Rightarrow> float64) \<Rightarrow> bool" where
  "res_reads R s t rid sp l n \<longleftrightarrow> rExists R s t (reservationKey rid) \<and> (\<forall>ax. active ax sp \<longrightarrow>
     lua_field R s t (reservationKey rid) (limit_field ax) = Some (l ax) \<and> amount (l ax) \<and>
     lua_field R s t (reservationKey rid) (reserved_field ax) = Some (n ax) \<and> 0 \<le> n ax)"

lemma res_reads_exist:
  assumes ok: "redis_ok R H D s" and v: "redis_view H D s t rid = Some (st, sp)"
  obtains l n where "res_reads R s t rid sp l n"
proof -
  let ?m = "rfields H D s t (reservationKey rid)" and ?f = "lua_field R s t (reservationKey rid)"
  have ne: "?m \<noteq> Map.empty" and sp: "sp \<longleftrightarrow> ?m ''mode'' = Some ''split''"
    using v by (auto simp: redis_view_def view_of_def split: if_splits)
  have sh: "res_shape ?m" using ne redis_okD(6) [OF ok, of t rid] by (simp add: res_wf_def)
  have fs: "limit_field ax \<in> limit_fields" "reserved_field ax \<in> cost_fields" for ax
    by (cases ax; simp add: limit_fields_def cost_fields_def)+
  have "\<exists>l n. ?f (limit_field ax) = Some l \<and> ?f (reserved_field ax) = Some n" if "active ax sp" for ax
  proof -
    have "limit_field ax \<in> dom ?m \<and> reserved_field ax \<in> dom ?m"
      using sh that unfolding res_shape_def sp by (cases ax) auto
    then show ?thesis using field_present [OF ok] fs by blast
  qed
  then have "res_reads R s t rid sp (\<lambda>ax. the (?f (limit_field ax))) (\<lambda>ax. the (?f (reserved_field ax)))"
    using res_num [OF ok] fs ne by (fastforce simp: res_reads_def redis_lawsD(2) [OF redis_okD(1) [OF ok]])
  then show thesis by (rule that)
qed

lemma res_readsD:
  assumes "res_reads R s t rid sp l n"
  shows "rExists R s t (reservationKey rid)"
    and "active ax sp \<Longrightarrow> lua_field R s t (reservationKey rid) (limit_field ax) = Some (l ax)" "active ax sp \<Longrightarrow> amount (l ax)"
    and "active ax sp \<Longrightarrow> lua_field R s t (reservationKey rid) (reserved_field ax) = Some (n ax)" "active ax sp \<Longrightarrow> 0 \<le> n ax"
  using assms by (auto simp: res_reads_def)

lemma res_reads_classic:
  assumes "res_reads R s t rid sp l n" "\<not> sp"
  shows "lua_field R s t (reservationKey rid) ''limit_rpm'' = Some (l Rpm)" "lua_field R s t (reservationKey rid) ''rpm_cost'' = Some (n Rpm)"
    "lua_field R s t (reservationKey rid) ''limit_tpm'' = Some (l Tpm)" "lua_field R s t (reservationKey rid) ''tpm_reserved'' = Some (n Tpm)"
  using res_readsD(2,4) [OF assms(1), of Rpm] res_readsD(2,4) [OF assms(1), of Tpm] assms(2) by simp_all

lemma res_reads_split:
  assumes "res_reads R s t rid sp l n" "sp"
  shows "lua_field R s t (reservationKey rid) ''limit_rpm'' = Some (l Rpm)" "lua_field R s t (reservationKey rid) ''rpm_cost'' = Some (n Rpm)"
    "lua_field R s t (reservationKey rid) ''limit_itpm'' = Some (l Itpm)" "lua_field R s t (reservationKey rid) ''itpm_reserved'' = Some (n Itpm)"
    "lua_field R s t (reservationKey rid) ''limit_otpm'' = Some (l Otpm)" "lua_field R s t (reservationKey rid) ''otpm_reserved'' = Some (n Otpm)"
  using res_readsD(2,4) [OF assms(1), of Rpm] res_readsD(2,4) [OF assms(1), of Itpm] res_readsD(2,4) [OF assms(1), of Otpm] assms(2) by simp_all

lemma metered_reads:
  assumes ok: "redis_ok R H D s" and rm: "res_metered R ax k c (rfields H D s t (reservationKey rid))"
    and v: "redis_view H D s t rid = Some (Pending, sp)" and r: "res_reads R s t rid sp l n" and a: "active ax sp"
    and k: "k = rkey ax (res_holder (rfields H D s t (reservationKey rid)))"
  obtains z where "0 \<le> z" "z \<le> 2 ^ 53" "l ax = of_int c" "n ax = of_int z"
    "res_reserved R (rfields H D s t (reservationKey rid)) ax = z"
proof -
  have "sp = (rfields H D s t (reservationKey rid) ''mode'' = Some ''split'')" "rfields H D s t (reservationKey rid) \<noteq> Map.empty"
    using v by (auto simp: redis_view_def view_of_def split: if_splits)
  then show thesis
    using rm a k that res_readsD(2,4) [OF r a] unfolding field_num [OF ok] by (auto simp: res_metered_def res_reserved_def)
qed

text \<open>What the three operations leave of a pending reservation: amounts \<open>y\<close> on the axes of its mode, and the
  mark that it is finished.\<close>

definition finishes :: "'r RedisOps \<Rightarrow> ('r \<Rightarrow> string \<Rightarrow> string \<rightharpoonup> string) \<Rightarrow> ('r \<Rightarrow> string \<Rightarrow> int option) \<Rightarrow> time \<Rightarrow> string \<Rightarrow>
    bool \<Rightarrow> (axis \<Rightarrow> float64) \<Rightarrow> 'r \<Rightarrow> 'r \<Rightarrow> bool" where
  "finishes R H D t rid sp y s s' \<longleftrightarrow> (\<exists>s1. wrote R H t (res_holder (rfields H D s t (reservationKey rid))) (on_active sp y) s s1 \<and>
     redis_ok R H D s1 \<and> same_res H D s s1 \<and> finished_by R t rid s1 s')"

lemma finishesI:
  "wrote R H t (res_holder (rfields H D s t (reservationKey rid))) (on_active sp y) s s1 \<and> redis_ok R H D s1 \<and> same_res H D s s1 \<Longrightarrow>
     finished_by R t rid s1 s' \<Longrightarrow> finishes R H D t rid sp y s s'"
  by (auto simp: finishes_def)

lemma finishes_wrote:
  assumes "finishes R H D t rid sp y s s'"
  shows "wrote R H t (res_holder (rfields H D s t (reservationKey rid))) (on_active sp y) s s'"
  using assms unfolding finishes_def by (elim exE conjE) (rule finished_wrote)

lemma snap_names [simp]:
  "''status'' \<notin> res_names" "''snap_allowed'' \<notin> res_names" "''snap_remaining_rpm'' \<notin> res_names"
  "''snap_remaining_tpm'' \<notin> res_names" "''snap_overshoot'' \<notin> res_names" "''snap_remaining_itpm'' \<notin> res_names"
  "''snap_remaining_otpm'' \<notin> res_names" "''snap_overshoot_itpm'' \<notin> res_names" "''snap_overshoot_otpm'' \<notin> res_names"
  by (simp_all add: res_names_def)

lemma refund_finishes:
  assumes ok: "redis_ok R H D s" and f: "no_faults R s t" and v: "redis_view H D s t rid = Some (Pending, sp)"
    and r: "res_reads R s t rid sp l n"
  defines "y \<equiv> \<lambda>ax. min (l ax) (f64_add (lua_refill R s t (rkey ax (res_holder (rfields H D s t (reservationKey rid)))) (l ax)) (n ax))"
  shows "finishes R H D t rid sp y s (snd (redis_Refund R s t rid))"
proof -
  have am: "\<forall>ax. active ax sp \<longrightarrow> amount (y ax)"
    using res_readsD(3,5) [OF r] unfolding y_def by (auto intro!: amount_credit lua_refill_amount [OF ok])
  note W = wrote_axes [OF ok am, of t "res_holder (rfields H D s t (reservationKey rid))"]
  note u = mode_holder [OF ok f v] view_status [OF ok v] res_readsD(1) [OF r]
  show ?thesis
  proof (cases sp)
    case True
    show ?thesis
      by (rule finishesI [OF W(3) [OF True]])
        (use u res_reads_split [OF r True] True in \<open>simp add: redis_Refund_def bucketKeysIO_rkey snd_run_script [OF f]
          lua_refund_io_def Let_def lua_or0_def case_prod_beta finished_byI y_def\<close>)
  next
    case False
    show ?thesis
      by (rule finishesI [OF W(1) [OF False]])
        (use u res_reads_classic [OF r False] False in \<open>simp add: redis_Refund_def bucketKeys_rkey snd_run_script [OF f]
          lua_refund_def Let_def case_prod_beta finished_byI y_def\<close>)
  qed
qed

lemma redis_refund_eff:
  assumes ok: "redis_ok R H D s" and f: "no_faults R s t" and k: "k = rkey ax key'"
    and rm: "res_metered R ax k c (rfields H D s t (reservationKey rid))"
  shows "bucket_eff R H k c t (redis_draw_on R H D ax k s t (DoRefund rid)) s (snd (redis_Refund R s t rid))"
proof (cases "\<exists>sp. redis_view H D s t rid = Some (Pending, sp)")
  case False
  then have "redis_draw_on R H D ax k s t (DoRefund rid) = 0"
    by (auto simp: redis_draw_on_def split: option.splits status.splits)
  then show ?thesis using finish_idle(3) [OF ok f] False by (simp add: bucket_eff_same)
next
  case True
  then obtain sp where v: "redis_view H D s t rid = Some (Pending, sp)" ..
  then obtain l n where r: "res_reads R s t rid sp l n" using res_reads_exist [OF ok] by blast
  show ?thesis
  proof (rule wrote_eff [OF finishes_wrote [OF refund_finishes [OF ok f v r]] k])
    let ?m = "rfields H D s t (reservationKey rid)"
    assume kk: "k = rkey ax (res_holder ?m)" and a: "active ax sp"
    obtain z where z: "0 \<le> z" "l ax = of_int c" "n ax = of_int z" "res_reserved R ?m ax = z"
      using metered_reads [OF ok rm v r a kk] by blast
    show "drew c (lua_refill R s t k (of_int c)) (redis_draw_on R H D ax k s t (DoRefund rid))
        (min (l ax) (f64_add (lua_refill R s t (rkey ax (res_holder ?m)) (l ax)) (n ax)))"
      using drew_give [OF z(1), of c "lua_refill R s t k (of_int c)"] v a z kk by (simp add: redis_draw_on_def)
  qed (use v in \<open>auto simp: redis_draw_on_def\<close>)
qed

lemma i64_of_int: "0 \<le> z \<Longrightarrow> z \<le> 2 ^ 53 \<Longrightarrow> i64_of_f64 (of_int z) = z"
  by (simp add: i64_of_f64_of_int in64_def)

text \<open>The part of a settlement on one axis.\<close>

definition settled_axis :: "'r RedisOps \<Rightarrow> ('r \<Rightarrow> string \<Rightarrow> string \<rightharpoonup> string) \<Rightarrow> ('r \<Rightarrow> string \<Rightarrow> int option) \<Rightarrow> 'r \<Rightarrow> time \<Rightarrow> string \<Rightarrow>
    (axis \<Rightarrow> float64) \<Rightarrow> (axis \<Rightarrow> float64) \<Rightarrow> (axis \<Rightarrow> int64) \<Rightarrow> axis \<Rightarrow> float64 \<times> float64" where
  "settled_axis R H D s t rid l n a ax =
     (let x = lua_refill R s t (rkey ax (res_holder (rfields H D s t (reservationKey rid)))) (l ax)
      in if ax = Rpm then (x, 0) else lua_apply_delta x (l ax) (n ax) (lua_clamp (f64_of_int (a ax))))"

lemma settled_axis_drew:
  assumes ok: "redis_ok R H D s" and rm: "res_metered R ax k c (rfields H D s t (reservationKey rid))"
    and v: "redis_view H D s t rid = Some (Pending, sp)" and r: "res_reads R s t rid sp l n" and ac: "active ax sp"
    and k: "k = rkey ax (res_holder (rfields H D s t (reservationKey rid)))" and a: "a ax \<le> 2 ^ 53"
  defines "p \<equiv> settled_axis R H D s t rid l n a ax"
  shows "drew c (lua_refill R s t k (of_int c)) (if ax = Rpm then 0 else
    max 0 (a ax) - res_reserved R (rfields H D s t (reservationKey rid)) ax - i64_of_f64 (snd p)) (fst p)"
proof -
  obtain z where z: "0 \<le> z" "z \<le> 2 ^ 53" "l ax = of_int c" "n ax = of_int z"
    "res_reserved R (rfields H D s t (reservationKey rid)) ax = z"
    using metered_reads [OF ok rm v r ac k] by blast
  let ?x = "lua_refill R s t k (of_int c)"
  have x: "amount ?x" using lua_refill_amount [OF ok res_readsD(3) [OF r ac]] by (simp add: k z)
  show ?thesis
  proof (cases "ax = Rpm")
    case True
    then show ?thesis using drew_none z(3) k by (simp add: p_def settled_axis_def)
  next
    case False
    have pe: "p = lua_apply_delta ?x (of_int c) (of_int z) (of_int (max 0 (a ax)))"
      using False by (simp add: p_def settled_axis_def k [symmetric] z clamp_max [OF a])
    have "0 \<le> max 0 (a ax)" "max 0 (a ax) \<le> 2 ^ 53" using a by simp_all
    from apply_delta_drew [OF x z(1,2) this, of c, folded pe] show ?thesis
      using False z(5) by (auto simp: i64_of_int)
  qed
qed

lemma settled_axis_amount:
  assumes "redis_ok R H D s" "res_reads R s t rid sp l n"
  shows "\<forall>ax. active ax sp \<longrightarrow> amount (fst (settled_axis R H D s t rid l n a ax))"
  using res_readsD(3) [OF assms(2)] lua_refill_amount [OF assms(1)] apply_delta_amount by (simp add: settled_axis_def Let_def)

lemma settle_finishes:
  fixes a :: int64
  assumes ok: "redis_ok R H D s" and f: "no_faults R s t" and v: "redis_view H D s t rid = Some (Pending, False)"
    and r: "res_reads R s t rid False l n"
  defines "p \<equiv> settled_axis R H D s t rid l n (\<lambda>_. a)"
  shows "finishes R H D t rid False (fst \<circ> p) s (snd (redis_Settle R s t rid a))"
    and "\<exists>d. fst (redis_Settle R s t rid a) = Inr d \<and> OvershootTPM d = i64_of_f64 (snd (p Tpm))"
proof -
  let ?m = "rfields H D s t (reservationKey rid)"
  have am: "\<forall>ax. active ax False \<longrightarrow> amount ((fst \<circ> p) ax)" using settled_axis_amount [OF ok r] by (simp add: p_def)
  have ps: "lua_apply_delta (lua_refill R s t (rkey Tpm (res_holder ?m)) (l Tpm)) (l Tpm) (n Tpm) (lua_clamp (f64_of_int a)) = p Tpm"
    "lua_refill R s t (rkey Rpm (res_holder ?m)) (l Rpm) = fst (p Rpm)" by (simp_all add: p_def settled_axis_def)
  note W = wrote_axes(2) [OF ok am, of t "res_holder ?m"]
  note u = mode_holder [OF ok f v] view_status [OF ok v] res_readsD(1) [OF r] res_reads_classic [OF r]
  note un = redis_Settle_def bucketKeys_rkey run_script_no_fault [OF f] lua_settle_def Let_def case_prod_beta ps
  show "finishes R H D t rid False (fst \<circ> p) s (snd (redis_Settle R s t rid a))"
    by (rule finishesI [OF W]) (use u in \<open>simp_all add: un finished_byI\<close>)
  show "\<exists>d. fst (redis_Settle R s t rid a) = Inr d \<and> OvershootTPM d = i64_of_f64 (snd (p Tpm))"
    using u by (simp add: un parseSettle_def reply_arr_def zero_Decision_def)
qed

lemma settle_io_finishes:
  fixes a b :: int64
  assumes ok: "redis_ok R H D s" and f: "no_faults R s t" and v: "redis_view H D s t rid = Some (Pending, True)"
    and r: "res_reads R s t rid True l n"
  defines "p \<equiv> settled_axis R H D s t rid l n (\<lambda>ax. if ax = Itpm then a else b)"
  shows "finishes R H D t rid True (fst \<circ> p) s (snd (redis_SettleIO R s t rid a b))"
    and "\<exists>d. fst (redis_SettleIO R s t rid a b) = Inr d \<and> OvershootITPM d = i64_of_f64 (snd (p Itpm)) \<and>
      OvershootOTPM d = i64_of_f64 (snd (p Otpm))"
proof -
  let ?m = "rfields H D s t (reservationKey rid)"
  have am: "\<forall>ax. active ax True \<longrightarrow> amount ((fst \<circ> p) ax)" using settled_axis_amount [OF ok r] by (simp add: p_def)
  have ps: "lua_apply_delta (lua_refill R s t (rkey Itpm (res_holder ?m)) (l Itpm)) (l Itpm) (n Itpm) (lua_clamp (f64_of_int a)) = p Itpm"
    "lua_apply_delta (lua_refill R s t (rkey Otpm (res_holder ?m)) (l Otpm)) (l Otpm) (n Otpm) (lua_clamp (f64_of_int b)) = p Otpm"
    "lua_refill R s t (rkey Rpm (res_holder ?m)) (l Rpm) = fst (p Rpm)" by (simp_all add: p_def settled_axis_def)
  note W = wrote_axes(3) [OF ok am, of t "res_holder ?m"]
  note u = mode_holder [OF ok f v] view_status [OF ok v] res_readsD(1) [OF r] res_reads_split [OF r]
  note un = redis_SettleIO_def bucketKeysIO_rkey run_script_no_fault [OF f] lua_settle_io_def Let_def case_prod_beta ps
  show "finishes R H D t rid True (fst \<circ> p) s (snd (redis_SettleIO R s t rid a b))"
    by (rule finishesI [OF W]) (use u in \<open>simp_all add: un finished_byI\<close>)
  show "\<exists>d. fst (redis_SettleIO R s t rid a b) = Inr d \<and> OvershootITPM d = i64_of_f64 (snd (p Itpm)) \<and>
      OvershootOTPM d = i64_of_f64 (snd (p Otpm))"
    using u by (simp add: un parseSettleIO_def reply_arr_def zero_Decision_def)
qed

lemma redis_settle_eff:
  assumes ok: "redis_ok R H D s" and f: "no_faults R s t" and k: "k = rkey ax key'"
    and rm: "res_metered R ax k c (rfields H D s t (reservationKey rid))" and op: "a \<le> 2 ^ 53"
  shows "bucket_eff R H k c t (redis_draw_on R H D ax k s t (DoSettle rid a)) s (snd (redis_Settle R s t rid a))"
proof (cases "redis_view H D s t rid = Some (Pending, False)")
  case False
  then show ?thesis using finish_idle(1) [OF ok f False] by (simp add: redis_draw_on_def bucket_eff_same)
next
  case v: True
  then obtain l n where r: "res_reads R s t rid False l n" using res_reads_exist [OF ok] by blast
  note S = settle_finishes [OF ok f v r, where a = a]
  show ?thesis
    by (rule wrote_eff [OF finishes_wrote [OF S(1)] k];
        use S(2) v settled_axis_drew [OF ok rm v r, of "\<lambda>_. a"] op in \<open>cases ax; auto simp: redis_draw_on_def\<close>)
qed

lemma redis_settle_io_eff:
  assumes ok: "redis_ok R H D s" and f: "no_faults R s t" and k: "k = rkey ax key'"
    and rm: "res_metered R ax k c (rfields H D s t (reservationKey rid))" and op: "a \<le> 2 ^ 53" "b \<le> 2 ^ 53"
  shows "bucket_eff R H k c t (redis_draw_on R H D ax k s t (DoSettleIO rid a b)) s (snd (redis_SettleIO R s t rid a b))"
proof (cases "redis_view H D s t rid = Some (Pending, True)")
  case False
  then show ?thesis using finish_idle(2) [OF ok f False] by (simp add: redis_draw_on_def bucket_eff_same)
next
  case v: True
  then obtain l n where r: "res_reads R s t rid True l n" using res_reads_exist [OF ok] by blast
  note S = settle_io_finishes [OF ok f v r, where a = a and b = b]
  show ?thesis
    by (rule wrote_eff [OF finishes_wrote [OF S(1)] k];
        use S(2) v settled_axis_drew [OF ok rm v r, of "\<lambda>ax. if ax = Itpm then a else b"] op in
          \<open>cases ax; auto simp: redis_draw_on_def\<close>)
qed

text \<open>Every operation has one of the effects of \<open>bucket_eff\<close> on each bucket and draws what is read off its answer.\<close>

lemma redis_exec_eff:
  assumes ok: "redis_ok R H D s" and f: "no_faults R s t" and k: "k = rkey ax key'"
    and op: "redis_uses ax k c opn" and rm: "\<And>rid. res_metered R ax k c (rfields H D s t (reservationKey rid))"
  shows "bucket_eff R H k c t (redis_draw_on R H D ax k s t opn) s (redis_exec R opn t s)"
  using redis_check_eff [OF ok f k] redis_return_eff [OF ok f k] redis_borrow_eff [OF ok f k] redis_settle_eff [OF ok f k rm]
    redis_settle_io_eff [OF ok f k rm] redis_refund_eff [OF ok f k rm] op
  by (cases opn) (simp_all del: redis_draw.simps)

section \<open>Reservations keep their numbers\<close>

lemma res_written:
  assumes ok: "redis_ok R H D s" and fvs: "fvs \<noteq> []" "distinct (map fst fvs)"
  shows "H (rExpire R (rHMSet R s t (reservationKey rid) fvs) t (reservationKey rid) n) (reservationKey rid') =
    (if rid' = rid then rfields H D s t (reservationKey rid) ++ map_of fvs else H s (reservationKey rid'))"
proof -
  note L = redis_okD(1) [OF ok]
  let ?s = "rHMSet R s t (reservationKey rid) fvs"
  have ne: "rfields H D ?s t (reservationKey rid) \<noteq> Map.empty" using fvs(1) unfolding rfields_HMSet [OF L fvs] by simp
  show ?thesis using redis_lawsD(5) [OF L ne] redis_lawsD(3) [OF L fvs] by simp
qed

text \<open>A finished reservation keeps what it was made with.\<close>

lemma res_metered_add:
  assumes "res_metered R ax k c m" and "m \<noteq> Map.empty" and "\<And>g. g \<in> res_names \<Longrightarrow> map_of fvs g = None"
  shows "res_metered R ax k c (m ++ map_of fvs)"
proof -
  have e: "(m ++ map_of fvs) g = m g" if "g \<in> res_names" for g using assms(3) [OF that] by (simp add: map_add_def)
  have "hash_num R (m ++ map_of fvs) g = hash_num R m g" if "g \<in> res_names" for g using e [OF that] by (simp add: hash_num_def)
  moreover have "res_holder (m ++ map_of fvs) = res_holder m" "(m ++ map_of fvs) ''mode'' = m ''mode''"
    using e by (simp_all add: res_holder_def res_names_def)
  ultimately show ?thesis using assms(1,2) by (simp add: res_metered_def res_names_fields)
qed

text \<open>A new reservation.\<close>

lemma res_metered_new:
  assumes L: "redis_laws R H D" and l: "redis_limits limits"
    and cap: "rkey ax key = k \<Longrightarrow> active ax (Split limits) \<Longrightarrow> axis_limit ax limits = c"
    and cov: "active ax (Split limits) \<Longrightarrow> rcost cost ax \<le> f64_of_int (axis_limit ax limits)"
    and who: "map_of fvs ''subject'' = Some (Subject key)" "map_of fvs ''model'' = Some (modelOrDash (Model key))"
      "map_of fvs ''mode'' = Some (if Split limits then ''split'' else ''classic'')"
    and num: "active ax (Split limits) \<Longrightarrow> map_of fvs (limit_field ax) = Some (rNumText R (f64_of_int (axis_limit ax limits)))"
      "active ax (Split limits) \<Longrightarrow> map_of fvs (reserved_field ax) = Some (rNumText R (rcost cost ax))"
  shows "res_metered R ax k c (m ++ map_of fvs)"
proof -
  have h: "res_holder (m ++ map_of fvs) = \<lparr>Subject = Subject key, Model = modelOrDash (Model key)\<rparr>"
    "(m ++ map_of fvs) ''mode'' = Some (if Split limits then ''split'' else ''classic'')"
    using who by (simp_all add: res_holder_def map_add_def)
  have k: "rkey ax (res_holder (m ++ map_of fvs)) = rkey ax key" by (simp add: h rkey_def)
  have n: "hash_num R (m ++ map_of fvs) g = Some x" if "map_of fvs g = Some (rNumText R x)" "is_f64 x" for g x
    using that redis_lawsD(7) [OF L that(2)] by (simp add: hash_num_def map_add_def)
  have "hash_num R (m ++ map_of fvs) (limit_field ax) = Some (of_int c) \<and>
    (\<exists>z. 0 \<le> z \<and> z \<le> 2 ^ 53 \<and> hash_num R (m ++ map_of fvs) (reserved_field ax) = Some (of_int z))"
    if a: "rkey ax key = k" "active ax (Split limits)"
  proof -
    have c: "axis_limit ax limits = c" "rlimit c" using cap [OF a] redis_limitsD [OF l, of ax] by auto
    have "rcost cost ax \<le> of_int c" using cov [OF a(2)] c by (simp add: rlimit_cap)
    note rc = rcost_int [OF c(2) this]
    show ?thesis
      using n [OF num(1) [OF a(2)]] n [OF num(2) [OF a(2)]] c rc amountD(1) [OF amount_of_int [OF c(2)]]
      by (intro conjI exI [of _ "max 0 (axis_cost ax cost)"]) (simp_all add: rlimit_cap rcost_def)
  qed
  then show ?thesis by (simp add: res_metered_def k h(2))
qed

lemma same_res_rfields: "same_res H D s s1 \<Longrightarrow> rfields H D s1 t (reservationKey rid) = rfields H D s t (reservationKey rid)"
  by (simp add: same_res_def rfields_def rlive_def)

lemma check_metered:
  assumes ok: "redis_ok R H D s" and f: "no_faults R s t" and op: "redis_uses ax k c (DoCheck key limits cost rid)"
    and rm: "res_metered R ax k c (H s (reservationKey rid'))"
  shows "res_metered R ax k c (H (snd (redis_Check R s t key limits cost rid)) (reservationKey rid'))"
proof (cases "granted (fst (redis_Check R s t key limits cost rid))")
  case False
  then show ?thesis using redis_Check_refused_state [OF f False] rm by simp
next
  case g: True
  have l: "redis_limits limits" using op by simp
  note v = redis_Check_valid [OF g]
  note cov = g [unfolded redis_Check_granted_iff [OF f v], rule_format]
  have am: "\<forall>ax. active ax (Split limits) \<longrightarrow> amount (left_over R s t key limits cost ax)"
    using amount_debit [OF lua_refill_amount [OF ok amount_limit [OF redis_limitsD [OF l]]]] cov
    by (simp add: left_over_def rtok_def rcost_def)
  note W = wrote_axes [OF ok am, of t key]
  show ?thesis
  proof (rule redis_Check_granted_state [OF f g], goal_cases)
    case (1 fvs)
    have new: "res_metered R ax k c (m ++ map_of fvs)" for m
      by (rule res_metered_new [OF redis_okD(1) [OF ok] l, where key = key and cost = cost])
        (use 1 op cov in \<open>auto split: if_splits\<close>)
    have "res_metered R ax k c (H (rExpire R (rHMSet R s1 t (reservationKey rid) fvs) t (reservationKey rid) ttl_seconds) (reservationKey rid'))"
      if "redis_ok R H D s1" "same_res H D s s1" for s1
      using new rm that(2) by (simp add: res_written [OF that(1) 1(2,3)] same_res_def)
    then show ?case using 1(1) W by (cases "Split limits") simp_all
  qed
qed

lemma finishes_metered:
  assumes fin: "finishes R H D t rid sp y s s'" and ex: "rExists R s t (reservationKey rid)" and L: "redis_laws R H D"
    and rm: "\<And>rid. res_metered R ax k c (H s (reservationKey rid))"
  shows "res_metered R ax k c (H s' (reservationKey rid'))"
proof -
  obtain s1 fvs where s1: "redis_ok R H D s1" "same_res H D s s1"
    and s': "s' = rExpire R (rHMSet R s1 t (reservationKey rid) fvs) t (reservationKey rid) ttl_seconds"
    and fvs: "fvs \<noteq> []" "distinct (map fst fvs)" "set (map fst fvs) \<inter> res_names = {}"
    using fin unfolding finishes_def finished_by_def by blast
  have "map_of fvs g = None" if "g \<in> res_names" for g using that fvs(3) by (auto simp: map_of_eq_None_iff)
  moreover have ne: "rfields H D s t (reservationKey rid) \<noteq> Map.empty" using ex redis_lawsD(2) [OF L] by blast
  moreover have "res_metered R ax k c (rfields H D s t (reservationKey rid))"
    using rm [of rid] ne by (simp add: rfields_def split: if_splits)
  ultimately show ?thesis
    using rm s1(2) by (simp add: s' res_written [OF s1(1) fvs(1,2)] res_metered_add same_res_rfields [OF s1(2)]) (simp add: same_res_def)
qed

lemma redis_exec_metered:
  assumes ok: "redis_ok R H D s" and f: "no_faults R s t" and op: "redis_uses ax k c opn"
    and rm: "\<And>rid. res_metered R ax k c (H s (reservationKey rid))"
  shows "res_metered R ax k c (H (redis_exec R opn t s) (reservationKey rid'))"
proof (cases opn)
  case (DoCheck key limits cost rid)
  then show ?thesis using check_metered [OF ok f _ rm] op by simp
next
  case (DoSettle rid a)
  show ?thesis
  proof (cases "redis_view H D s t rid = Some (Pending, False)")
    case True
    then obtain l n where r: "res_reads R s t rid False l n" using res_reads_exist [OF ok] by blast
    show ?thesis
      using finishes_metered [OF settle_finishes(1) [OF ok f True r] res_readsD(1) [OF r] redis_okD(1) [OF ok] rm] by (simp add: DoSettle)
  qed (use finish_idle(1) [OF ok f] rm in \<open>simp add: DoSettle\<close>)
next
  case (DoSettleIO rid a b)
  show ?thesis
  proof (cases "redis_view H D s t rid = Some (Pending, True)")
    case True
    then obtain l n where r: "res_reads R s t rid True l n" using res_reads_exist [OF ok] by blast
    show ?thesis
      using finishes_metered [OF settle_io_finishes(1) [OF ok f True r] res_readsD(1) [OF r] redis_okD(1) [OF ok] rm] by (simp add: DoSettleIO)
  qed (use finish_idle(2) [OF ok f] rm in \<open>simp add: DoSettleIO\<close>)
next
  case (DoRefund rid)
  show ?thesis
  proof (cases "\<exists>sp. redis_view H D s t rid = Some (Pending, sp)")
    case True
    then obtain sp where v: "redis_view H D s t rid = Some (Pending, sp)" ..
    then obtain l n where r: "res_reads R s t rid sp l n" using res_reads_exist [OF ok] by blast
    show ?thesis
      using finishes_metered [OF refund_finishes [OF ok f v r] res_readsD(1) [OF r] redis_okD(1) [OF ok] rm] by (simp add: DoRefund)
  qed (use finish_idle(3) [OF ok f] rm in \<open>simp add: DoRefund\<close>)
next
  case (DoBorrow key limits spec)
  show ?thesis using loan_same_res(1) [OF ok f op [unfolded DoBorrow]] rm by (simp add: DoBorrow same_res_def)
next
  case (DoReturn key limits n1 n2 n3 n4)
  show ?thesis using loan_same_res(2) [OF ok f op [unfolded DoReturn]] rm by (simp add: DoReturn same_res_def)
qed

section \<open>The Redis store is a metered resource\<close>

text \<open>The invariant of bucket \<open>k\<close> with capacity \<open>c\<close>, not touched after the millisecond \<open>t\<close>.\<close>

definition rmeter_inv :: "'r RedisOps \<Rightarrow> ('r \<Rightarrow> string \<Rightarrow> string \<rightharpoonup> string) \<Rightarrow> ('r \<Rightarrow> string \<Rightarrow> int option) \<Rightarrow>
    axis \<Rightarrow> string \<Rightarrow> int64 \<Rightarrow> int64 \<Rightarrow> 'r \<Rightarrow> bool" where
  "rmeter_inv R H D ax k c t s \<longleftrightarrow> redis_ok R H D s \<and> 0 < c \<and> c < 2 ^ 53 \<and> (\<exists>key. k = rkey ax key) \<and>
     (\<exists>b. same_bucket R (H s k) b c t) \<and> (\<forall>rid. res_metered R ax k c (H s (reservationKey rid)))"

definition rmeter_avail :: "'r RedisOps \<Rightarrow> string \<Rightarrow> int64 \<Rightarrow> 'r \<Rightarrow> int64 \<Rightarrow> rat" where
  "rmeter_avail R k c s t = lua_refill R s (time_of_ms t) k (of_int c)"

definition rmeter_step :: "'r RedisOps \<Rightarrow> ('r \<Rightarrow> string \<Rightarrow> string \<rightharpoonup> string) \<Rightarrow> ('r \<Rightarrow> string \<Rightarrow> int option) \<Rightarrow>
    axis \<Rightarrow> string \<Rightarrow> int64 \<Rightarrow> int \<Rightarrow> int \<Rightarrow> 'r \<Rightarrow> 'r \<Rightarrow> bool" where
  "rmeter_step R H D ax k c t d s s' \<longleftrightarrow> (\<exists>now opn. now div 1000000 = t \<and> no_faults R s now \<and> redis_uses ax k c opn \<and>
     s' = redis_exec R opn now s \<and> d = redis_draw_on R H D ax k s now opn)"

definition rusable :: "int \<Rightarrow> bool" where
  "rusable t \<longleftrightarrow> 0 < t \<and> t \<le> 2 ^ 53"

lemma rusable_clock:
  assumes "rusable t"
  shows "clock_ok t" "redis_clock (time_of_ms t)" "ms_of_time (time_of_ms t) = t" "now div 1000000 = t \<Longrightarrow> redis_clock now"
    "now div 1000000 = t \<Longrightarrow> ms_of_time now = t"
  using assms by (simp_all add: rusable_def clock_ok_def in64_def redis_clock_def time_of_ms_def ms_of_time_def)

lemma same_bucket_later: "same_bucket R m b c t \<Longrightarrow> t \<le> t' \<Longrightarrow> same_bucket R m b c t'"
  by (auto simp: same_bucket_def split: option.splits)

text \<open>What a script reads is what the bucket code computes on the corresponding bucket.\<close>

lemma rmeter_load:
  assumes ok: "redis_ok R H D s" and b: "same_bucket R (H s (rkey ax key)) b c t0" and t: "t0 \<le> t" "rusable t"
    and c: "rlimit c" and now: "now div 1000000 = t"
  shows "lua_refill R s now (rkey ax key) (of_int c) = Tokens (loadBucket (\<lambda>_. b) (rkey ax key) c t)"
proof -
  note C = redis_clockD [OF rusable_clock(4) [OF t(2) now]] and m = rusable_clock(5) [OF t(2) now]
  show ?thesis
    using load_agrees [where mb = "\<lambda>_. b" and k = "rkey ax key", OF ok same_bucket_later [OF b t(1)] C(2) _ _ c] C(1,4) m now c
    by (simp add: rlimit_cap)
qed

lemma rmeter_avail_load:
  assumes "redis_ok R H D s" "same_bucket R (H s (rkey ax key)) b c t0" "t0 \<le> t" "rusable t" "rlimit c"
  shows "rmeter_avail R (rkey ax key) c s t = Tokens (loadBucket (\<lambda>_. b) (rkey ax key) c t)"
  unfolding rmeter_avail_def by (rule rmeter_load [OF assms]) (simp add: time_of_ms_def)

lemma same_bucket_axis_ok:
  assumes "same_bucket R m b c t0" "rlimit c" "t0 \<le> 2 ^ 53"
  shows "axis_ok t0 (\<lambda>_. b)" "b = Some st \<Longrightarrow> bsTokens st \<le> of_int c"
proof -
  have "of_int c \<le> (2 ^ 53 :: rat)" using amountD(3) [OF amount_of_int [OF assms(2)]] by simp
  then show "axis_ok t0 (\<lambda>_. b)" "b = Some st \<Longrightarrow> bsTokens st \<le> of_int c"
    using assms neg_2eps_le [of "bsTokens (the b)"]
    by (auto simp: same_bucket_def axis_ok_def entry_ok_def in64_def split: option.splits)
qed

lemma rmeter_bounds:
  assumes inv: "rmeter_inv R H D ax k c t0 s" and t: "t0 \<le> t" "rusable t"
  shows "rmeter_avail R k c s t \<le> of_int c" "0 \<le> rmeter_avail R k c s t" "amount (rmeter_avail R k c s t)"
proof -
  obtain key b where k: "k = rkey ax key" and b: "same_bucket R (H s k) b c t0" and ok: "redis_ok R H D s" and c: "rlimit c"
    using inv by (auto simp: rmeter_inv_def rlimit_def)
  show am: "amount (rmeter_avail R k c s t)"
    unfolding rmeter_avail_def k by (rule lua_refill_amount [OF ok amount_of_int [OF c]])
  then show "0 \<le> rmeter_avail R k c s t" by (rule amountD)
  have "bucket_ok (loadBucket (\<lambda>_. b) k c t)"
    using same_load_ok(1) [where mb = "\<lambda>_. b" and k = k, OF same_bucket_later [OF b t(1)] c] t(2) by (simp add: rusable_def)
  from bucket_okD(3) [OF this] show "rmeter_avail R k c s t \<le> of_int c"
    using rmeter_avail_load [OF ok b [unfolded k] t c] by (simp add: k)
qed

lemma rmeter_later:
  assumes inv: "rmeter_inv R H D ax k c t0 s" and t: "t0 \<le> t" "t \<le> t'" "rusable t" "rusable t'"
  shows "rmeter_avail R k c s t' \<le> rmeter_avail R k c s t + meter_gain c (t' - t) + meter_slack c"
proof -
  obtain key b where k: "k = rkey ax key" and b: "same_bucket R (H s (rkey ax key)) b c t0" and ok: "redis_ok R H D s"
    and c: "0 < c" "rlimit c" using inv by (auto simp: rmeter_inv_def rlimit_def)
  have "t0 \<le> 2 ^ 53" "t0 \<le> t'" using t by (simp_all add: rusable_def)
  note A = same_bucket_axis_ok [OF b c(2) this(1)]
  show ?thesis
    using load_later [OF A(1) c(1) rlimit_cap(2) [OF c(2)] A(2) t(1,2) rusable_clock(1) [OF t(3)] rusable_clock(1) [OF t(4)], of "rkey ax key"]
      rmeter_avail_load [OF ok b t(1) t(3) c(2)] rmeter_avail_load [OF ok b \<open>t0 \<le> t'\<close> t(4) c(2)] by (simp add: k)
qed

lemma rmeter_exec:
  assumes inv: "rmeter_inv R H D ax k c t0 s" and t: "t0 \<le> t" "rusable t" and now: "now div 1000000 = t"
    and f: "no_faults R s now" and op: "redis_uses ax k c opn"
  shows "rmeter_inv R H D ax k c t (redis_exec R opn now s)"
    and "of_int (redis_draw_on R H D ax k s now opn) \<le>
      rmeter_avail R k c s t - rmeter_avail R k c (redis_exec R opn now s) t + meter_slack c"
proof -
  let ?s = "redis_exec R opn now s" and ?d = "redis_draw_on R H D ax k s now opn"
  obtain key b where k: "k = rkey ax key" and b: "same_bucket R (H s k) b c t0" and ok: "redis_ok R H D s" and c: "0 < c" "rlimit c"
    and rm: "\<And>rid. res_metered R ax k c (H s (reservationKey rid))"
    using inv by (auto simp: rmeter_inv_def rlimit_def)
  have rm': "res_metered R ax k c (rfields H D s now (reservationKey rid))" for rid
    using rm [of rid] by (simp add: rfields_def) (simp add: res_metered_def)
  have ok': "redis_ok R H D ?s" using op by (intro redis_exec_ok [OF ok]) (cases opn; simp)
  have av: "lua_refill R s now k (of_int c) = rmeter_avail R k c s t"
    using rmeter_load [OF ok b [unfolded k] t c(2) now] rmeter_avail_load [OF ok b [unfolded k] t c(2)] by (simp add: k)
  have sl: "0 \<le> meter_slack c" "of_int c / 2 ^ 51 \<le> meter_slack c" using c by (simp_all add: meter_slack_def)
  consider (same) "H ?s k = H s k" "?d = 0"
    | (new) y where "drew c (rmeter_avail R k c s t) ?d y" "holds_tokens R (H ?s k) y now"
    using redis_exec_eff [OF ok f k op rm'] unfolding bucket_eff_def av by blast
  then have "\<exists>b'. same_bucket R (H ?s k) b' c t \<and>
      of_int ?d \<le> rmeter_avail R k c s t - Tokens (loadBucket (\<lambda>_. b') k c t) + meter_slack c"
  proof cases
    case same
    then show ?thesis
      using same_bucket_later [OF b t(1)] sl(1) rmeter_avail_load [OF ok b [unfolded k] t c(2)] by (auto simp: k)
  next
    case new
    let ?b = "\<lparr>bsTokens = y, bsLastMs = t\<rparr>"
    note B = drew_bounds [OF new(1) rmeter_bounds(3,1) [OF inv t] c]
    note C = redis_clockD [OF rusable_clock(4) [OF t(2) now], unfolded rusable_clock(5) [OF t(2) now]]
    have sb: "same_bucket R (H ?s k) (Some ?b) c t"
      using new(2) B C(3,5) amountD(1,2) [OF B(1)] by (simp add: same_bucket_def holds_tokens_def)
    have "Tokens (loadBucket (\<lambda>_. Some ?b) k c t) = y"
      using refill_same [OF amountD(1,2) [OF B(1)] B(2) C(3) _ C(4) c(2)] C(3) by (simp add: loadBucket_def)
    then show ?thesis using sb B(3) sl(2) by (intro exI [of _ "Some ?b"]) linarith
  qed
  then obtain b' where b': "same_bucket R (H ?s k) b' c t"
    "of_int ?d \<le> rmeter_avail R k c s t - Tokens (loadBucket (\<lambda>_. b') k c t) + meter_slack c" by blast
  show "rmeter_inv R H D ax k c t ?s"
    using ok' c k b'(1) redis_exec_metered [OF ok f op rm] by (auto simp: rmeter_inv_def rlimit_def)
  show "of_int ?d \<le> rmeter_avail R k c s t - rmeter_avail R k c ?s t + meter_slack c"
    using b' rmeter_avail_load [OF ok' b'(1) [unfolded k] order_refl t(2) c(2)] by (simp add: k)
qed

interpretation rmeter: metered rusable "rmeter_inv R H D ax k c" "rmeter_avail R k c" "rmeter_step R H D ax k c" "meter_gain c"
  "of_int c" 0 "meter_slack c" for R H D ax k c
proof unfold_locales
  fix t0 t :: int and s
  assume inv: "rmeter_inv R H D ax k c t0 s" and t: "t0 \<le> t" "rusable t"
  show "rmeter_avail R k c s t \<le> of_int c" "0 \<le> rmeter_avail R k c s t" by (rule rmeter_bounds [OF inv t])+
  fix d s' assume st: "rmeter_step R H D ax k c t d s s'"
  then show "rmeter_inv R H D ax k c t s'" "of_int d \<le> rmeter_avail R k c s t - rmeter_avail R k c s' t + meter_slack c"
    using rmeter_exec [OF inv t] by (auto simp: rmeter_step_def)
qed (rule rmeter_later, assumption+, simp add: meter_gain_def earned_add ring_distribs)

section \<open>Runs\<close>

fun redis_labels :: "'r RedisOps \<Rightarrow> ('r \<Rightarrow> string \<Rightarrow> string \<rightharpoonup> string) \<Rightarrow> ('r \<Rightarrow> string \<Rightarrow> int option) \<Rightarrow> axis \<Rightarrow> string \<Rightarrow>
    (time \<times> store_op) list \<Rightarrow> 'r \<Rightarrow> (int \<times> int) list" where
  "redis_labels R H D ax k [] s = []"
| "redis_labels R H D ax k ((now, opn) # ops) s =
     (now div 1000000, redis_draw_on R H D ax k s now opn) # redis_labels R H D ax k ops (redis_exec R opn now s)"

text \<open>What a run of operations draws on a bucket in total.\<close>

definition redis_drawn :: "'r RedisOps \<Rightarrow> ('r \<Rightarrow> string \<Rightarrow> string \<rightharpoonup> string) \<Rightarrow> ('r \<Rightarrow> string \<Rightarrow> int option) \<Rightarrow> axis \<Rightarrow> string \<Rightarrow>
    (time \<times> store_op) list \<Rightarrow> 'r \<Rightarrow> int" where
  "redis_drawn R H D ax k ops s = sum_list (map snd (redis_labels R H D ax k ops s))"

lemma redis_labels_fst: "map fst (redis_labels R H D ax k ops s) = map (\<lambda>p. fst p div 1000000) ops"
  by (induction ops arbitrary: s) auto

lemma redis_labels_run:
  assumes "\<forall>s t. no_faults R s t" and "\<forall>(now, opn) \<in> set ops. redis_uses ax k c opn"
  shows "rmeter.run R H D ax k c (redis_labels R H D ax k ops s) s (redis_run R ops s)"
  using assms(2)
proof (induction ops arbitrary: s)
  case (Cons p ops)
  then have "rmeter_step R H D ax k c (fst p div 1000000) (redis_draw_on R H D ax k s (fst p) (snd p)) s (redis_exec R (snd p) (fst p) s)"
    unfolding rmeter_step_def using assms(1) by (intro exI [of _ "fst p"] exI [of _ "snd p"]) auto
  then show ?case using Cons by (cases p) (auto intro!: rmeter.run.run_step)
qed (simp add: rmeter.run.run_nil)

text \<open>
  C2 (the rate limit in Redis). Take any sequence of checks, settlements, refunds, loans and returns on the Redis
  store, over a working connection, at instants of the server's clock that do not go backwards, in which the
  bucket with the key \<open>k\<close> is always used with the same capacity \<open>c\<close>. What the callers were charged on that
  bucket, minus what they gave back, is at most one full bucket plus what the bucket earns at \<open>c\<close> per minute
  over the elapsed time, plus the roundings of the floating-point arithmetic in the scripts.
\<close>

theorem redis_rate_bound:
  assumes inv: "rmeter_inv R H D ax k c t0 s" and t0: "rusable t0" and f: "\<forall>s t. no_faults R s t"
    and times: "sorted (t0 # map (\<lambda>p. fst p div 1000000) ops)"
    and ops: "\<forall>(now, opn) \<in> set ops. rusable (now div 1000000) \<and> redis_uses ax k c opn"
  shows "of_int (redis_drawn R H D ax k ops s) \<le>
    of_int c + earned c (last (t0 # map (\<lambda>p. fst p div 1000000) ops) - t0) * (1 + 6 / 2 ^ 53) + of_nat (length ops) * (of_int c / 2 ^ 45)"
proof -
  let ?ls = "redis_labels R H D ax k ops s"
  have r: "rmeter.run R H D ax k c ?ls s (redis_run R ops s)" using ops by (intro redis_labels_run [OF f]) auto
  have u: "\<forall>t \<in> fst ` set ?ls. rusable t" using ops unfolding list.set_map [symmetric] redis_labels_fst by auto
  have "length ?ls = length ops" using redis_labels_fst [of R H D ax k ops s] by (metis length_map)
  then show ?thesis
    using rmeter.run_draw_bounded [OF r inv t0 _ u] times
    unfolding redis_labels_fst redis_drawn_def meter_slacks meter_gain_def by simp
qed

lemma redis_empty_metered: "rlimit c \<Longrightarrow> 0 < c \<Longrightarrow> rmeter_inv redis_map rmap_H rmap_D ax (rkey ax key) c t redis_empty"
  unfolding rmeter_inv_def
  using redis_empty_ok
  by (auto simp: rlimit_def same_bucket_def redis_empty_def res_metered_def intro!: exI [of _ None])

theorem redis_rate_bound_witness:
  "redis_drawn redis_map rmap_H rmap_D Tpm (rkey Tpm ex_rkey)
     [(1700000000000000000, DoCheck ex_rkey ex_rlimits ex_rcost ''r'')] redis_empty = 400 \<and>
   of_int (redis_drawn redis_map rmap_H rmap_D Tpm (rkey Tpm ex_rkey)
     [(1700000000000000000, DoCheck ex_rkey ex_rlimits ex_rcost ''r'')] redis_empty) \<le>
   of_int 1000 + earned 1000 1000 * (1 + 6 / 2 ^ 53) + of_nat 1 * (of_int 1000 / 2 ^ 45)"
proof
  let ?ops = "[(1700000000000000000, DoCheck ex_rkey ex_rlimits ex_rcost ''r'')]"
  show "redis_drawn redis_map rmap_H rmap_D Tpm (rkey Tpm ex_rkey) ?ops redis_empty = 400"
    using ex_granted by (simp add: redis_drawn_def redis_draw_on_def) (simp add: Split_def ex_rlimits_def ex_rcost_def)
  have "rmeter_inv redis_map rmap_H rmap_D Tpm (rkey Tpm ex_rkey) 1000 1699999999000 redis_empty"
    by (rule redis_empty_metered) (simp_all add: rlimit_def)
  from redis_rate_bound [OF this, of ?ops] redis_map_no_faults
  show "of_int (redis_drawn redis_map rmap_H rmap_D Tpm (rkey Tpm ex_rkey) ?ops redis_empty) \<le>
    of_int 1000 + earned 1000 1000 * (1 + 6 / 2 ^ 53) + of_nat 1 * (of_int 1000 / 2 ^ 45)"
    by (simp add: rusable_def ex_rlimits_def redis_limits_def rlimit_def)
qed

end
