(* ===== verification/Limiter_Api.thy ===== *)
theory Limiter_Api
  imports Store_Contract
begin

text \<open>
  The interface \<^verbatim>\<open>api.Limiter\<close> (\<^verbatim>\<open>pkg/api/limiter.go\<close>) that the metrics wrapper, the middlewares,
  the daemon and the proxy call: a record of operations over the state \<open>'l\<close> of the limiter.
  The contexts are not modelled (no call is cancelled). The limiter of \<^verbatim>\<open>pkg/limiter\<close> provides
  the interface for given clock readings \<open>ts\<close> and drawn ids \<open>ids\<close> of the call.
\<close>

record 'l LimiterOps =
  apiCheck :: "'l \<Rightarrow> Key \<Rightarrow> Limits \<Rightarrow> Cost \<Rightarrow> (error, Decision) result \<times> 'l"
  apiSettle :: "'l \<Rightarrow> string \<Rightarrow> int64 \<Rightarrow> (error, Decision) result \<times> 'l"
  apiSettleIO :: "'l \<Rightarrow> string \<Rightarrow> int64 \<Rightarrow> int64 \<Rightarrow> (error, Decision) result \<times> 'l"
  apiRefund :: "'l \<Rightarrow> string \<Rightarrow> error option \<times> 'l"

definition limiter_ops ::
  "'s StoreOps \<Rightarrow> (nat \<Rightarrow> time) \<Rightarrow> (nat \<Rightarrow> (error, string) result) \<Rightarrow> 's Limiter LimiterOps" where
  "limiter_ops S ts ids = \<lparr>apiCheck = (\<lambda>l. lim_Check S l ts ids), apiSettle = (\<lambda>l. lim_Settle S l ts),
     apiSettleIO = (\<lambda>l. lim_SettleIO S l ts), apiRefund = (\<lambda>l. lim_Refund S l ts)\<rparr>"

section \<open>Recorded calls\<close>

text \<open>A limiter that also writes down the calls it gets, to state which calls a client makes.\<close>

datatype call = CallCheck Key Limits Cost | CallSettle string int64 | CallSettleIO string int64 int64 | CallRefund string

definition traced :: "'l LimiterOps \<Rightarrow> ('l \<times> call list) LimiterOps" where
  "traced ops =
     \<lparr>apiCheck = (\<lambda>(l, cs) k lm c. let (r, l') = apiCheck ops l k lm c in (r, l', cs @ [CallCheck k lm c])),
      apiSettle = (\<lambda>(l, cs) rid n. let (r, l') = apiSettle ops l rid n in (r, l', cs @ [CallSettle rid n])),
      apiSettleIO = (\<lambda>(l, cs) rid n m. let (r, l') = apiSettleIO ops l rid n m in (r, l', cs @ [CallSettleIO rid n m])),
      apiRefund = (\<lambda>(l, cs) rid. let (r, l') = apiRefund ops l rid in (r, l', cs @ [CallRefund rid]))\<rparr>"

lemma traced_simps [simp]:
  "apiCheck (traced ops) (l, cs) k lm c = (fst (apiCheck ops l k lm c), snd (apiCheck ops l k lm c), cs @ [CallCheck k lm c])"
  "apiSettle (traced ops) (l, cs) rid n = (fst (apiSettle ops l rid n), snd (apiSettle ops l rid n), cs @ [CallSettle rid n])"
  "apiSettleIO (traced ops) (l, cs) rid n m =
     (fst (apiSettleIO ops l rid n m), snd (apiSettleIO ops l rid n m), cs @ [CallSettleIO rid n m])"
  "apiRefund (traced ops) (l, cs) rid = (fst (apiRefund ops l rid), snd (apiRefund ops l rid), cs @ [CallRefund rid])"
  by (simp_all add: traced_def split: prod.splits)

section \<open>The contract of a limiter\<close>

text \<open>What its clients rely on: an invariant that every call keeps; limits that do not validate are
  refused at once; and a call that does not admit the request charges nothing (\<open>view\<close> is what
  the limiter charges) and hands out no reservation.\<close>

locale api_limiter =
  fixes ops :: "'l LimiterOps" and linv :: "'l \<Rightarrow> bool" and view :: "'l \<Rightarrow> 'v"
  assumes check_keeps: "linv l \<Longrightarrow> linv (snd (apiCheck ops l k lm c))"
    and settle_keeps: "linv l \<Longrightarrow> linv (snd (apiSettle ops l rid n))"
    and settle_io_keeps: "linv l \<Longrightarrow> linv (snd (apiSettleIO ops l rid n m))"
    and refund_keeps: "linv l \<Longrightarrow> linv (snd (apiRefund ops l rid))"
    and invalid_refused: "linv l \<Longrightarrow> Validate lm = Some e \<Longrightarrow> fst (apiCheck ops l k lm c) = Inl e"
    and refused_free: "linv l \<Longrightarrow> \<not> granted (fst (apiCheck ops l k lm c)) \<Longrightarrow> view (snd (apiCheck ops l k lm c)) = view l"
    and refused_no_id: "linv l \<Longrightarrow> fst (apiCheck ops l k lm c) = Inr d \<Longrightarrow> \<not> Allowed d \<Longrightarrow> ReservationID d = ''''"

section \<open>The limiter without the fast path\<close>

definition direct :: "Store Limiter \<Rightarrow> bool" where
  "direct l \<longleftrightarrow> limPool l = None"

definition bucket_view :: "Store Limiter \<Rightarrow> axis \<Rightarrow> buckets" where
  "bucket_view l ax = axis_map ax (limStore l)"

lemma onStoreErr_id [simp]: "ReservationID (onStoreErr mode limits) = ''''"
  by (cases mode) (simp_all add: onStoreErr_def denyDecision_def zero_Decision_def Let_def)

lemma direct_check_refused:
  assumes "direct l" and "\<not> granted (fst (lim_Check memory_store l ts ids k lm c))"
  shows "bucket_view (snd (lim_Check memory_store l ts ids k lm c)) = bucket_view l"
proof
  fix ax
  show "bucket_view (snd (lim_Check memory_store l ts ids k lm c)) ax = bucket_view l ax"
  proof (cases "Validate lm")
    case None
    show ?thesis
    proof (cases "ids 0")
      case (Inr rid)
      have "axis_map ax (snd (mem_Check (limStore l) (ts 0) k lm c rid)) = axis_map ax (limStore l)
          \<or> granted (fst (mem_Check (limStore l) (ts 0) k lm c rid))"
        by (simp add: mem_Check_axis)
      then show ?thesis
        using assms None Inr
        by (auto simp: direct_def bucket_view_def lim_Check_def checkDirect_def memory_store_def
            split: prod.splits sum.splits)
    qed (use assms None in \<open>simp add: direct_def bucket_view_def lim_Check_def checkDirect_def\<close>)
  qed (simp add: bucket_view_def lim_Check_def)
qed

lemma direct_check_no_id:
  assumes "direct l" and "fst (lim_Check memory_store l ts ids k lm c) = Inr d" and "\<not> Allowed d"
  shows "ReservationID d = ''''"
  using assms memory.check_id [of "limStore l" "ts 0" k lm c _ d]
  by (auto simp: direct_def lim_Check_def checkDirect_def split: option.splits prod.splits sum.splits)
    (metis fst_conv)+

interpretation direct: api_limiter "limiter_ops memory_store ts ids" direct bucket_view for ts ids
proof (unfold_locales, goal_cases)
  case 1 then show ?case
    by (auto simp: limiter_ops_def direct_def lim_Check_def checkDirect_def split: option.splits prod.splits sum.splits)
next
  case 2 then show ?case by (auto simp: limiter_ops_def direct_def lim_Settle_def Let_def split: prod.splits)
next
  case 3 then show ?case by (auto simp: limiter_ops_def direct_def lim_SettleIO_def Let_def split: prod.splits)
next
  case 4 then show ?case by (auto simp: limiter_ops_def direct_def lim_Refund_def Let_def split: prod.splits)
next
  case 5 then show ?case by (simp add: limiter_ops_def lim_Check_def)
next
  case 6 then show ?case by (simp add: limiter_ops_def direct_check_refused)
next
  case 7 then show ?case by (simp add: limiter_ops_def direct_check_no_id)
qed

end
