(* ===== verification/Headers.thy ===== *)
theory Headers
  imports Api Bucket Go_Text
begin

text \<open>
  Package \<^verbatim>\<open>headers\<close> (\<^verbatim>\<open>pkg/headers/headers.go\<close>): a decision as OpenAI-style response headers.
  \<^verbatim>\<open>formatReset\<close> reads the clock; \<^verbatim>\<open>Write\<close> calls it up to four times, at the instants
  \<open>ts 0\<close> to \<open>ts 3\<close>. The header names are kept as the source spells them.
\<close>

definition LimitRequests :: string where "LimitRequests = ''x-ratelimit-limit-requests''"
definition RemainingRequests :: string where "RemainingRequests = ''x-ratelimit-remaining-requests''"
definition ResetRequests :: string where "ResetRequests = ''x-ratelimit-reset-requests''"
definition LimitTokens :: string where "LimitTokens = ''x-ratelimit-limit-tokens''"
definition RemainingTokens :: string where "RemainingTokens = ''x-ratelimit-remaining-tokens''"
definition ResetTokens :: string where "ResetTokens = ''x-ratelimit-reset-tokens''"
definition LimitInputTokens :: string where "LimitInputTokens = ''x-ratelimit-limit-input-tokens''"
definition RemainingInputTokens :: string where "RemainingInputTokens = ''x-ratelimit-remaining-input-tokens''"
definition ResetInputTokens :: string where "ResetInputTokens = ''x-ratelimit-reset-input-tokens''"
definition LimitOutputTokens :: string where "LimitOutputTokens = ''x-ratelimit-limit-output-tokens''"
definition RemainingOutputTokens :: string where "RemainingOutputTokens = ''x-ratelimit-remaining-output-tokens''"
definition ResetOutputTokens :: string where "ResetOutputTokens = ''x-ratelimit-reset-output-tokens''"
definition RetryAfterHeader :: string where "RetryAfterHeader = ''Retry-After''"

definition formatReset :: "time \<Rightarrow> time \<Rightarrow> string" where
  "formatReset now t =
     (let d0 = time_sub t now;
          d = (if d0 < 0 then 0 else d0);
          secs = i64_quot (dur_round d Second) Second
      in FormatInt secs @ ''s'')"

definition headers_Write :: "header \<Rightarrow> (nat \<Rightarrow> time) \<Rightarrow> Decision \<Rightarrow> header" where
  "headers_Write h0 ts d =
     (let h1 = header_Set h0 LimitRequests (FormatInt (LimitRPM d));
          h2 = header_Set h1 RemainingRequests (FormatInt (RemainingRPM d));
          h3 = header_Set h2 LimitTokens (FormatInt (LimitTPM d));
          h4 = header_Set h3 RemainingTokens (FormatInt (RemainingTPM d));
          h5 = (if \<not> IsZero (ResetRPM d) then header_Set h4 ResetRequests (formatReset (ts 0) (ResetRPM d)) else h4);
          h6 = (if \<not> IsZero (ResetTPM d) then header_Set h5 ResetTokens (formatReset (ts 1) (ResetTPM d)) else h5);
          h7 = (if LimitITPM d > 0 \<or> RemainingITPM d > 0 \<or> \<not> IsZero (ResetITPM d) then
                  (let a = header_Set h6 LimitInputTokens (FormatInt (LimitITPM d));
                       b = header_Set a RemainingInputTokens (FormatInt (RemainingITPM d))
                   in if \<not> IsZero (ResetITPM d)
                      then header_Set b ResetInputTokens (formatReset (ts 2) (ResetITPM d)) else b)
                else h6);
          h8 = (if LimitOTPM d > 0 \<or> RemainingOTPM d > 0 \<or> \<not> IsZero (ResetOTPM d) then
                  (let a = header_Set h7 LimitOutputTokens (FormatInt (LimitOTPM d));
                       b = header_Set a RemainingOutputTokens (FormatInt (RemainingOTPM d))
                   in if \<not> IsZero (ResetOTPM d)
                      then header_Set b ResetOutputTokens (formatReset (ts 3) (ResetOTPM d)) else b)
                else h7)
      in if RetryAfter d > 0 then
           (let secs0 = i64_quot (dur_round (RetryAfter d) Second) Second;
                secs = (if secs0 < 1 then 1 else secs0)
            in header_Set h8 RetryAfterHeader (FormatInt secs))
         else h8)"

lemmas header_names =
  LimitRequests_def RemainingRequests_def ResetRequests_def LimitTokens_def RemainingTokens_def ResetTokens_def
  LimitInputTokens_def RemainingInputTokens_def ResetInputTokens_def LimitOutputTokens_def
  RemainingOutputTokens_def ResetOutputTokens_def RetryAfterHeader_def

section \<open>The names\<close>

definition all_names :: "string list" where
  "all_names = [LimitRequests, RemainingRequests, ResetRequests, LimitTokens, RemainingTokens, ResetTokens,
     LimitInputTokens, RemainingInputTokens, ResetInputTokens, LimitOutputTokens, RemainingOutputTokens,
     ResetOutputTokens, RetryAfterHeader]"

lemma canonical_names:
  "CanonicalHeaderKey LimitRequests = ''X-Ratelimit-Limit-Requests''"
  "CanonicalHeaderKey RemainingRequests = ''X-Ratelimit-Remaining-Requests''"
  "CanonicalHeaderKey ResetRequests = ''X-Ratelimit-Reset-Requests''"
  "CanonicalHeaderKey LimitTokens = ''X-Ratelimit-Limit-Tokens''"
  "CanonicalHeaderKey RemainingTokens = ''X-Ratelimit-Remaining-Tokens''"
  "CanonicalHeaderKey ResetTokens = ''X-Ratelimit-Reset-Tokens''"
  "CanonicalHeaderKey LimitInputTokens = ''X-Ratelimit-Limit-Input-Tokens''"
  "CanonicalHeaderKey RemainingInputTokens = ''X-Ratelimit-Remaining-Input-Tokens''"
  "CanonicalHeaderKey ResetInputTokens = ''X-Ratelimit-Reset-Input-Tokens''"
  "CanonicalHeaderKey LimitOutputTokens = ''X-Ratelimit-Limit-Output-Tokens''"
  "CanonicalHeaderKey RemainingOutputTokens = ''X-Ratelimit-Remaining-Output-Tokens''"
  "CanonicalHeaderKey ResetOutputTokens = ''X-Ratelimit-Reset-Output-Tokens''"
  "CanonicalHeaderKey RetryAfterHeader = ''Retry-After''"
  by code_simp+

lemma header_Get_Set_if:
  "header_Get (header_Set h k' v) k =
     (if CanonicalHeaderKey k = CanonicalHeaderKey k' then v else header_Get h k)"
  by (simp add: header_Get_def header_Set_def)

lemmas headers_eval = headers_Write_def Let_def header_Get_Set_if canonical_names
  if_distrib [of "\<lambda>h. header_Get h k" for k]

lemma name_notin:
  "CanonicalHeaderKey k \<notin> set (map CanonicalHeaderKey all_names) \<Longrightarrow> n \<in> set all_names \<Longrightarrow>
    CanonicalHeaderKey k \<noteq> CanonicalHeaderKey n"
  by auto

definition shows_axis :: "int64 \<Rightarrow> int64 \<Rightarrow> time \<Rightarrow> bool" where
  "shows_axis limit remaining reset \<longleftrightarrow> limit > 0 \<or> remaining > 0 \<or> \<not> IsZero reset"

lemma headers_Write_core:
  "header_Get (headers_Write h ts d) LimitRequests = FormatInt (LimitRPM d)"
  "header_Get (headers_Write h ts d) RemainingRequests = FormatInt (RemainingRPM d)"
  "header_Get (headers_Write h ts d) LimitTokens = FormatInt (LimitTPM d)"
  "header_Get (headers_Write h ts d) RemainingTokens = FormatInt (RemainingTPM d)"
  by (simp_all add: headers_eval cong: if_cong)

lemma headers_Write_split:
  "header_Get (headers_Write h ts d) LimitInputTokens =
     (if shows_axis (LimitITPM d) (RemainingITPM d) (ResetITPM d) then FormatInt (LimitITPM d) else header_Get h LimitInputTokens)"
  "header_Get (headers_Write h ts d) RemainingInputTokens =
     (if shows_axis (LimitITPM d) (RemainingITPM d) (ResetITPM d) then FormatInt (RemainingITPM d) else header_Get h RemainingInputTokens)"
  "header_Get (headers_Write h ts d) LimitOutputTokens =
     (if shows_axis (LimitOTPM d) (RemainingOTPM d) (ResetOTPM d) then FormatInt (LimitOTPM d) else header_Get h LimitOutputTokens)"
  "header_Get (headers_Write h ts d) RemainingOutputTokens =
     (if shows_axis (LimitOTPM d) (RemainingOTPM d) (ResetOTPM d) then FormatInt (RemainingOTPM d) else header_Get h RemainingOutputTokens)"
  by (simp_all add: headers_eval shows_axis_def cong: if_cong)

lemma headers_Write_reset:
  "header_Get (headers_Write h ts d) ResetRequests =
     (if IsZero (ResetRPM d) then header_Get h ResetRequests else formatReset (ts 0) (ResetRPM d))"
  "header_Get (headers_Write h ts d) ResetTokens =
     (if IsZero (ResetTPM d) then header_Get h ResetTokens else formatReset (ts 1) (ResetTPM d))"
  "header_Get (headers_Write h ts d) ResetInputTokens =
     (if IsZero (ResetITPM d) then header_Get h ResetInputTokens else formatReset (ts 2) (ResetITPM d))"
  "header_Get (headers_Write h ts d) ResetOutputTokens =
     (if IsZero (ResetOTPM d) then header_Get h ResetOutputTokens else formatReset (ts 3) (ResetOTPM d))"
  by (simp_all add: headers_eval cong: if_cong)

lemma headers_Write_retry:
  "header_Get (headers_Write h ts d) RetryAfterHeader =
     (if RetryAfter d > 0 then FormatInt (max 1 (i64_quot (dur_round (RetryAfter d) Second) Second))
      else header_Get h RetryAfterHeader)"
  by (simp add: headers_eval max_def cong: if_cong)

lemma headers_Write_other:
  assumes "CanonicalHeaderKey k \<notin> set (map CanonicalHeaderKey all_names)"
  shows "header_Get (headers_Write h ts d) k = header_Get h k"
proof -
  have "CanonicalHeaderKey k \<noteq> CanonicalHeaderKey n" if "n \<in> set all_names" for n
    by (rule name_notin [OF assms that])
  then show ?thesis
    by (simp add: headers_Write_def Let_def all_names_def header_Get_Set_if
        if_distrib [of "\<lambda>h. header_Get h k"] cong: if_cong)
qed

section \<open>Seconds\<close>

lemma dur_round_secs:
  assumes "0 \<le> d" and "d \<le> 2 ^ 62"
  shows "dur_round d Second = Second * ((d + 500000000) div Second)"
proof -
  define q r where "q = d div Second" and "r = d mod Second"
  have d: "d = Second * q + r" by (simp add: q_def r_def)
  have r: "0 \<le> r" "r < 1000000000" by (simp_all add: r_def Second_def)
  have "(d + 500000000) div Second = q + (r + 500000000) div Second"
    by (simp add: d Second_def add.assoc)
  also have "(r + 500000000) div Second = (if r + r < 1000000000 then 0 else 1)"
    using r int_div_pos_eq [of "r + 500000000" Second 1 "r - 500000000"] by (simp add: Second_def)
  finally show ?thesis
    using assms r by (auto simp: dur_round_def Let_def r_def [symmetric] d Second_def)
qed

lemma round_seconds:
  assumes "0 \<le> d" and "d \<le> 2 ^ 62"
  shows "i64_quot (dur_round d Second) Second = (d + 500000000) div Second"
proof -
  have "0 \<le> (d + 500000000) div Second" using assms by (simp add: Second_def)
  then show ?thesis
    unfolding dur_round_secs [OF assms] by (auto simp: i64_quot_def sgn_if Second_def abs_mult)
qed

section \<open>What a client reads\<close>

definition reports :: "header \<Rightarrow> string \<Rightarrow> int64 \<Rightarrow> bool" where
  "reports h n v \<longleftrightarrow> ParseInt (header_Get h n) = (v, True)"

definition numbers_ok :: "Decision \<Rightarrow> bool" where
  "numbers_ok d \<longleftrightarrow> in64 (LimitRPM d) \<and> in64 (RemainingRPM d) \<and> in64 (LimitTPM d) \<and> in64 (RemainingTPM d)
     \<and> in64 (LimitITPM d) \<and> in64 (RemainingITPM d) \<and> in64 (LimitOTPM d) \<and> in64 (RemainingOTPM d)"

text \<open>
  C38 (a decision survives its headers). Whatever headers are already there, the limits and
  the remaining amounts that \<^verbatim>\<open>Write\<close> puts in read back as the numbers of the decision; the
  input and output headers are written exactly when the decision has something to say about
  that axis and are left alone otherwise, as is every header of another name.
\<close>

theorem headers_report:
  assumes "numbers_ok d"
  shows "let h' = headers_Write h ts d in
      reports h' LimitRequests (LimitRPM d) \<and> reports h' RemainingRequests (RemainingRPM d)
    \<and> reports h' LimitTokens (LimitTPM d) \<and> reports h' RemainingTokens (RemainingTPM d)
    \<and> (if shows_axis (LimitITPM d) (RemainingITPM d) (ResetITPM d)
       then reports h' LimitInputTokens (LimitITPM d) \<and> reports h' RemainingInputTokens (RemainingITPM d)
       else \<forall>n\<in>{LimitInputTokens, RemainingInputTokens, ResetInputTokens}. header_Get h' n = header_Get h n)
    \<and> (if shows_axis (LimitOTPM d) (RemainingOTPM d) (ResetOTPM d)
       then reports h' LimitOutputTokens (LimitOTPM d) \<and> reports h' RemainingOutputTokens (RemainingOTPM d)
       else \<forall>n\<in>{LimitOutputTokens, RemainingOutputTokens, ResetOutputTokens}. header_Get h' n = header_Get h n)
    \<and> (\<forall>k. CanonicalHeaderKey k \<notin> set (map CanonicalHeaderKey all_names) \<longrightarrow> header_Get h' k = header_Get h k)"
  using assms
  by (simp add: Let_def reports_def numbers_ok_def headers_Write_core headers_Write_split headers_Write_reset
      headers_Write_other shows_axis_def)

theorem headers_report_witness:
  "header_Get (headers_Write Map.empty (\<lambda>_. 0) (zero_Decision\<lparr>LimitRPM := 60, RemainingRPM := 59\<rparr>)) RemainingRequests = ''59''
   \<and> reports (headers_Write Map.empty (\<lambda>_. 0) (zero_Decision\<lparr>LimitRPM := 60, RemainingRPM := 59\<rparr>)) RemainingRequests 59"
  using headers_report [of "zero_Decision\<lparr>LimitRPM := 60, RemainingRPM := 59\<rparr>" Map.empty "\<lambda>_. 0"]
  by (simp add: Let_def numbers_ok_def zero_defs in64_def headers_Write_core FormatInt_def dec_nat.simps dec_digit_def)

text \<open>
  C37 (the header tells the client to wait long enough). A bucket of at most 250000 tokens per
  minute denies a cost that fits its capacity; the decision carries the reported waiting time, and
  its \<^verbatim>\<open>Retry-After\<close> header is read as a number of seconds. The same request made that
  many seconds after the denial, or later, is allowed if nothing else touched the bucket.
\<close>

theorem header_wait_admits:
  assumes "bucket_ok s" and "0 < LastMs s" and "LastMs s \<le> t" and "clock_ok t" and "clock_ok t'"
    and "Capacity s \<le> 250000" and "n \<le> Capacity s" and "\<not> ResAllowed (snd (TryConsume s t n))"
    and "RetryAfter d = ResRetryAfter (snd (TryConsume s t n))"
    and "reports (headers_Write h ts d) RetryAfterHeader secs" and "t + secs * 1000 \<le> t'"
  shows "1 \<le> secs \<and> ResAllowed (snd (TryConsume s t' n))"
proof -
  obtain k where k: "RetryAfter d = k * Second" "0 < k" "k < 200"
    and again: "\<And>t'. clock_ok t' \<Longrightarrow> t + k * 1000 \<le> t' \<Longrightarrow> ResAllowed (snd (TryConsume s t' n))"
    using denied_wait [OF assms(1-4) assms(6-8)] assms(9) by metis
  have "(k * Second + 500000000) div Second = k" by (simp add: Second_def)
  then have "i64_quot (dur_round (RetryAfter d) Second) Second = k"
    using k round_seconds [of "k * Second"] by (simp add: Second_def)
  then have "header_Get (headers_Write h ts d) RetryAfterHeader = FormatInt k"
    using k by (simp add: headers_Write_retry Second_def)
  moreover have "in64 k" using k by (simp add: in64_def)
  ultimately have "secs = k" using assms(10) by (simp add: reports_def)
  then show ?thesis using again assms(5,11) k by simp
qed

theorem header_wait_admits_witness:
  "1 \<le> (2::int) \<and> ResAllowed (snd (TryConsume \<lparr>Tokens = 1, LastMs = 1000, Capacity = 60\<rparr> 4500 3))"
proof (rule header_wait_admits [where t = 1000 and h = Map.empty and ts = "\<lambda>_. 0"
      and d = "zero_Decision\<lparr>RetryAfter := ResRetryAfter (snd (TryConsume \<lparr>Tokens = 1, LastMs = 1000, Capacity = 60\<rparr> 1000 3))\<rparr>"])
  show "bucket_ok \<lparr>Tokens = 1, LastMs = 1000, Capacity = 60\<rparr>"
    using f64_eps_pos by (simp add: bucket_ok_def in64_def)
  show "\<not> ResAllowed (snd (TryConsume \<lparr>Tokens = 1, LastMs = 1000, Capacity = 60\<rparr> 1000 3))"
    by (simp add: bucket_eval f64_add_def [of 1 0])
  have "ResRetryAfter (snd (TryConsume \<lparr>Tokens = 1, LastMs = 1000, Capacity = 60\<rparr> 1000 3)) = 2 * Second"
    by (simp add: bucket_eval f64_add_def [of 1 0] Second_def)
  then show "reports (headers_Write Map.empty (\<lambda>_. 0)
      (zero_Decision\<lparr>RetryAfter := ResRetryAfter (snd (TryConsume \<lparr>Tokens = 1, LastMs = 1000, Capacity = 60\<rparr> 1000 3))\<rparr>))
      RetryAfterHeader 2"
    using round_seconds [of "2 * Second"]
    by (simp add: reports_def headers_Write_retry Second_def in64_def)
qed (simp_all add: clock_ok_def in64_def)

text \<open>A waiting time that is not a whole number of seconds, as the deny cache reports one, is rounded
  to the nearest second: a client told 1.4 seconds reads 1 and comes back too early.\<close>

lemma retry_header_short:
  "header_Get (headers_Write Map.empty ts (zero_Decision\<lparr>RetryAfter := 1400 * Millisecond\<rparr>)) RetryAfterHeader = ''1''"
  using round_seconds [of "1400 * Millisecond"]
  by (simp add: headers_Write_retry Millisecond_def Second_def FormatInt_def dec_nat.simps dec_digit_def)

end
