(* ===== verification/Logx.thy ===== *)
theory Logx
  imports Go_Http Go_Format
begin

text \<open>
  Package \<^verbatim>\<open>logx\<close> (\<^verbatim>\<open>pkg/logx/deny.go\<close>): one JSON line per denial. The state of a logger is the list of
  writes it made. The hash function \<^verbatim>\<open>sha256.Sum256\<close> is the parameter \<open>sha256\<close>, from the bytes
  of the message to the bytes of the digest.
\<close>

type_synonym Logger = "string list"

definition logx_New :: Logger where
  "logx_New = []"

definition HashSubject :: "(string \<Rightarrow> int list) \<Rightarrow> string \<Rightarrow> string" where
  "HashSubject sha256 subject = hex_EncodeToString (take 8 (sha256 subject))"

record DenyEvent =
  evTime :: string
  evEvent :: string
  evSubjectHash :: string
  evModel :: string
  evLimitType :: string
  evRetryAfter :: string

definition deny_json :: "DenyEvent \<Rightarrow> jout" where
  "deny_json ev = OStruct [(''time'', OStr (evTime ev)), (''event'', OStr (evEvent ev)),
     (''subject_hash'', OStr (evSubjectHash ev)), (''model'', OStr (evModel ev)),
     (''limit_type'', OStr (evLimitType ev)), (''retry_after'', OStr (evRetryAfter ev))]"

definition log_Deny :: "(string \<Rightarrow> int list) \<Rightarrow> Logger \<Rightarrow> time \<Rightarrow> Key \<Rightarrow> Decision \<Rightarrow> Logger" where
  "log_Deny sha256 l now key d =
     (let ev = \<lparr>evTime = RFC3339Nano now, evEvent = ''rate_limit_deny'',
                evSubjectHash = HashSubject sha256 (Subject key), evModel = Model key,
                evLimitType = LimitType d, evRetryAfter = dur_String (RetryAfter d)\<rparr>
      in l @ [Marshal (deny_json ev) @ [NL]])"

text \<open>The raw subject stays out of the log: a line depends on it only through its hash.\<close>

lemma log_Deny_hides_subject:
  assumes "take 8 (sha256 (Subject key)) = take 8 (sha256 (Subject key'))" and "Model key = Model key'"
  shows "log_Deny sha256 l now key d = log_Deny sha256 l now key' d"
  using assms by (simp add: log_Deny_def HashSubject_def)

lemma length_log_Deny [simp]: "length (log_Deny sha256 l now key d) = Suc (length l)"
  by (simp add: log_Deny_def)

end
