(* ===== verification/Middleware.thy ===== *)
theory Middleware
  imports Limiter_Api Headers Logx
begin

text \<open>
  Packages \<^verbatim>\<open>httpmw\<close> (\<^verbatim>\<open>pkg/middleware/http/middleware.go\<close>) and \<^verbatim>\<open>grpcmw\<close>
  (\<^verbatim>\<open>pkg/middleware/grpc/interceptor.go\<close>): a check in front of a handler. A handler is a function on the
  response writer, the limiter and the log it may use; the request type \<open>'r\<close> is whatever the
  configured functions look at. \<open>ts\<close> are the clock readings of the header writer, \<open>now\<close> the
  one of the logger.
\<close>

record 'r MwConfig =
  cfgKey :: "'r \<Rightarrow> Key"
  cfgLimits :: "'r \<Rightarrow> Limits"
  cfgCost :: "'r \<Rightarrow> Cost"

type_synonym 'l world = "ResponseWriter \<times> 'l \<times> Logger"

section \<open>HTTP\<close>

definition http_reservationKey :: "string \<times> int" where
  "http_reservationKey = (''httpmw.ctxKey'', 1)"

definition withReservation :: "ctx \<Rightarrow> string \<Rightarrow> ctx" where
  "withReservation c rid = WithValue c http_reservationKey rid"

definition ReservationIDFromContext :: "ctx \<Rightarrow> string" where
  "ReservationIDFromContext c = (case c http_reservationKey of Some v \<Rightarrow> v | None \<Rightarrow> '''')"

definition deny_body :: "Decision \<Rightarrow> jout" where
  "deny_body d = OMap [(''error'', OMap [(''type'', OStr ''rate_limit''), (''limit_type'', OStr (LimitType d))]),
     (''reservation_id'', OStr (ReservationID d))]"

definition http_Middleware ::
  "'l LimiterOps \<Rightarrow> (string \<Rightarrow> int list) \<Rightarrow> 'r MwConfig \<Rightarrow> (ctx \<Rightarrow> 'r \<Rightarrow> 'l world \<Rightarrow> 'l world)
    \<Rightarrow> (nat \<Rightarrow> time) \<Rightarrow> time \<Rightarrow> ctx \<Rightarrow> 'r \<Rightarrow> 'l world \<Rightarrow> 'l world" where
  "http_Middleware ops sha256 cfg serve ts now c r world0 =
     (let (w, l, lg) = world0;
          key = cfgKey cfg r; limits = cfgLimits cfg r; cost = cfgCost cfg r;
          (res, l1) = apiCheck ops l key limits cost
      in case res of
           Inl err \<Rightarrow> (http_Error (error_text err) 500 w, l1, lg)
         | Inr d \<Rightarrow>
             (let w1 = w\<lparr>wHeader := headers_Write (wHeader w) ts d\<rparr>
              in if \<not> Allowed d then
                   (let lg1 = log_Deny sha256 lg now key d;
                        w2 = set_header ''Content-Type'' ''application/json'' w1;
                        w3 = WriteHeader 429 w2
                    in (encode_json (deny_body d) w3, l1, lg1))
                 else serve (withReservation c (ReservationID d)) r (w1, l1, lg)))"

section \<open>gRPC\<close>

datatype rpc_code = Internal | ResourceExhausted | InvalidArgument

datatype rpc_error = RpcError rpc_code string

definition grpc_reservationKey :: "string \<times> int" where
  "grpc_reservationKey = (''grpcmw.ctxKey'', 1)"

definition grpc_ReservationIDFromContext :: "ctx \<Rightarrow> string" where
  "grpc_ReservationIDFromContext c = (case c grpc_reservationKey of Some v \<Rightarrow> v | None \<Rightarrow> '''')"

definition UnaryInterceptor ::
  "'l LimiterOps \<Rightarrow> (string \<Rightarrow> int list) \<Rightarrow> (ctx \<times> 'q) MwConfig
    \<Rightarrow> (ctx \<Rightarrow> 'q \<Rightarrow> 'l \<times> Logger \<Rightarrow> (rpc_error, 'a) result \<times> 'l \<times> Logger)
    \<Rightarrow> time \<Rightarrow> ctx \<Rightarrow> 'q \<Rightarrow> 'l \<times> Logger \<Rightarrow> (rpc_error, 'a) result \<times> 'l \<times> Logger" where
  "UnaryInterceptor ops sha256 cfg handler now c req world0 =
     (let (l, lg) = world0;
          key = cfgKey cfg (c, req); limits = cfgLimits cfg (c, req); cost = cfgCost cfg (c, req);
          (res, l1) = apiCheck ops l key limits cost
      in case res of
           Inl err \<Rightarrow> (Inl (RpcError Internal (''valve: '' @ error_text err)), l1, lg)
         | Inr d \<Rightarrow>
             if \<not> Allowed d then
               (Inl (RpcError ResourceExhausted (''rate limited: '' @ LimitType d)), l1, log_Deny sha256 lg now key d)
             else handler (WithValue c grpc_reservationKey (ReservationID d)) req (l1, lg))"

section \<open>Only admitted requests pass\<close>

lemma reservation_round_trip [simp]:
  "ReservationIDFromContext (withReservation c rid) = rid"
  "grpc_ReservationIDFromContext (WithValue c grpc_reservationKey rid) = rid"
  by (simp_all add: ReservationIDFromContext_def withReservation_def grpc_ReservationIDFromContext_def WithValue_def)

lemma json_type_not_name [simp]:
  "CanonicalHeaderKey ''Content-Type'' \<notin> set (map CanonicalHeaderKey all_names)"
  by (simp add: canonical_names all_names_def) (code_simp)

text \<open>The refusal a client gets: a fresh answer with the status, the headers of the decision and a
  JSON body, or a plain 500.\<close>

definition refusal :: "(nat \<Rightarrow> time) \<Rightarrow> (error, Decision) result \<Rightarrow> ResponseWriter \<Rightarrow> bool" where
  "refusal ts r w \<longleftrightarrow>
     (case r of
        Inl err \<Rightarrow> wCode w = Some 500 \<and> wBody w = error_text err @ [NL]
      | Inr d \<Rightarrow> wCode w = Some 429 \<and> wBody w = Marshal (deny_body d) @ [NL]
          \<and> header_Get (wSent w) ''Content-Type'' = ''application/json''
          \<and> (\<forall>n\<in>set all_names. header_Get (wSent w) n = header_Get (headers_Write Map.empty ts d) n))"

text \<open>The line a denial leaves in the log: the subject appears only as the first eight bytes of its hash.\<close>

definition deny_line :: "(string \<Rightarrow> int list) \<Rightarrow> time \<Rightarrow> Key \<Rightarrow> Decision \<Rightarrow> string" where
  "deny_line sha256 now key d =
     Marshal (OStruct [(''time'', OStr (RFC3339Nano now)), (''event'', OStr ''rate_limit_deny''),
       (''subject_hash'', OStr (hex_EncodeToString (take 8 (sha256 (Subject key))))), (''model'', OStr (Model key)),
       (''limit_type'', OStr (LimitType d)), (''retry_after'', OStr (dur_String (RetryAfter d)))]) @ [NL]"

definition denial_log :: "(string \<Rightarrow> int list) \<Rightarrow> time \<Rightarrow> Key \<Rightarrow> (error, Decision) result \<Rightarrow> Logger" where
  "denial_log sha256 now key res = (case res of Inl err \<Rightarrow> [] | Inr d \<Rightarrow> [deny_line sha256 now key d])"

lemma log_Deny_line: "log_Deny sha256 lg now key d = lg @ [deny_line sha256 now key d]"
  by (simp add: log_Deny_def deny_line_def deny_json_def HashSubject_def)

text \<open>The status and the message of a refused RPC.\<close>

definition rpc_refusal :: "(error, Decision) result \<Rightarrow> rpc_error" where
  "rpc_refusal res =
     (case res of
        Inl err \<Rightarrow> RpcError Internal (''valve: '' @ error_text err)
      | Inr d \<Rightarrow> RpcError ResourceExhausted (''rate limited: '' @ LimitType d))"

lemma middleware_refused:
  fixes ops :: "'l LimiterOps"
  assumes "apiCheck ops l (cfgKey cfg r) (cfgLimits cfg r) (cfgCost cfg r) = (res, l1)" and "\<not> granted res"
  shows "\<exists>w. (\<forall>serve. http_Middleware ops sha256 cfg serve ts now c r (new_writer, l, lg) =
      (w, l1, lg @ denial_log sha256 now (cfgKey cfg r) res)) \<and> refusal ts res w"
proof (cases res)
  case (Inl err)
  then show ?thesis
    using assms by (simp add: http_Middleware_def refusal_def new_writer_def denial_log_def)
next
  case (Inr d)
  have other: "CanonicalHeaderKey ''Content-Type'' \<noteq> CanonicalHeaderKey n" if "n \<in> set all_names" for n
    using that json_type_not_name by (metis image_eqI set_map)
  show ?thesis
    using assms Inr other
    by (simp add: http_Middleware_def Let_def refusal_def new_writer_def header_Get_Set_if denial_log_def log_Deny_line) (metis other)
qed

lemma middleware_admitted:
  fixes ops :: "'l LimiterOps"
  assumes "apiCheck ops l (cfgKey cfg r) (cfgLimits cfg r) (cfgCost cfg r) = (Inr d, l1)" and "Allowed d"
  shows "http_Middleware ops sha256 cfg serve ts now c r (w, l, lg) =
    serve (withReservation c (ReservationID d)) r (w\<lparr>wHeader := headers_Write (wHeader w) ts d\<rparr>, l1, lg)"
  using assms by (simp add: http_Middleware_def)

lemma interceptor_admitted:
  fixes ops :: "'l LimiterOps"
  assumes "apiCheck ops l (cfgKey cfg (c, q)) (cfgLimits cfg (c, q)) (cfgCost cfg (c, q)) = (Inr d, l1)" and "Allowed d"
  shows "UnaryInterceptor ops sha256 cfg handler now c q (l, lg) =
    handler (WithValue c grpc_reservationKey (ReservationID d)) q (l1, lg)"
  using assms by (simp add: UnaryInterceptor_def)

lemma interceptor_refused:
  fixes ops :: "'l LimiterOps" and q :: 'q
  assumes "apiCheck ops l (cfgKey cfg (c, q)) (cfgLimits cfg (c, q)) (cfgCost cfg (c, q)) = (res, l1)" and "\<not> granted res"
  shows "UnaryInterceptor ops sha256 cfg handler now c q (l, lg) =
    (Inl (rpc_refusal res), l1, lg @ denial_log sha256 now (cfgKey cfg (c, q)) res)"
  using assms by (cases res) (simp_all add: UnaryInterceptor_def rpc_refusal_def denial_log_def log_Deny_line)

text \<open>The same configuration for an RPC, whose functions also get the context.\<close>

definition rpc_config :: "'r MwConfig \<Rightarrow> (ctx \<times> 'r) MwConfig" where
  "rpc_config cfg = \<lparr>cfgKey = (\<lambda>q. cfgKey cfg (snd q)), cfgLimits = (\<lambda>q. cfgLimits cfg (snd q)), cfgCost = (\<lambda>q. cfgCost cfg (snd q))\<rparr>"

context api_limiter
begin

text \<open>Seen through the contract: a refused request is turned away before the handler runs, and
  costs nothing.\<close>

lemma middleware_contract:
  assumes "linv l" and "apiCheck ops l (cfgKey cfg r) (cfgLimits cfg r) (cfgCost cfg r) = (res, l1)" and "\<not> granted res"
  shows "\<exists>w lg'. (\<forall>serve. http_Middleware ops sha256 cfg serve ts now c r (new_writer, l, lg) = (w, l1, lg')) \<and>
    refusal ts res w \<and> lg' = lg @ denial_log sha256 now (cfgKey cfg r) res \<and> view l1 = view l \<and> linv l1"
  using middleware_refused [OF assms(2,3), of sha256 ts now c lg] refused_free [OF assms(1)] check_keeps [OF assms(1)]
    assms(2,3) by (metis fst_conv snd_conv)

end

text \<open>
  C31 (only admitted requests reach the handler). Around a limiter without the fast path on the in-memory
  store, the HTTP middleware answers a request the check does not admit by itself, whatever the handler is: 429
  with the rate-limit headers and a JSON body for a denial, 500 for an error; no bucket changes. An admitted
  request goes to the handler with the headers prepared, nothing sent yet, and the reservation id in its
  context. The gRPC interceptor admits exactly the same requests and refuses the others with \<^verbatim>\<open>ResourceExhausted\<close> or
  \<^verbatim>\<open>Internal\<close> and the message of the code. Both add one line to the log for a denial, the same, with the time, the
  hash of the subject in place of the subject, the model, the limit type and the waiting time, and none otherwise.
\<close>

theorem middleware_gate:
  fixes cfg :: "'r MwConfig"
  assumes "direct l"
    and check: "apiCheck (limiter_ops memory_store ts ids) l (cfgKey cfg r) (cfgLimits cfg r) (cfgCost cfg r) = (res, l1)"
  shows "if granted res then
      \<exists>d c' c'' w'. res = Inr d
        \<and> (\<forall>serve. http_Middleware (limiter_ops memory_store ts ids) sha256 cfg serve hs now c r (new_writer, l, lg)
             = serve c' r (w', l1, lg))
        \<and> (\<forall>handler :: ctx \<Rightarrow> 'r \<Rightarrow> Store Limiter \<times> Logger \<Rightarrow> (rpc_error, 'a) result \<times> Store Limiter \<times> Logger.
             UnaryInterceptor (limiter_ops memory_store ts ids) sha256 (rpc_config cfg) handler now c r (l, lg)
             = handler c'' r (l1, lg))
        \<and> ReservationIDFromContext c' = ReservationID d \<and> grpc_ReservationIDFromContext c'' = ReservationID d
        \<and> w' = new_writer\<lparr>wHeader := headers_Write Map.empty hs d\<rparr>
    else
      bucket_view l1 = bucket_view l
        \<and> (\<exists>w. (\<forall>serve. http_Middleware (limiter_ops memory_store ts ids) sha256 cfg serve hs now c r (new_writer, l, lg)
               = (w, l1, lg @ denial_log sha256 now (cfgKey cfg r) res))
             \<and> refusal hs res w)
        \<and> (\<forall>handler :: ctx \<Rightarrow> 'r \<Rightarrow> Store Limiter \<times> Logger \<Rightarrow> (rpc_error, 'a) result \<times> Store Limiter \<times> Logger.
             UnaryInterceptor (limiter_ops memory_store ts ids) sha256 (rpc_config cfg) handler now c r (l, lg)
             = (Inl (rpc_refusal res), l1, lg @ denial_log sha256 now (cfgKey cfg r) res))"
proof (cases "granted res")
  case True
  then obtain d where d: "res = Inr d" "Allowed d" by (cases res) auto
  let ?c1 = "withReservation c (ReservationID d)" and ?c2 = "WithValue c grpc_reservationKey (ReservationID d)"
  let ?w = "new_writer\<lparr>wHeader := headers_Write Map.empty hs d\<rparr>"
  have http: "http_Middleware (limiter_ops memory_store ts ids) sha256 cfg serve hs now c r (new_writer, l, lg) =
      serve ?c1 r (?w, l1, lg)" for serve
    by (simp only: middleware_admitted [OF check [unfolded d(1)] d(2)]) (simp add: new_writer_def)
  have rpc: "UnaryInterceptor (limiter_ops memory_store ts ids) sha256 (rpc_config cfg) handler now c r (l, lg) =
      handler ?c2 r (l1, lg)"
    for handler :: "ctx \<Rightarrow> 'r \<Rightarrow> Store Limiter \<times> Logger \<Rightarrow> (rpc_error, 'a) result \<times> Store Limiter \<times> Logger"
    using check d by (intro interceptor_admitted) (simp_all add: rpc_config_def)
  show ?thesis
    using True d http rpc
    by (simp only: if_True) (rule exI [of _ d], rule exI [of _ ?c1], rule exI [of _ ?c2], rule exI [of _ ?w], simp)
next
  case False
  have rpc: "apiCheck (limiter_ops memory_store ts ids) l (cfgKey (rpc_config cfg) (c, r))
      (cfgLimits (rpc_config cfg) (c, r)) (cfgCost (rpc_config cfg) (c, r)) = (res, l1)"
    using check by (simp add: rpc_config_def)
  show ?thesis
    using False direct.middleware_contract [OF assms False, of sha256 hs now c lg]
      interceptor_refused [OF rpc False, where 'a = 'a, of sha256 _ now lg] by (auto simp: rpc_config_def)
qed

definition ex_cfg :: "unit MwConfig" where
  "ex_cfg = \<lparr>cfgKey = (\<lambda>_. ex_key), cfgLimits = (\<lambda>_. ex_limits), cfgCost = (\<lambda>_. ex_cost\<lparr>CTokens := 500\<rparr>)\<rparr>"

theorem middleware_gate_witness:
  "bucket_view (snd (lim_Check memory_store (lim_New mem_New []) (\<lambda>_. 1000000000) (\<lambda>_. Inr ''r'')
      ex_key ex_limits (ex_cost\<lparr>CTokens := 500\<rparr>))) = bucket_view (lim_New mem_New [])"
proof -
  let ?ops = "limiter_ops memory_store (\<lambda>_. 1000000000) (\<lambda>_. Inr ''r'')" and ?l = "lim_New mem_New []"
  obtain res l1 where c: "lim_Check memory_store ?l (\<lambda>_. 1000000000) (\<lambda>_. Inr ''r'')
      ex_key ex_limits (ex_cost\<lparr>CTokens := 500\<rparr>) = (res, l1)" by fastforce
  have ng: "\<not> granted res"
    using c by (auto simp: lim_New_def lim_Check_def checkDirect_def memory_store_def Validate_def
        store_eval ex_defs bucket_eval split: prod.splits sum.splits)
  have a: "apiCheck ?ops ?l (cfgKey ex_cfg ()) (cfgLimits ex_cfg ()) (cfgCost ex_cfg ()) = (res, l1)"
    using c by (simp add: limiter_ops_def ex_cfg_def)
  have d: "direct ?l" by (simp add: direct_def lim_New_def)
  show ?thesis using middleware_gate [OF d a, where 'a = unit] ng c by auto
qed

end
