(* ===== verification/Observed.thy ===== *)
theory Observed
  imports Limiter_Api Go_Format
begin

text \<open>
  Package \<^verbatim>\<open>metrics\<close> (\<^verbatim>\<open>pkg/metrics/metrics.go\<close>): a limiter that passes every call on and reports to
  Prometheus. Prometheus is not part of the program: the wrapper's state keeps the calls made to
  its instruments, in order. A check reads the clock before and after the inner call.
\<close>

datatype metric =
    ChecksInc string string
  | SettlesInc string
  | RefundsInc
  | DurObserve float64
  | OvershootAdd float64
  | StoreErrsInc

text \<open>The instruments \<^verbatim>\<open>New\<close> registers, by name and label names.\<close>

type_synonym instrument = "string \<times> string list"

text \<open>\<^verbatim>\<open>hits\<close> is read when the metrics are collected: it is a reader of the state of the inner limiter at
  that moment.\<close>

record 'l ObservedLimiter =
  obInner :: 'l
  obHits :: "('l \<Rightarrow> float64) option"
  obRegistered :: "instrument list"
  obEvents :: "metric list"

definition WithHitRatio :: "('l \<Rightarrow> float64) \<Rightarrow> 'l ObservedLimiter \<Rightarrow> 'l ObservedLimiter" where
  "WithHitRatio p ob = ob\<lparr>obHits := Some p\<rparr>"

definition counters :: "instrument list" where
  "counters = [(''valve_checks_total'', [''result'', ''limit_type'']), (''valve_settles_total'', [''result'']),
     (''valve_refunds_total'', []), (''valve_check_duration_seconds'', []), (''valve_overshoot_tokens_total'', []),
     (''valve_store_errors_total'', [])]"

definition metrics_New :: "'l \<Rightarrow> ('l ObservedLimiter \<Rightarrow> 'l ObservedLimiter) list \<Rightarrow> 'l ObservedLimiter" where
  "metrics_New inner opts =
     (let o1 = fold (\<lambda>f ob. f ob) opts \<lparr>obInner = inner, obHits = None, obRegistered = counters, obEvents = []\<rparr>
      in o1\<lparr>obRegistered := obRegistered o1 @ [(''valve_lease_hit_ratio'', [])]\<rparr>)"

text \<open>The value of the gauge \<^verbatim>\<open>valve_lease_hit_ratio\<close>.\<close>

definition leaseGauge :: "'l ObservedLimiter \<Rightarrow> float64" where
  "leaseGauge ob = (case obHits ob of None \<Rightarrow> 0 | Some p \<Rightarrow> p (obInner ob))"

definition emit :: "metric list \<Rightarrow> 'l ObservedLimiter \<Rightarrow> 'l ObservedLimiter" where
  "emit ms ob = ob\<lparr>obEvents := obEvents ob @ ms\<rparr>"

definition ob_Check ::
  "'l LimiterOps \<Rightarrow> time \<Rightarrow> time \<Rightarrow> 'l ObservedLimiter \<Rightarrow> Key \<Rightarrow> Limits \<Rightarrow> Cost
    \<Rightarrow> (error, Decision) result \<times> 'l ObservedLimiter" where
  "ob_Check ops start done ob key limits cost =
     (let (r, inner) = apiCheck ops (obInner ob) key limits cost;
          ob1 = emit [DurObserve (dur_Seconds (time_sub done start))] (ob\<lparr>obInner := inner\<rparr>)
      in case r of
           Inl err \<Rightarrow> (Inl err, emit [StoreErrsInc] ob1)
         | Inr d \<Rightarrow>
             (let result = (if Allowed d then ''allow'' else ''deny'');
                  lt = (if LimitType d = '''' then ''none'' else LimitType d)
              in (Inr d, emit [ChecksInc result lt] ob1)))"

definition ob_Settle ::
  "'l LimiterOps \<Rightarrow> 'l ObservedLimiter \<Rightarrow> string \<Rightarrow> int64 \<Rightarrow> (error, Decision) result \<times> 'l ObservedLimiter" where
  "ob_Settle ops ob rid actual =
     (let (r, inner) = apiSettle ops (obInner ob) rid actual;
          ob1 = ob\<lparr>obInner := inner\<rparr>
      in case r of
           Inl err \<Rightarrow> (Inl err, emit [StoreErrsInc, SettlesInc ''error''] ob1)
         | Inr d \<Rightarrow>
             (let ob2 = emit [SettlesInc ''ok''] ob1
              in (Inr d, if OvershootTPM d > 0 then emit [OvershootAdd (f64_of_int (OvershootTPM d))] ob2 else ob2)))"

definition ob_SettleIO ::
  "'l LimiterOps \<Rightarrow> 'l ObservedLimiter \<Rightarrow> string \<Rightarrow> int64 \<Rightarrow> int64 \<Rightarrow> (error, Decision) result \<times> 'l ObservedLimiter" where
  "ob_SettleIO ops ob rid actualInput actualOutput =
     (let (r, inner) = apiSettleIO ops (obInner ob) rid actualInput actualOutput;
          ob1 = ob\<lparr>obInner := inner\<rparr>
      in case r of
           Inl err \<Rightarrow> (Inl err, emit [StoreErrsInc, SettlesInc ''error''] ob1)
         | Inr d \<Rightarrow>
             (let ob2 = emit [SettlesInc ''ok''] ob1;
                  ob3 = (if OvershootITPM d > 0 then emit [OvershootAdd (f64_of_int (OvershootITPM d))] ob2 else ob2);
                  ob4 = (if OvershootOTPM d > 0 then emit [OvershootAdd (f64_of_int (OvershootOTPM d))] ob3 else ob3)
              in (Inr d, ob4)))"

definition ob_Refund :: "'l LimiterOps \<Rightarrow> 'l ObservedLimiter \<Rightarrow> string \<Rightarrow> error option \<times> 'l ObservedLimiter" where
  "ob_Refund ops ob rid =
     (let (err, inner) = apiRefund ops (obInner ob) rid;
          ob1 = emit [RefundsInc] (ob\<lparr>obInner := inner\<rparr>)
      in (err, if err \<noteq> None then emit [StoreErrsInc] ob1 else ob1))"

definition observed_ops :: "'l LimiterOps \<Rightarrow> time \<Rightarrow> time \<Rightarrow> 'l ObservedLimiter LimiterOps" where
  "observed_ops ops start done = \<lparr>apiCheck = ob_Check ops start done, apiSettle = ob_Settle ops,
     apiSettleIO = ob_SettleIO ops, apiRefund = ob_Refund ops\<rparr>"

section \<open>Every event has its instrument\<close>

text \<open>The instrument an event goes to, with the values given for its labels. The client library panics when
  the number of values is not the number of labels, or when a name is registered twice.\<close>

fun metric_target :: "metric \<Rightarrow> string \<times> string list" where
  "metric_target (ChecksInc result lt) = (''valve_checks_total'', [result, lt])"
| "metric_target (SettlesInc result) = (''valve_settles_total'', [result])"
| "metric_target RefundsInc = (''valve_refunds_total'', [])"
| "metric_target (DurObserve x) = (''valve_check_duration_seconds'', [])"
| "metric_target (OvershootAdd x) = (''valve_overshoot_tokens_total'', [])"
| "metric_target StoreErrsInc = (''valve_store_errors_total'', [])"

lemma metrics_registered:
  "distinct (map fst (obRegistered (metrics_New l [])))"
  "\<exists>labels. (fst (metric_target e), labels) \<in> set counters \<and> length labels = length (snd (metric_target e))"
  by (simp add: metrics_New_def counters_def) (cases e; force simp: counters_def)

section \<open>The wrapper is transparent\<close>

lemma emit_simps [simp]:
  "obInner (emit ms ob) = obInner ob" "obHits (emit ms ob) = obHits ob" "obEvents (emit ms ob) = obEvents ob @ ms"
  "obRegistered (emit ms ob) = obRegistered ob"
  by (simp_all add: emit_def)

lemma observed_result [simp]:
  "fst (ob_Check ops t0 t1 ob k lm c) = fst (apiCheck ops (obInner ob) k lm c)"
  "fst (ob_Settle ops ob rid n) = fst (apiSettle ops (obInner ob) rid n)"
  "fst (ob_SettleIO ops ob rid n m) = fst (apiSettleIO ops (obInner ob) rid n m)"
  "fst (ob_Refund ops ob rid) = fst (apiRefund ops (obInner ob) rid)"
  by (simp_all add: ob_Check_def ob_Settle_def ob_SettleIO_def ob_Refund_def Let_def split: prod.splits sum.splits)

lemma observed_inner [simp]:
  "obInner (snd (ob_Check ops t0 t1 ob k lm c)) = snd (apiCheck ops (obInner ob) k lm c)"
  "obInner (snd (ob_Settle ops ob rid n)) = snd (apiSettle ops (obInner ob) rid n)"
  "obInner (snd (ob_SettleIO ops ob rid n m)) = snd (apiSettleIO ops (obInner ob) rid n m)"
  "obInner (snd (ob_Refund ops ob rid)) = snd (apiRefund ops (obInner ob) rid)"
  by (simp_all add: ob_Check_def ob_Settle_def ob_SettleIO_def ob_Refund_def Let_def split: prod.splits sum.splits)

context api_limiter
begin

text \<open>A limiter with metrics is a limiter with the same contract.\<close>

lemma observed_contract:
  "api_limiter (observed_ops ops t0 t1) (\<lambda>ob. linv (obInner ob)) (\<lambda>ob. view (obInner ob))"
  by unfold_locales
    (simp_all add: observed_ops_def check_keeps settle_keeps settle_io_keeps refund_keeps invalid_refused
      refused_free refused_no_id)

end

interpretation observed: api_limiter "observed_ops (limiter_ops memory_store ts ids) t0 t1"
  "\<lambda>ob. direct (obInner ob)" "\<lambda>ob. bucket_view (obInner ob)" for ts ids t0 t1
  by (rule direct.observed_contract)

section \<open>Sequences of calls\<close>

text \<open>A program that uses the limiter: a sequence of calls, with the instants around each.\<close>

fun do_call :: "'l LimiterOps \<Rightarrow> call \<Rightarrow> 'l \<Rightarrow> ((error, Decision) result + error option) \<times> 'l" where
  "do_call ops (CallCheck k lm c) l = (let (r, l') = apiCheck ops l k lm c in (Inl r, l'))"
| "do_call ops (CallSettle rid n) l = (let (r, l') = apiSettle ops l rid n in (Inl r, l'))"
| "do_call ops (CallSettleIO rid n m) l = (let (r, l') = apiSettleIO ops l rid n m in (Inl r, l'))"
| "do_call ops (CallRefund rid) l = (let (r, l') = apiRefund ops l rid in (Inr r, l'))"

fun do_calls :: "'l LimiterOps \<Rightarrow> call list \<Rightarrow> 'l \<Rightarrow> ((error, Decision) result + error option) list \<times> 'l" where
  "do_calls ops [] l = ([], l)"
| "do_calls ops (c # cs) l = (let (r, l') = do_call ops c l; (rs, l'') = do_calls ops cs l' in (r # rs, l''))"

definition failed :: "(error, Decision) result + error option \<Rightarrow> bool" where
  "failed r \<longleftrightarrow> (case r of Inl (Inl e) \<Rightarrow> True | Inl (Inr d) \<Rightarrow> False | Inr e \<Rightarrow> e \<noteq> None)"

definition admitted :: "call \<Rightarrow> (error, Decision) result + error option \<Rightarrow> bool" where
  "admitted c r \<longleftrightarrow> (case c of CallCheck k lm co \<Rightarrow> (case r of Inl x \<Rightarrow> granted x | Inr e \<Rightarrow> False) | _ \<Rightarrow> False)"

definition overshoot_of :: "call \<Rightarrow> (error, Decision) result + error option \<Rightarrow> rat" where
  "overshoot_of c r =
     (case r of
        Inl (Inr d) \<Rightarrow>
          (case c of
             CallSettle rid n \<Rightarrow> f64_of_int (max 0 (OvershootTPM d))
           | CallSettleIO rid n m \<Rightarrow> f64_of_int (max 0 (OvershootITPM d)) + f64_of_int (max 0 (OvershootOTPM d))
           | _ \<Rightarrow> 0)
      | _ \<Rightarrow> 0)"

definition is_allow :: "metric \<Rightarrow> bool" where
  "is_allow e \<longleftrightarrow> (case e of ChecksInc r lt \<Rightarrow> r = ''allow'' | _ \<Rightarrow> False)"

text \<open>The labels a check and a settlement are counted under; a check that fails has none.\<close>

definition check_labels :: "call \<Rightarrow> (error, Decision) result + error option \<Rightarrow> (string \<times> string) option" where
  "check_labels c r =
     (case c of
        CallCheck k lm co \<Rightarrow>
          (case r of
             Inl (Inr d) \<Rightarrow> Some (if Allowed d then ''allow'' else ''deny'', if LimitType d = '''' then ''none'' else LimitType d)
           | _ \<Rightarrow> None)
      | _ \<Rightarrow> None)"

definition settle_label :: "call \<Rightarrow> (error, Decision) result + error option \<Rightarrow> string option" where
  "settle_label c r =
     (case c of
        CallSettle rid n \<Rightarrow> Some (if failed r then ''error'' else ''ok'')
      | CallSettleIO rid n m \<Rightarrow> Some (if failed r then ''error'' else ''ok'')
      | _ \<Rightarrow> None)"

definition is_check :: "call \<Rightarrow> bool" where
  "is_check c \<longleftrightarrow> (case c of CallCheck k lm co \<Rightarrow> True | _ \<Rightarrow> False)"

definition durations :: "metric list \<Rightarrow> float64 list" where
  "durations es = concat (map (\<lambda>e. case e of DurObserve x \<Rightarrow> [x] | _ \<Rightarrow> []) es)"

lemma durations_append [simp]: "durations (xs @ ys) = durations xs @ durations ys"
  by (simp add: durations_def)

definition is_refund :: "call \<Rightarrow> bool" where
  "is_refund c \<longleftrightarrow> (case c of CallRefund rid \<Rightarrow> True | _ \<Rightarrow> False)"

definition overshoot_added :: "metric list \<Rightarrow> rat" where
  "overshoot_added es = sum_list (map (\<lambda>e. case e of OvershootAdd x \<Rightarrow> x | _ \<Rightarrow> 0) es)"

definition counted :: "(metric \<Rightarrow> bool) \<Rightarrow> metric list \<Rightarrow> nat" where
  "counted P es = length (filter P es)"

lemma counted_append [simp]: "counted P (xs @ ys) = counted P xs + counted P ys"
  by (simp add: counted_def)

lemma overshoot_added_append [simp]: "overshoot_added (xs @ ys) = overshoot_added xs + overshoot_added ys"
  by (simp add: overshoot_added_def)

lemma do_call_observed:
  defines "after \<equiv> \<lambda>ops t0 t1 c ob. snd (do_call (observed_ops ops t0 t1) c ob)"
  shows "fst (do_call (observed_ops ops t0 t1) c ob) = fst (do_call ops c (obInner ob))"
    and "obInner (after ops t0 t1 c ob) = snd (do_call ops c (obInner ob))"
    and "counted is_allow (obEvents (after ops t0 t1 c ob)) =
       counted is_allow (obEvents ob) + (if admitted c (fst (do_call ops c (obInner ob))) then 1 else 0)"
    and "counted ((=) (ChecksInc x y)) (obEvents (after ops t0 t1 c ob)) =
       counted ((=) (ChecksInc x y)) (obEvents ob) + (if check_labels c (fst (do_call ops c (obInner ob))) = Some (x, y) then 1 else 0)"
    and "counted ((=) (SettlesInc x)) (obEvents (after ops t0 t1 c ob)) =
       counted ((=) (SettlesInc x)) (obEvents ob) + (if settle_label c (fst (do_call ops c (obInner ob))) = Some x then 1 else 0)"
    and "durations (obEvents (after ops t0 t1 c ob)) =
       durations (obEvents ob) @ (if is_check c then [dur_Seconds (time_sub t1 t0)] else [])"
    and "counted ((=) StoreErrsInc) (obEvents (after ops t0 t1 c ob)) =
       counted ((=) StoreErrsInc) (obEvents ob) + (if failed (fst (do_call ops c (obInner ob))) then 1 else 0)"
    and "counted ((=) RefundsInc) (obEvents (after ops t0 t1 c ob)) =
       counted ((=) RefundsInc) (obEvents ob) + (if is_refund c then 1 else 0)"
    and "overshoot_added (obEvents (after ops t0 t1 c ob)) =
       overshoot_added (obEvents ob) + overshoot_of c (fst (do_call ops c (obInner ob)))"
  by (cases c; auto simp: after_def observed_ops_def ob_Check_def ob_Settle_def ob_SettleIO_def ob_Refund_def Let_def
      admitted_def failed_def is_refund_def overshoot_of_def counted_def is_allow_def overshoot_added_def max_def
      check_labels_def settle_label_def is_check_def durations_def
      split: prod.splits sum.splits)+

text \<open>
  C35 (metrics do not change the limiter, and count it right). Over any sequence of calls, the
  wrapped limiter returns what the limiter itself returns and leaves it in the same state;
  meanwhile \<^verbatim>\<open>valve_checks_total\<close> grows, for every pair of labels, by the number of checks that were answered with that
  result and that limit type (\<^verbatim>\<open>none\<close> if the decision has none), so with result \<^verbatim>\<open>allow\<close> by the number of admitted
  checks; \<^verbatim>\<open>valve_settles_total\<close> grows by the settlements that succeeded (\<^verbatim>\<open>ok\<close>) and that failed (\<^verbatim>\<open>error\<close>),
  \<^verbatim>\<open>valve_check_duration_seconds\<close> observes the elapsed time once per check, failed ones included,
  \<^verbatim>\<open>valve_refunds_total\<close> grows by the number of refund calls and \<^verbatim>\<open>valve_overshoot_tokens_total\<close> by the overshoot
  the settlements report. \<^verbatim>\<open>valve_store_errors_total\<close> grows by the number of failed calls whatever the error is,
  a mistake of the caller included, although its help text speaks of errors of the store.
\<close>

theorem observed_transparent:
  "let (rs, l') = do_calls ops cs (obInner ob);
       (rs', ob') = do_calls (observed_ops ops t0 t1) cs ob
   in rs' = rs \<and> obInner ob' = l'
    \<and> counted is_allow (obEvents ob') = counted is_allow (obEvents ob) + length (filter (\<lambda>(c, r). admitted c r) (zip cs rs))
    \<and> (\<forall>x y. counted ((=) (ChecksInc x y)) (obEvents ob') =
         counted ((=) (ChecksInc x y)) (obEvents ob) + length (filter (\<lambda>(c, r). check_labels c r = Some (x, y)) (zip cs rs)))
    \<and> (\<forall>x. counted ((=) (SettlesInc x)) (obEvents ob') =
         counted ((=) (SettlesInc x)) (obEvents ob) + length (filter (\<lambda>(c, r). settle_label c r = Some x) (zip cs rs)))
    \<and> durations (obEvents ob') = durations (obEvents ob) @ replicate (length (filter is_check cs)) (dur_Seconds (time_sub t1 t0))
    \<and> counted ((=) StoreErrsInc) (obEvents ob') = counted ((=) StoreErrsInc) (obEvents ob) + length (filter failed rs)
    \<and> counted ((=) RefundsInc) (obEvents ob') = counted ((=) RefundsInc) (obEvents ob) + length (filter is_refund cs)
    \<and> overshoot_added (obEvents ob') = overshoot_added (obEvents ob) + sum_list (map (\<lambda>(c, r). overshoot_of c r) (zip cs rs))"
proof (induction cs arbitrary: ob)
  case (Cons c cs)
  note step = do_call_observed [where ops = ops and ?t0.0 = t0 and ?t1.0 = t1 and c = c and ob = ob]
  show ?case
    using Cons.IH [of "snd (do_call (observed_ops ops t0 t1) c ob)"] step
    by (simp add: Let_def split_beta)
qed simp

end
