(* ===== verification/Valved.thy ===== *)
theory Valved
  imports Middleware Observed Lease_Pool
begin

text \<open>
  The daemon \<^verbatim>\<open>cmd/valved\<close>: its conversions (\<^verbatim>\<open>convert.go\<close>), the HTTP API (\<^verbatim>\<open>http.go\<close>), the gRPC
  service (\<^verbatim>\<open>grpc.go\<close>) and the settings read from the environment (\<^verbatim>\<open>main.go\<close>). The messages of
  the generated package \<^verbatim>\<open>valvepb\<close> are records with the fields of \<^verbatim>\<open>valve.proto\<close>; an absent
  message or an unset optional field is \<open>None\<close>. Listening, serving and shutting down are not
  modelled.
\<close>

section \<open>Conversions\<close>

record PbKey =
  pbSubject :: string
  pbModel :: string

record PbLimits =
  pbRequestsPerMinute :: int64
  pbTokensPerMinute :: int64
  pbInputTokensPerMinute :: int64
  pbOutputTokensPerMinute :: int64

record PbCost =
  pbRequests :: int64
  pbTokens :: int64
  pbInputTokens :: int64
  pbOutputTokens :: int64

record PbDecision =
  pbAllowed :: bool
  pbLimitType :: string
  pbRemainingRpm :: int64
  pbRemainingTpm :: int64
  pbRemainingItpm :: int64
  pbRemainingOtpm :: int64
  pbLimitRpm :: int64
  pbLimitTpm :: int64
  pbLimitItpm :: int64
  pbLimitOtpm :: int64
  pbRetryAfterMs :: int64
  pbReservationId :: string
  pbOvershootTpm :: int64
  pbOvershootItpm :: int64
  pbOvershootOtpm :: int64

definition decisionToPB :: "Decision \<Rightarrow> PbDecision" where
  "decisionToPB d = \<lparr>pbAllowed = Allowed d, pbLimitType = LimitType d,
     pbRemainingRpm = RemainingRPM d, pbRemainingTpm = RemainingTPM d,
     pbRemainingItpm = RemainingITPM d, pbRemainingOtpm = RemainingOTPM d,
     pbLimitRpm = LimitRPM d, pbLimitTpm = LimitTPM d, pbLimitItpm = LimitITPM d, pbLimitOtpm = LimitOTPM d,
     pbRetryAfterMs = dur_ms (RetryAfter d), pbReservationId = ReservationID d,
     pbOvershootTpm = OvershootTPM d, pbOvershootItpm = OvershootITPM d, pbOvershootOtpm = OvershootOTPM d\<rparr>"

definition decisionFromHTTP :: "Decision \<Rightarrow> (string \<times> jout) list" where
  "decisionFromHTTP d =
     [(''allowed'', OBool (Allowed d)), (''limit_type'', OStr (LimitType d)),
      (''remaining_rpm'', OInt (RemainingRPM d)), (''remaining_tpm'', OInt (RemainingTPM d)),
      (''limit_rpm'', OInt (LimitRPM d)), (''limit_tpm'', OInt (LimitTPM d)),
      (''retry_after_ms'', OInt (dur_ms (RetryAfter d))), (''reservation_id'', OStr (ReservationID d)),
      (''overshoot_tpm'', OInt (OvershootTPM d)),
      (''reset_rpm'', OStr (RFC3339Nano (ResetRPM d))), (''reset_tpm'', OStr (RFC3339Nano (ResetTPM d)))]
     @ (if LimitITPM d > 0 \<or> RemainingITPM d > 0 \<or> OvershootITPM d > 0 \<or> \<not> IsZero (ResetITPM d) then
          [(''remaining_itpm'', OInt (RemainingITPM d)), (''limit_itpm'', OInt (LimitITPM d)),
           (''overshoot_itpm'', OInt (OvershootITPM d)), (''reset_itpm'', OStr (RFC3339Nano (ResetITPM d)))]
        else [])
     @ (if LimitOTPM d > 0 \<or> RemainingOTPM d > 0 \<or> OvershootOTPM d > 0 \<or> \<not> IsZero (ResetOTPM d) then
          [(''remaining_otpm'', OInt (RemainingOTPM d)), (''limit_otpm'', OInt (LimitOTPM d)),
           (''overshoot_otpm'', OInt (OvershootOTPM d)), (''reset_otpm'', OStr (RFC3339Nano (ResetOTPM d)))]
        else [])"

definition keyFromPB :: "PbKey option \<Rightarrow> Key" where
  "keyFromPB k = (case k of None \<Rightarrow> zero_Key | Some k \<Rightarrow> \<lparr>Subject = pbSubject k, Model = pbModel k\<rparr>)"

definition limitsFromPB :: "PbLimits option \<Rightarrow> Limits" where
  "limitsFromPB l =
     (case l of
        None \<Rightarrow> zero_Limits
      | Some l \<Rightarrow> \<lparr>RequestsPerMinute = pbRequestsPerMinute l, TokensPerMinute = pbTokensPerMinute l,
          InputTokensPerMinute = pbInputTokensPerMinute l, OutputTokensPerMinute = pbOutputTokensPerMinute l\<rparr>)"

definition costFromPB :: "PbCost option \<Rightarrow> Cost" where
  "costFromPB c =
     (case c of
        None \<Rightarrow> zero_Cost
      | Some c \<Rightarrow> \<lparr>Requests = pbRequests c, CTokens = pbTokens c,
          InputTokens = pbInputTokens c, OutputTokens = pbOutputTokens c\<rparr>)"

section \<open>Request bodies\<close>

text \<open>\<^verbatim>\<open>json.NewDecoder(r.Body).Decode\<close> reads the first value of the body and ignores what follows it;
  only an object or \<^verbatim>\<open>null\<close> can be stored into the structs below.\<close>

fun parse_steps :: "expect \<times> frame list \<Rightarrow> tok list \<Rightarrow> (expect \<times> frame list) option" where
  "parse_steps p [] = Some p"
| "parse_steps p (t # ts) = (case parse_step p t of None \<Rightarrow> None | Some p' \<Rightarrow> parse_steps p' ts)"

fun first_value :: "lexst \<Rightarrow> expect \<times> frame list \<Rightarrow> string \<Rightarrow> json option" where
  "first_value q p [] = (case lex_from q [] of None \<Rightarrow> None | Some ts \<Rightarrow> parse_from p ts)"
| "first_value q p (c # cs) =
     (case lex_step q c of
        None \<Rightarrow> None
      | Some (q', ts) \<Rightarrow>
          (case parse_steps p ts of
             None \<Rightarrow> None
           | Some p' \<Rightarrow> (case fst p' of EDone raw j \<Rightarrow> Some j | _ \<Rightarrow> first_value q' p' cs)))"

type_synonym members = "(string \<times> string \<times> json) list"

definition decode_members :: "string \<Rightarrow> members option" where
  "decode_members body =
     (case first_value LOut (EVal, []) body of Some JNull \<Rightarrow> Some [] | Some (JObj ms) \<Rightarrow> Some ms | _ \<Rightarrow> None)"

text \<open>The members of the objects stored into a nested struct, in order, and whether all values
  were objects or \<^verbatim>\<open>null\<close>.\<close>

definition sub_members :: "string \<Rightarrow> members \<Rightarrow> members \<times> bool" where
  "sub_members name ms =
     (concat (map (\<lambda>(r, j). case j of JObj ns \<Rightarrow> ns | _ \<Rightarrow> []) (field name ms)),
      \<forall>(r, j)\<in>set (field name ms). (case j of JObj ns \<Rightarrow> True | JNull \<Rightarrow> True | _ \<Rightarrow> False))"

definition int_field :: "string \<Rightarrow> members \<Rightarrow> int64 \<times> bool" where
  "int_field name ms =
     foldl (\<lambda>(v, ok) (r, j). case store_int64 v j of None \<Rightarrow> (v, False) | Some v' \<Rightarrow> (v', ok)) (0, True) (field name ms)"

definition str_field :: "string \<Rightarrow> members \<Rightarrow> string \<times> bool" where
  "str_field name ms = foldl (\<lambda>a (r, j). store_string a j) ('''', True) (field name ms)"

text \<open>A pointer field: \<^verbatim>\<open>null\<close> makes it nil again.\<close>

definition ptr_field :: "string \<Rightarrow> members \<Rightarrow> int64 option \<times> bool" where
  "ptr_field name ms =
     foldl (\<lambda>(v, ok) (r, j). if j = JNull then (None, ok)
         else case store_int64 0 j of None \<Rightarrow> (Some 0, False) | Some n \<Rightarrow> (Some n, ok)) (None, True) (field name ms)"

record checkBody =
  cbSubject :: string
  cbModel :: string
  cbRequestsPerMinute :: int64
  cbTokensPerMinute :: int64
  cbInputTokensPerMinute :: int64
  cbOutputTokensPerMinute :: int64
  cbRequests :: int64
  cbTokens :: int64
  cbInputTokens :: int64
  cbOutputTokens :: int64

record settleBody =
  sbReservationID :: string
  sbActualTokens :: "int64 option"
  sbActualInputTokens :: "int64 option"
  sbActualOutputTokens :: "int64 option"

definition decode_checkBody :: "string \<Rightarrow> checkBody option" where
  "decode_checkBody body =
     (case decode_members body of
        None \<Rightarrow> None
      | Some ms \<Rightarrow>
          (let (km, kok) = sub_members ''key'' ms; (lm, lok) = sub_members ''limits'' ms; (cm, cok) = sub_members ''cost'' ms;
               (s, o1) = str_field ''subject'' km; (m, o2) = str_field ''model'' km;
               (rpm, o3) = int_field ''requests_per_minute'' lm; (tpm, o4) = int_field ''tokens_per_minute'' lm;
               (itpm, o5) = int_field ''input_tokens_per_minute'' lm; (otpm, o6) = int_field ''output_tokens_per_minute'' lm;
               (rq, o7) = int_field ''requests'' cm; (tk, o8) = int_field ''tokens'' cm;
               (it, o9) = int_field ''input_tokens'' cm; (ot, o10) = int_field ''output_tokens'' cm
           in if kok \<and> lok \<and> cok \<and> o1 \<and> o2 \<and> o3 \<and> o4 \<and> o5 \<and> o6 \<and> o7 \<and> o8 \<and> o9 \<and> o10 then
                Some \<lparr>cbSubject = s, cbModel = m, cbRequestsPerMinute = rpm, cbTokensPerMinute = tpm,
                  cbInputTokensPerMinute = itpm, cbOutputTokensPerMinute = otpm,
                  cbRequests = rq, cbTokens = tk, cbInputTokens = it, cbOutputTokens = ot\<rparr>
              else None))"

definition decode_settleBody :: "string \<Rightarrow> settleBody option" where
  "decode_settleBody body =
     (case decode_members body of
        None \<Rightarrow> None
      | Some ms \<Rightarrow>
          (let (rid, o1) = str_field ''reservation_id'' ms; (t, o2) = ptr_field ''actual_tokens'' ms;
               (i, o3) = ptr_field ''actual_input_tokens'' ms; (ot, o4) = ptr_field ''actual_output_tokens'' ms
           in if o1 \<and> o2 \<and> o3 \<and> o4 then
                Some \<lparr>sbReservationID = rid, sbActualTokens = t, sbActualInputTokens = i, sbActualOutputTokens = ot\<rparr>
              else None))"

definition decode_refundBody :: "string \<Rightarrow> string option" where
  "decode_refundBody body =
     (case decode_members body of
        None \<Rightarrow> None
      | Some ms \<Rightarrow> (let (rid, ok) = str_field ''reservation_id'' ms in if ok then Some rid else None))"

definition toAPI :: "checkBody \<Rightarrow> Key \<times> Limits \<times> Cost" where
  "toAPI b =
     (\<lparr>Subject = cbSubject b, Model = cbModel b\<rparr>,
      \<lparr>RequestsPerMinute = cbRequestsPerMinute b, TokensPerMinute = cbTokensPerMinute b,
       InputTokensPerMinute = cbInputTokensPerMinute b, OutputTokensPerMinute = cbOutputTokensPerMinute b\<rparr>,
      \<lparr>Requests = cbRequests b, CTokens = cbTokens b, InputTokens = cbInputTokens b, OutputTokens = cbOutputTokens b\<rparr>)"

section \<open>The HTTP API\<close>

definition writeJSON :: "int \<Rightarrow> jout \<Rightarrow> ResponseWriter \<Rightarrow> ResponseWriter" where
  "writeJSON code v w = encode_json v (WriteHeader code (set_header ''Content-Type'' ''application/json'' w))"

text \<open>\<open>errText\<close> is the text of the error the JSON decoder gives for a body.\<close>

definition http_check ::
  "'l LimiterOps \<Rightarrow> (string \<Rightarrow> int list) \<Rightarrow> (string \<Rightarrow> string) \<Rightarrow> time \<Rightarrow> string \<Rightarrow> 'l world \<Rightarrow> 'l world" where
  "http_check ops sha256 errText now body world0 =
     (let (w, l, lg) = world0 in
      case decode_checkBody body of
        None \<Rightarrow> (http_Error (errText body) 400 w, l, lg)
      | Some b \<Rightarrow>
          (let (key, limits, cost) = toAPI b;
               (res, l1) = apiCheck ops l key limits cost
           in case res of
                Inl err \<Rightarrow> (http_Error (error_text err) 500 w, l1, lg)
              | Inr d \<Rightarrow>
                  (let lg1 = (if \<not> Allowed d then log_Deny sha256 lg now key d else lg)
                   in (writeJSON 200 (OMap (decisionFromHTTP d)) w, l1, lg1))))"

definition http_settle :: "'l LimiterOps \<Rightarrow> (string \<Rightarrow> string) \<Rightarrow> string \<Rightarrow> 'l world \<Rightarrow> 'l world" where
  "http_settle ops errText body world0 =
     (let (w, l, lg) = world0 in
      case decode_settleBody body of
        None \<Rightarrow> (http_Error (errText body) 400 w, l, lg)
      | Some b \<Rightarrow>
          (let (res, l1) =
                 (if sbActualInputTokens b \<noteq> None \<or> sbActualOutputTokens b \<noteq> None then
                    (let inp = (case sbActualInputTokens b of None \<Rightarrow> 0 | Some n \<Rightarrow> n);
                         out = (case sbActualOutputTokens b of None \<Rightarrow> 0 | Some n \<Rightarrow> n)
                     in apiSettleIO ops l (sbReservationID b) inp out)
                  else
                    (let actual = (case sbActualTokens b of None \<Rightarrow> 0 | Some n \<Rightarrow> n)
                     in apiSettle ops l (sbReservationID b) actual))
           in case res of
                Inl err \<Rightarrow> (http_Error (error_text err) 400 w, l1, lg)
              | Inr d \<Rightarrow> (writeJSON 200 (OMap (decisionFromHTTP d)) w, l1, lg)))"

definition http_refund :: "'l LimiterOps \<Rightarrow> (string \<Rightarrow> string) \<Rightarrow> string \<Rightarrow> 'l world \<Rightarrow> 'l world" where
  "http_refund ops errText body world0 =
     (let (w, l, lg) = world0 in
      case decode_refundBody body of
        None \<Rightarrow> (http_Error (errText body) 400 w, l, lg)
      | Some rid \<Rightarrow>
          (case apiRefund ops l rid of
             (Some err, l1) \<Rightarrow> (http_Error (error_text err) 400 w, l1, lg)
           | (None, l1) \<Rightarrow> (writeJSON 200 (OMap []) w, l1, lg)))"

text \<open>The routes. \<open>ready\<close> is the readiness probe, when there is one, with the error it returns; the
  exporter of \<^verbatim>\<open>/metrics\<close> and what the multiplexer answers to any other request are
  the parameters \<open>metrics\<close> and \<open>other\<close>.\<close>

definition routes ::
  "'l LimiterOps \<Rightarrow> (string \<Rightarrow> int list) \<Rightarrow> (string \<Rightarrow> string) \<Rightarrow> time \<Rightarrow> error option option
    \<Rightarrow> ('l world \<Rightarrow> 'l world) \<Rightarrow> ('l world \<Rightarrow> 'l world) \<Rightarrow> string \<Rightarrow> string \<Rightarrow> string \<Rightarrow> 'l world \<Rightarrow> 'l world" where
  "routes ops sha256 errText now ready metrics other verb path body world0 =
     (let (w, l, lg) = world0; get = (verb = ''GET'' \<or> verb = ''HEAD'') in
      if get \<and> path = ''/healthz'' then (rw_Write ''ok'' (WriteHeader 200 w), l, lg)
      else if get \<and> path = ''/readyz'' then
        (case ready of
           Some (Some err) \<Rightarrow> (http_Error (error_text err) 503 w, l, lg)
         | _ \<Rightarrow> (rw_Write ''ready'' (WriteHeader 200 w), l, lg))
      else if get \<and> path = ''/metrics'' then metrics world0
      else if verb = ''POST'' \<and> path = ''/v1/check'' then http_check ops sha256 errText now body world0
      else if verb = ''POST'' \<and> path = ''/v1/settle'' then http_settle ops errText body world0
      else if verb = ''POST'' \<and> path = ''/v1/refund'' then http_refund ops errText body world0
      else other world0)"

section \<open>The gRPC service\<close>

record SettleRequest =
  srReservationId :: string
  srActualTokens :: "int64 option"
  srActualInputTokens :: "int64 option"
  srActualOutputTokens :: "int64 option"

definition get_or_zero :: "int64 option \<Rightarrow> int64" where
  "get_or_zero x = (case x of None \<Rightarrow> 0 | Some n \<Rightarrow> n)"

definition grpc_Check ::
  "'l LimiterOps \<Rightarrow> (string \<Rightarrow> int list) \<Rightarrow> time \<Rightarrow> PbKey option \<Rightarrow> PbLimits option \<Rightarrow> PbCost option
    \<Rightarrow> 'l \<times> Logger \<Rightarrow> (rpc_error, PbDecision) result \<times> 'l \<times> Logger" where
  "grpc_Check ops sha256 now k lm c world0 =
     (let (l, lg) = world0; key = keyFromPB k;
          (res, l1) = apiCheck ops l key (limitsFromPB lm) (costFromPB c)
      in case res of
           Inl err \<Rightarrow> (Inl (RpcError Internal (error_text err)), l1, lg)
         | Inr d \<Rightarrow> (Inr (decisionToPB d), l1, if \<not> Allowed d then log_Deny sha256 lg now key d else lg))"

definition grpc_Settle ::
  "'l LimiterOps \<Rightarrow> SettleRequest \<Rightarrow> 'l \<times> Logger \<Rightarrow> (rpc_error, PbDecision) result \<times> 'l \<times> Logger" where
  "grpc_Settle ops req world0 =
     (let (l, lg) = world0;
          (res, l1) =
            (if srActualInputTokens req \<noteq> None \<or> srActualOutputTokens req \<noteq> None then
               apiSettleIO ops l (srReservationId req) (get_or_zero (srActualInputTokens req))
                 (get_or_zero (srActualOutputTokens req))
             else apiSettle ops l (srReservationId req) (get_or_zero (srActualTokens req)))
      in case res of
           Inl err \<Rightarrow> (Inl (RpcError InvalidArgument (error_text err)), l1, lg)
         | Inr d \<Rightarrow> (Inr (decisionToPB d), l1, lg))"

definition grpc_Refund :: "'l LimiterOps \<Rightarrow> string \<Rightarrow> 'l \<times> Logger \<Rightarrow> (rpc_error, unit) result \<times> 'l \<times> Logger" where
  "grpc_Refund ops rid world0 =
     (let (l, lg) = world0 in
      case apiRefund ops l rid of
        (Some err, l1) \<Rightarrow> (Inl (RpcError InvalidArgument (error_text err)), l1, lg)
      | (None, l1) \<Rightarrow> (Inr (), l1, lg))"

section \<open>Settings\<close>

definition env :: "(string \<Rightarrow> string) \<Rightarrow> string \<Rightarrow> string \<Rightarrow> string" where
  "env getenv k def = (if getenv k \<noteq> '''' then getenv k else def)"

definition envBool :: "(string \<Rightarrow> string) \<Rightarrow> string \<Rightarrow> bool \<Rightarrow> bool" where
  "envBool getenv k def =
     (let v = getenv k in
      if v = '''' then def else case ParseBool v of None \<Rightarrow> def | Some b \<Rightarrow> b)"

definition envInt64 :: "(string \<Rightarrow> string) \<Rightarrow> string \<Rightarrow> int64 \<Rightarrow> int64" where
  "envInt64 getenv k def =
     (let v = getenv k in
      if v = '''' then def else let (n, ok) = ParseInt v in if \<not> ok then def else n)"

text \<open>The limiter \<^verbatim>\<open>main\<close> builds on the store it chose.\<close>

definition valved_limiter :: "(string \<Rightarrow> string) \<Rightarrow> 's \<Rightarrow> 's Limiter" where
  "valved_limiter getenv s =
     (let failMode = (if env getenv ''FAIL_MODE'' ''closed'' = ''open'' then FailOpen else FailClosed);
          opts = [WithFailMode failMode]
            @ (if envBool getenv ''FAST_PATH'' True then
                 [WithFastPath \<lparr>RPMChunk = envInt64 getenv ''RPM_CHUNK'' 5, TPMChunk = envInt64 getenv ''TPM_CHUNK'' 500,
                    ITPMChunk = 0, OTPMChunk = 0,
                    LeaseTTL = i64_mul (envInt64 getenv ''LEASE_TTL_MS'' 2000) Millisecond\<rparr>]
               else [])
      in lim_New s opts)"

text \<open>The limiter with its metrics, on either store: the hit ratio is that of the lease pool, when there is
  one.\<close>

definition valved_observed :: "(string \<Rightarrow> string) \<Rightarrow> 's \<Rightarrow> 's Limiter ObservedLimiter" where
  "valved_observed getenv s =
     (let inner = valved_limiter getenv s
      in if envBool getenv ''FAST_PATH'' True \<and> limPool inner \<noteq> None
         then metrics_New inner [WithHitRatio (\<lambda>l. case limPool l of None \<Rightarrow> 0 | Some p \<Rightarrow> HitRatio p)]
         else metrics_New inner [])"

text \<open>The readiness probe: with Redis, the outcome \<open>ping\<close> of a \<^verbatim>\<open>PING\<close>.\<close>

definition valved_ready :: "(string \<Rightarrow> string) \<Rightarrow> error option \<Rightarrow> error option option" where
  "valved_ready getenv ping = (if getenv ''REDIS_ADDR'' \<noteq> '''' then Some ping else None)"

text \<open>What is left to do for the program when the servers have stopped: close the limiter.\<close>

definition valved_shutdown :: "'s StoreOps \<Rightarrow> (nat \<Rightarrow> time) \<Rightarrow> string list \<Rightarrow> 's Limiter ObservedLimiter \<Rightarrow> 's Limiter" where
  "valved_shutdown S ts ks ob = snd (lim_Close S (obInner ob) ts ks)"

text \<open>The gauge follows the pool: at any later state of the limiter it shows the ratio of that state, and
  zero without the fast path.\<close>

lemma valved_gauge:
  "leaseGauge ((valved_observed getenv s)\<lparr>obInner := l\<rparr>) =
     (if envBool getenv ''FAST_PATH'' True then (case limPool l of None \<Rightarrow> 0 | Some p \<Rightarrow> HitRatio p) else 0)"
  by (simp add: valved_observed_def leaseGauge_def metrics_New_def Let_def WithHitRatio_def valved_limiter_def lim_New_def
      WithFastPath_def WithFailMode_def)

section \<open>Both interfaces do the same\<close>

definition same_settle :: "settleBody \<Rightarrow> SettleRequest \<Rightarrow> bool" where
  "same_settle b req \<longleftrightarrow> sbReservationID b = srReservationId req \<and> sbActualTokens b = srActualTokens req
     \<and> sbActualInputTokens b = srActualInputTokens req \<and> sbActualOutputTokens b = srActualOutputTokens req"

definition same_answer :: "int \<Rightarrow> rpc_code \<Rightarrow> 'l world \<Rightarrow> (rpc_error, PbDecision) result \<times> 'l \<times> Logger \<Rightarrow> bool" where
  "same_answer status code world rpc \<longleftrightarrow>
     (let (w, l, lg) = world; (r, l', lg') = rpc in
      l = l' \<and> lg = lg'
      \<and> (case r of
           Inl e \<Rightarrow> (\<exists>msg. e = RpcError code msg \<and> wCode w = Some status \<and> wBody w = msg @ [NL])
         | Inr pd \<Rightarrow> wCode w = Some 200 \<and> (\<exists>d. pd = decisionToPB d \<and> wBody w = Marshal (OMap (decisionFromHTTP d)) @ [NL])))"

lemma writeJSON_simps [simp]:
  "wCode (writeJSON code v w) = (case wCode w of None \<Rightarrow> Some code | Some c \<Rightarrow> Some c)"
  "wBody (writeJSON code v w) = wBody w @ Marshal v @ [NL]"
  by (simp_all add: writeJSON_def split: option.splits)

lemma new_writer_simps [simp]: "wCode new_writer = None" "wBody new_writer = []"
  by (simp_all add: new_writer_def)

lemma check_agrees:
  assumes "decode_checkBody body = Some b" and "toAPI b = (keyFromPB k, limitsFromPB lm, costFromPB c)"
  shows "same_answer 500 Internal (http_check ops sha256 errText now body (new_writer, l, lg))
    (grpc_Check ops sha256 now k lm c (l, lg))"
  using assms by (auto simp: same_answer_def http_check_def grpc_Check_def Let_def split: prod.splits sum.splits)

lemma settle_agrees:
  assumes "decode_settleBody body = Some b" and "same_settle b req"
  shows "same_answer 400 InvalidArgument (http_settle ops errText body (new_writer, l, lg)) (grpc_Settle ops req (l, lg))"
  using assms
  by (auto simp: same_answer_def http_settle_def grpc_Settle_def same_settle_def get_or_zero_def Let_def
      split: prod.splits sum.splits)

lemma refund_agrees:
  assumes "decode_refundBody body = Some rid"
  shows "snd (http_refund ops errText body (new_writer, l, lg)) = snd (grpc_Refund ops rid (l, lg))
    \<and> (wCode (fst (http_refund ops errText body (new_writer, l, lg))) = Some 200 \<longleftrightarrow> is_ok (fst (grpc_Refund ops rid (l, lg))))"
  using assms by (auto simp: http_refund_def grpc_Refund_def Let_def split: prod.splits option.splits)

text \<open>
  C36 (HTTP and gRPC clients are served alike). A check, a settlement or a refund with the same
  contents leaves the limiter and the log in the same state over either interface, and both answers
  come from the same decision, or report the same error: 500 for \<^verbatim>\<open>Internal\<close>, 400 for
  \<^verbatim>\<open>InvalidArgument\<close>. In particular both settle in the split mode exactly when one of
  the two split counts is given, and count what is missing as zero.
\<close>

theorem servers_agree:
  assumes "decode_checkBody checkText = Some cb" and "toAPI cb = (keyFromPB k, limitsFromPB lm, costFromPB c)"
    and "decode_settleBody settleText = Some sb" and "same_settle sb req"
    and "decode_refundBody refundText = Some rid"
  shows "same_answer 500 Internal (http_check ops sha256 errText now checkText (new_writer, l, lg))
      (grpc_Check ops sha256 now k lm c (l, lg))
    \<and> same_answer 400 InvalidArgument (http_settle ops errText settleText (new_writer, l, lg)) (grpc_Settle ops req (l, lg))
    \<and> snd (http_refund ops errText refundText (new_writer, l, lg)) = snd (grpc_Refund ops rid (l, lg))
    \<and> (wCode (fst (http_refund ops errText refundText (new_writer, l, lg))) = Some 200 \<longleftrightarrow>
        is_ok (fst (grpc_Refund ops rid (l, lg))))"
  by (intro conjI check_agrees [OF assms(1,2)] settle_agrees [OF assms(3,4)]
      refund_agrees [OF assms(5), THEN conjunct1] refund_agrees [OF assms(5), THEN conjunct2])

definition ex_text :: string where
  "ex_text = ''{'' @ json_quote ''cost'' @ '':{'' @ json_quote ''tokens'' @ '':5}}''"

lemma ex_text_decoded:
  "decode_checkBody ex_text =
     Some \<lparr>cbSubject = [], cbModel = [], cbRequestsPerMinute = 0, cbTokensPerMinute = 0, cbInputTokensPerMinute = 0,
       cbOutputTokensPerMinute = 0, cbRequests = 0, cbTokens = 5, cbInputTokens = 0, cbOutputTokens = 0\<rparr>"
  by code_simp

lemma ex_text_settle: "decode_settleBody ''null'' =
   Some \<lparr>sbReservationID = [], sbActualTokens = None, sbActualInputTokens = None, sbActualOutputTokens = None\<rparr>"
  by code_simp

lemma ex_text_refund: "decode_refundBody ''null'' = Some []"
  by code_simp

theorem servers_agree_witness:
  "same_answer 500 Internal
     (http_check (limiter_ops memory_store (\<lambda>_. 1000000000) (\<lambda>_. Inr ''r'')) (\<lambda>_. []) (\<lambda>_. []) 0 ex_text
       (new_writer, lim_New mem_New [], []))
     (grpc_Check (limiter_ops memory_store (\<lambda>_. 1000000000) (\<lambda>_. Inr ''r'')) (\<lambda>_. []) 0 None None
       (Some \<lparr>pbRequests = 0, pbTokens = 5, pbInputTokens = 0, pbOutputTokens = 0\<rparr>) (lim_New mem_New [], []))"
proof -
  have same: "same_settle \<lparr>sbReservationID = [], sbActualTokens = None, sbActualInputTokens = None, sbActualOutputTokens = None\<rparr>
      \<lparr>srReservationId = [], srActualTokens = None, srActualInputTokens = None, srActualOutputTokens = None\<rparr>"
    by (simp add: same_settle_def)
  have "toAPI \<lparr>cbSubject = [], cbModel = [], cbRequestsPerMinute = 0, cbTokensPerMinute = 0, cbInputTokensPerMinute = 0,
       cbOutputTokensPerMinute = 0, cbRequests = 0, cbTokens = 5, cbInputTokens = 0, cbOutputTokens = 0\<rparr> =
     (keyFromPB None, limitsFromPB None, costFromPB (Some \<lparr>pbRequests = 0, pbTokens = 5, pbInputTokens = 0, pbOutputTokens = 0\<rparr>))"
    by (simp add: toAPI_def keyFromPB_def limitsFromPB_def costFromPB_def zero_defs)
  from servers_agree [OF ex_text_decoded this ex_text_settle same ex_text_refund] show ?thesis by (rule conjunct1)
qed

end
