(* ===== verification/Llm.thy ===== *)
theory Llm
  imports Go_Float Go_Json
begin

text \<open>
  Package \<^verbatim>\<open>llm\<close>: the request gate (\<^verbatim>\<open>pkg/llm/gate.go\<close>), the estimate of a request's cost
  (\<^verbatim>\<open>estimate.go\<close>, \<^verbatim>\<open>tokenizer.go\<close>), the usage a provider reports (\<^verbatim>\<open>usage.go\<close>) and the mismatch
  counters (\<^verbatim>\<open>metrics.go\<close>). A tokenizer is a Go interface value: \<open>None\<close> for nil, else its
  \<^verbatim>\<open>Count\<close>. \<^verbatim>\<open>int\<close> is 64 bits wide.
\<close>

section \<open>Gate\<close>

record Gate =
  MaxInputTokens :: int64
  MaxRequestBytes :: int64

text \<open>\<open>True\<close> stands for \<^verbatim>\<open>ErrTooLarge\<close>.\<close>

definition CheckBytes :: "Gate \<Rightarrow> int64 \<Rightarrow> bool" where
  "CheckBytes g n \<longleftrightarrow> MaxRequestBytes g > 0 \<and> n > MaxRequestBytes g"

definition CheckInput :: "Gate \<Rightarrow> int64 \<Rightarrow> bool" where
  "CheckInput g inputTokens \<longleftrightarrow> MaxInputTokens g > 0 \<and> inputTokens > MaxInputTokens g"

section \<open>Estimates\<close>

definition EstimateTokens :: "string \<Rightarrow> int64" where
  "EstimateTokens text =
     (if text = '''' then 0
      else i64_of_f64 (f64_ceil (f64_div (f64_of_int (int (RuneCount text))) 4)))"

type_synonym Tokenizer = "(string \<Rightarrow> int64) option"

definition HeuristicTokenizer :: Tokenizer where
  "HeuristicTokenizer = Some EstimateTokens"

definition countText :: "Tokenizer \<Rightarrow> string \<Rightarrow> int64" where
  "countText tok text = (case tok of Some count \<Rightarrow> count text | None \<Rightarrow> EstimateTokens text)"

record ChatEstimate =
  ceInputTokens :: int64
  ceOutputReserve :: int64
  ceTotalTokens :: int64

definition contentTokens :: "string \<Rightarrow> Tokenizer \<Rightarrow> int64" where
  "contentTokens raw tok =
     (if raw = '''' then 0
      else case um_string raw of
             Some s \<Rightarrow> countText tok s
           | None \<Rightarrow>
               (case um_parts raw of
                  Some parts \<Rightarrow>
                    foldl (\<lambda>n p. case p ''text'' of Some (JStr t) \<Rightarrow> i64_add n (countText tok t) | _ \<Rightarrow> n) 0 parts
                | None \<Rightarrow> countText tok raw))"

definition outReserve_step :: "(string \<rightharpoonup> string) \<Rightarrow> int64 \<Rightarrow> string \<Rightarrow> int64" where
  "outReserve_step raw outReserve key =
     (case raw key of
        None \<Rightarrow> outReserve
      | Some v \<Rightarrow> (case um_int64 v of None \<Rightarrow> outReserve | Some n \<Rightarrow> if n > outReserve then n else outReserve))"

text \<open>\<open>None\<close> is an error of the JSON decoder.\<close>

definition EstimateChatRequest :: "string \<Rightarrow> Tokenizer \<Rightarrow> ChatEstimate option" where
  "EstimateChatRequest body tok =
     (case um_raw_map body of
        None \<Rightarrow> None
      | Some raw \<Rightarrow>
          (let messages = (case raw ''messages'' of None \<Rightarrow> Some [] | Some msgs \<Rightarrow> um_raw_field ''content'' msgs)
           in case messages of
                None \<Rightarrow> None
              | Some contents \<Rightarrow>
                  (let input1 = foldl (\<lambda>n content. i64_add n (contentTokens content tok)) 0 contents;
                       input2 = (case raw ''prompt'' of None \<Rightarrow> input1 | Some prompt \<Rightarrow> i64_add input1 (contentTokens prompt tok));
                       input = (if input2 = 0 \<and> body \<noteq> '''' then countText tok body else input2);
                       outReserve = foldl (outReserve_step raw) 0 [''max_tokens'', ''max_completion_tokens''];
                       total0 = i64_add input outReserve;
                       total = (if total0 < 1 then 1 else total0)
                   in Some \<lparr>ceInputTokens = input, ceOutputReserve = outReserve, ceTotalTokens = total\<rparr>)))"

section \<open>Usage\<close>

record Usage =
  uInputTokens :: int64
  uOutputTokens :: int64

definition zero_Usage :: Usage where
  "zero_Usage = \<lparr>uInputTokens = 0, uOutputTokens = 0\<rparr>"

definition Total :: "Usage \<Rightarrow> int64" where
  "Total u = i64_add (uInputTokens u) (uOutputTokens u)"

fun firstInt :: "(string \<rightharpoonup> int64) \<Rightarrow> string list \<Rightarrow> int64" where
  "firstInt m [] = 0"
| "firstInt m (k # ks) = (case m k of Some v \<Rightarrow> v | None \<Rightarrow> firstInt m ks)"

definition ParseUsageJSON :: "string \<Rightarrow> Usage option" where
  "ParseUsageJSON body =
     (case um_raw_map body of
        None \<Rightarrow> None
      | Some rt \<Rightarrow>
          (case rt ''usage'' of
             None \<Rightarrow> None
           | Some raw \<Rightarrow>
               (case um_int_map raw of
                  None \<Rightarrow> None
                | Some u \<Rightarrow>
                    (let inp = firstInt u [''prompt_tokens'', ''input_tokens''];
                         out = firstInt u [''completion_tokens'', ''output_tokens'']
                     in if inp = 0 \<and> out = 0 then
                          (case u ''total_tokens'' of
                             Some t \<Rightarrow> if t > 0 then Some (zero_Usage\<lparr>uInputTokens := t\<rparr>) else None
                           | None \<Rightarrow> None)
                        else Some \<lparr>uInputTokens = inp, uOutputTokens = out\<rparr>))))"

definition parseUsageFromChunk :: "string \<Rightarrow> Usage option" where
  "parseUsageFromChunk data =
     (case ParseUsageJSON data of
        Some u \<Rightarrow> Some u
      | None \<Rightarrow>
          (case um_raw_map data of
             None \<Rightarrow> None
           | Some rt \<Rightarrow>
               (case rt ''usage'' of
                  None \<Rightarrow> None
                | Some raw \<Rightarrow>
                    if raw \<noteq> ''null'' then
                      (case um_int_map raw of
                         None \<Rightarrow> None
                       | Some u \<Rightarrow>
                           (let inp = firstInt u [''prompt_tokens'', ''input_tokens''];
                                out = firstInt u [''completion_tokens'', ''output_tokens'']
                            in if inp \<noteq> 0 \<or> out \<noteq> 0
                               then Some \<lparr>uInputTokens = inp, uOutputTokens = out\<rparr> else None))
                    else None)))"

text \<open>\<^verbatim>\<open>strings.TrimSpace\<close>: white space in the sense of Unicode, in its UTF-8 encodings.\<close>

definition space_runes :: "string list" where
  "space_runes = map EncodeRune
     [0x09, 0x0A, 0x0B, 0x0C, 0x0D, 0x20, 0x85, 0xA0, 0x1680, 0x2000, 0x2001, 0x2002, 0x2003, 0x2004, 0x2005,
      0x2006, 0x2007, 0x2008, 0x2009, 0x200A, 0x2028, 0x2029, 0x202F, 0x205F, 0x3000]"

function strip :: "string list \<Rightarrow> string \<Rightarrow> string" where
  "strip ps s =
     (case filter (\<lambda>p. p \<noteq> [] \<and> HasPrefix s p) ps of [] \<Rightarrow> s | p # _ \<Rightarrow> strip ps (drop (length p) s))"
  by pat_completeness auto
termination
proof (relation "measure (\<lambda>(ps, s). length s)", goal_cases)
  case (2 ps s p qs)
  then have "p \<in> set (filter (\<lambda>p. p \<noteq> [] \<and> HasPrefix s p) ps)" by simp
  then have "p \<noteq> []" "HasPrefix s p" by auto
  then show ?case by (auto simp: HasPrefix_iff)
qed simp

definition TrimSpace :: "string \<Rightarrow> string" where
  "TrimSpace s = rev (strip (map rev space_runes) (rev (strip space_runes s)))"

text \<open>The scanner of \<^verbatim>\<open>bufio\<close> with its line splitter and a buffer of at most one mebibyte: it gives up at
  the first line that does not fit, leaving the rest of the input unread. The result is the lines and
  the unread rest.\<close>

definition maxTokenSize :: nat where
  "maxTokenSize = 1048576"

definition LF :: char where "LF = CHR 0x0A"

definition dropCR :: "string \<Rightarrow> string" where
  "dropCR s = (if s \<noteq> [] \<and> last s = CHR 0x0D then butlast s else s)"

function scan_lines :: "string \<Rightarrow> string list \<times> string" where
  "scan_lines s =
     (if s = [] then ([], [])
      else
        (let line = takeWhile (\<lambda>c. c \<noteq> LF) s in
         if length line \<ge> maxTokenSize then ([], drop maxTokenSize s)
         else if length line = length s then ([dropCR line], [])
         else
           (let (ls, rest) = scan_lines (drop (Suc (length line)) s) in (dropCR line # ls, rest))))"
  by pat_completeness auto
termination by (relation "measure length") auto

declare scan_lines.simps [simp del] strip.simps [simp del]

definition sse_data :: "string \<Rightarrow> string option" where
  "sse_data line =
     (if \<not> HasPrefix line ''data:'' then None
      else
        (let data = TrimSpace (drop 5 line)
         in if data = ''[DONE]'' \<or> data = '''' then None else Some data))"

text \<open>The loop of \<^verbatim>\<open>ParseUsageSSE\<close> over the lines; the state is the last usage found.\<close>

fun sse_loop :: "Usage option \<Rightarrow> string list \<Rightarrow> Usage option" where
  "sse_loop found [] = found"
| "sse_loop found (line # rest) =
     (case sse_data line of
        None \<Rightarrow> sse_loop found rest
      | Some data \<Rightarrow>
          (case parseUsageFromChunk data of
             Some u \<Rightarrow> sse_loop (Some u) rest
           | None \<Rightarrow> sse_loop found rest))"

text \<open>The usage, and what the scanner left unread.\<close>

definition ParseUsageSSE :: "string \<Rightarrow> Usage option \<times> string" where
  "ParseUsageSSE input = (let (ls, unread) = scan_lines input in (sse_loop None ls, unread))"

section \<open>Mismatch counters\<close>

record Metrics =
  mEstimateTotal :: int64
  mActualTotal :: int64
  mOverEstimate :: int64
  mUnderEstimate :: int64
  mExact :: int64

definition Record :: "Metrics \<Rightarrow> int64 \<Rightarrow> int64 \<Rightarrow> Metrics" where
  "Record m estimated actual =
     (let m1 = m\<lparr>mEstimateTotal := i64_add (mEstimateTotal m) estimated\<rparr>;
          m2 = m1\<lparr>mActualTotal := i64_add (mActualTotal m1) actual\<rparr>
      in if estimated > actual then m2\<lparr>mOverEstimate := i64_add (mOverEstimate m2) 1\<rparr>
         else if estimated < actual then m2\<lparr>mUnderEstimate := i64_add (mUnderEstimate m2) 1\<rparr>
         else m2\<lparr>mExact := i64_add (mExact m2) 1\<rparr>)"

record Snapshot =
  snEstimateTotal :: int64
  snActualTotal :: int64
  snOverEstimate :: int64
  snUnderEstimate :: int64
  snExact :: int64

definition metrics_Snapshot :: "Metrics \<Rightarrow> Snapshot" where
  "metrics_Snapshot m =
     \<lparr>snEstimateTotal = mEstimateTotal m, snActualTotal = mActualTotal m, snOverEstimate = mOverEstimate m,
      snUnderEstimate = mUnderEstimate m, snExact = mExact m\<rparr>"

section \<open>What the estimate charges\<close>

lemma rune_width_pos: "1 \<le> rune_width (c # cs)"
  by (auto simp: rune_width_def DecodeRune_def byte_def split: list.splits)

lemma RuneCount_le: "RuneCount s \<le> length s"
proof (induction s rule: RuneCount.induct)
  case (2 c cs)
  then show ?case by (simp add: le_trans)
qed simp

lemma EstimateTokens_spec:
  assumes "int (RuneCount s) \<le> 2 ^ 53"
  shows "EstimateTokens s = (int (RuneCount s) + 3) div 4"
proof (cases "s = []")
  case False
  let ?n = "int (RuneCount s)"
  have "is_f64 (of_int ?n * 2 powi (-2))" using assms by (intro is_f64_mult_powi) auto
  moreover have "(of_int ?n * 2 powi (-2) :: rat) = of_int ?n / 4" by (simp add: power_int_def power2_eq_square)
  ultimately have fd: "f64_div (f64_of_int ?n) 4 = of_int ?n / 4"
    using assms by (simp add: f64_of_int_exact f64_div_def f64.rnd_id)
  have cl: "\<lceil>of_int ?n / (4 :: rat)\<rceil> = (?n + 3) div 4"
  proof (rule ceiling_unique)
    have "4 * ((?n + 3) div 4) < ?n + 4" and "?n \<le> 4 * ((?n + 3) div 4)" by linarith+
    then have "(of_int (4 * ((?n + 3) div 4)) :: rat) < of_int (?n + 4)" and "of_int ?n \<le> (of_int (4 * ((?n + 3) div 4)) :: rat)"
      by (simp_all only: of_int_less_iff of_int_le_iff)
    then show "of_int ((?n + 3) div 4) - 1 < of_int ?n / (4 :: rat)" and "of_int ?n / (4 :: rat) \<le> of_int ((?n + 3) div 4)"
      by simp_all
  qed
  have "(?n + 3) div 4 \<le> ?n" and nn: "0 \<le> (?n + 3) div 4" using False by (cases s; simp)+
  then have "in64 ((?n + 3) div 4)" using assms by (simp add: in64_def)
  then have "i64_of_f64 (of_int ((?n + 3) div 4)) = (?n + 3) div 4"
    using nn by (simp add: i64_of_f64_def f64_trunc_def)
  then show ?thesis using False by (simp only: EstimateTokens_def f64_ceil_def fd cl if_False)
qed (simp add: EstimateTokens_def)

text \<open>A text is charged at least one token, and at most one per byte.\<close>

lemma EstimateTokens_bounds:
  assumes "s \<noteq> []" and "int (length s) \<le> 2 ^ 53"
  shows "1 \<le> EstimateTokens s" and "EstimateTokens s \<le> int (length s)"
proof -
  have n: "int (RuneCount s) \<le> int (length s)" "1 \<le> RuneCount s"
    using RuneCount_le [of s] assms(1) by (cases s; simp)+
  then show "1 \<le> EstimateTokens s" "EstimateTokens s \<le> int (length s)"
    using assms(2) by (simp_all add: EstimateTokens_spec)
qed

lemma digit_value_nonneg: "digit_value c = Some d \<Longrightarrow> 0 \<le> d"
  by (auto simp: digit_value_def Let_def split: if_splits)

lemma parse_digits_nonneg: "parse_digits acc ds = Some m \<Longrightarrow> 0 \<le> acc \<Longrightarrow> 0 \<le> m"
  by (induction acc ds rule: parse_digits.induct) (auto simp: digit_value_nonneg split: option.splits)

lemma ParseInt_in64: "in64 (fst (ParseInt l))"
proof -
  have "in64 (fst (case parse_digits 0 ds of None \<Rightarrow> (0, False) | Some n \<Rightarrow>
      if \<not> neg \<and> n \<ge> 2 ^ 63 then (2 ^ 63 - 1, False) else if neg \<and> n > 2 ^ 63 then (- (2 ^ 63), False)
      else (if neg then - n else n, True)))" for ds neg
    using parse_digits_nonneg [of 0 ds] by (cases "parse_digits 0 ds") (auto simp: in64_def)
  then show ?thesis by (simp add: ParseInt_def Let_def split: prod.splits)
qed

lemma um_int64_in64: "um_int64 s = Some n \<Longrightarrow> in64 n"
  using ParseInt_in64 by (auto simp: um_int64_def store_int64_def split: option.splits json.splits if_splits)

lemma wrap64_over: "2 ^ 63 \<le> x \<Longrightarrow> x < 2 ^ 64 \<Longrightarrow> wrap64 x = x - 2 ^ 64"
proof -
  assume x: "2 ^ 63 \<le> x" "x < 2 ^ 64"
  have "(x + 2 ^ 63) mod 2 ^ 64 = (x + 2 ^ 63 - 2 ^ 64) mod 2 ^ 64" by (simp only: minus_mod_self2)
  also have "\<dots> = x + 2 ^ 63 - 2 ^ 64" using x by (intro mod_pos_pos_trivial) simp_all
  finally show ?thesis by (simp add: wrap64_def)
qed

lemma outReserve_step_bounds:
  "0 \<le> n \<Longrightarrow> in64 n \<Longrightarrow> 0 \<le> outReserve_step raw n k \<and> in64 (outReserve_step raw n k) \<and> n \<le> outReserve_step raw n k"
  by (auto simp: outReserve_step_def um_int64_in64 split: option.splits)

lemma estimate_parts:
  assumes "EstimateChatRequest body tok = Some e"
  shows "\<exists>raw. um_raw_map body = Some raw \<and>
      ceOutputReserve e = foldl (outReserve_step raw) 0 [''max_tokens'', ''max_completion_tokens'']"
    and "ceTotalTokens e = max 1 (i64_add (ceInputTokens e) (ceOutputReserve e))"
  using assms by (auto simp: EstimateChatRequest_def Let_def max_def split: option.splits)

text \<open>
  C39 (what a request is charged). For a request that parses, with an input count that does not
  exceed the integers, the reserve for the answer is never negative and at least the number given as
  \<^verbatim>\<open>max_tokens\<close>; the charge is the sum of the two, and at least one, as long as the sum fits
  64 bits. When it does not, the addition wraps and the request is charged a single token.
\<close>

theorem estimate_total:
  assumes "EstimateChatRequest body tok = Some e" and "0 \<le> ceInputTokens e" and "in64 (ceInputTokens e)"
  shows "0 \<le> ceOutputReserve e
    \<and> (\<forall>raw v n. um_raw_map body = Some raw \<longrightarrow> raw ''max_tokens'' = Some v \<longrightarrow> um_int64 v = Some n \<longrightarrow> n \<le> ceOutputReserve e)
    \<and> ceTotalTokens e =
        (if ceInputTokens e + ceOutputReserve e < 2 ^ 63 then max 1 (ceInputTokens e + ceOutputReserve e) else 1)"
proof -
  obtain raw where raw: "um_raw_map body = Some raw"
    and out: "ceOutputReserve e = outReserve_step raw (outReserve_step raw 0 ''max_tokens'') ''max_completion_tokens''"
    using estimate_parts(1) [OF assms(1)] by auto
  note b1 = outReserve_step_bounds [of 0 raw "''max_tokens''", simplified]
  note b2 = outReserve_step_bounds [of "outReserve_step raw 0 ''max_tokens''" raw "''max_completion_tokens''", folded out]
  have o: "0 \<le> ceOutputReserve e" "in64 (ceOutputReserve e)" "outReserve_step raw 0 ''max_tokens'' \<le> ceOutputReserve e"
    using b1 b2 by auto
  have "i64_add (ceInputTokens e) (ceOutputReserve e) =
      (if ceInputTokens e + ceOutputReserve e < 2 ^ 63 then ceInputTokens e + ceOutputReserve e
       else ceInputTokens e + ceOutputReserve e - 2 ^ 64)"
    using assms(2,3) o by (simp add: i64_add_def wrap64_over in64_def)
  then show ?thesis
    using o raw estimate_parts(2) [OF assms(1)] assms(3) o(2)
    by (auto simp: outReserve_step_def in64_def split: option.splits if_splits)
qed

definition huge_max_tokens :: string where
  "huge_max_tokens = ''{'' @ json_quote ''max_tokens'' @ '':9223372036854775807}''"

lemma huge_estimate:
  "um_raw_map huge_max_tokens = Some [''max_tokens'' \<mapsto> ''9223372036854775807'']"
  "um_int64 ''9223372036854775807'' = Some 9223372036854775807"
proof -
  have "json_parse huge_max_tokens = Some (JObj [(''max_tokens'', ''9223372036854775807'', JNum ''9223372036854775807'')])"
    by code_simp
  then show "um_raw_map huge_max_tokens = Some [''max_tokens'' \<mapsto> ''9223372036854775807'']"
    by (simp add: um_raw_map_def)
  show "um_int64 ''9223372036854775807'' = Some 9223372036854775807" by code_simp
qed

theorem estimate_total_witness:
  "\<exists>e. EstimateChatRequest huge_max_tokens (Some (\<lambda>_. 9)) = Some e \<and> ceOutputReserve e = 2 ^ 63 - 1 \<and> ceTotalTokens e = 1"
proof -
  define e where "e = the (EstimateChatRequest huge_max_tokens (Some (\<lambda>_. 9)))"
  have e: "EstimateChatRequest huge_max_tokens (Some (\<lambda>_. 9)) = Some e" "ceInputTokens e = 9" "ceOutputReserve e = 2 ^ 63 - 1"
    by (simp_all add: e_def EstimateChatRequest_def huge_estimate countText_def outReserve_step_def Let_def)
      (simp_all add: huge_max_tokens_def)
  then show ?thesis using estimate_total [OF e(1)] by (simp add: in64_def)
qed

section \<open>What a provider reports\<close>

text \<open>The second attempt of \<^verbatim>\<open>parseUsageFromChunk\<close> never finds anything the first one missed.\<close>

lemma parseUsageFromChunk_eq: "parseUsageFromChunk data = ParseUsageJSON data"
  by (simp add: parseUsageFromChunk_def ParseUsageJSON_def Let_def del: firstInt.simps split: option.split)

definition line_usage :: "string \<Rightarrow> Usage option" where
  "line_usage line = (case sse_data line of None \<Rightarrow> None | Some data \<Rightarrow> ParseUsageJSON data)"

lemma sse_loop_last:
  "sse_loop found ls = (case rev (List.map_filter line_usage ls) of [] \<Rightarrow> found | u # _ \<Rightarrow> Some u)"
proof (induction ls arbitrary: found)
  case (Cons l ls)
  show ?case
  proof (cases "line_usage l")
    case None
    then show ?thesis
      using Cons by (auto simp: line_usage_def parseUsageFromChunk_eq List.map_filter_simps split: option.splits)
  next
    case (Some u)
    then have "sse_loop found (l # ls) = sse_loop (Some u) ls"
      by (auto simp: line_usage_def parseUsageFromChunk_eq split: option.splits)
    also have "\<dots> = (case rev (List.map_filter line_usage ls) of [] \<Rightarrow> Some u | v # _ \<Rightarrow> Some v)" by (rule Cons)
    also have "\<dots> = (case rev (List.map_filter line_usage (l # ls)) of [] \<Rightarrow> found | v # _ \<Rightarrow> Some v)"
      using Some by (cases "rev (List.map_filter line_usage ls)") (simp_all add: List.map_filter_simps)
    finally show ?thesis .
  qed
qed (simp add: List.map_filter_simps)

definition short_line :: "string \<Rightarrow> bool" where
  "short_line l \<longleftrightarrow> length l < maxTokenSize \<and> LF \<notin> set l"

lemma takeWhile_line: "LF \<notin> set l \<Longrightarrow> takeWhile (\<lambda>c. c \<noteq> LF) (l @ LF # rest) = l"
  by (induction l) auto

lemma scan_line:
  assumes "short_line l"
  shows "scan_lines (l @ LF # rest) = (dropCR l # fst (scan_lines rest), snd (scan_lines rest))"
  using assms
  by (subst scan_lines.simps) (simp add: short_line_def takeWhile_line Let_def split_beta)

lemma scan_short_lines:
  "\<forall>l\<in>set ls. short_line l \<Longrightarrow> scan_lines (concat (map (\<lambda>l. l @ [LF]) ls)) = (map dropCR ls, [])"
  by (induction ls) (simp_all add: scan_line scan_lines.simps [of "[]"])

text \<open>
  C40 (the last usage of a stream wins). For a stream of events whose lines are shorter than a
  mebibyte, the scan reads the whole input and returns the last usage that any of its lines carries
  (the second decoding attempt per chunk adds nothing), or nothing when no line carries one.
\<close>

theorem sse_last_usage:
  assumes "\<forall>l\<in>set ls. short_line l"
  shows "ParseUsageSSE (concat (map (\<lambda>l. l @ [LF]) ls)) =
    ((case rev (List.map_filter (line_usage \<circ> dropCR) ls) of [] \<Rightarrow> None | u # _ \<Rightarrow> Some u), [])
    \<and> (\<forall>data. parseUsageFromChunk data = ParseUsageJSON data)"
  using scan_short_lines [OF assms]
  by (simp add: ParseUsageSSE_def sse_loop_last parseUsageFromChunk_eq List.map_filter_def comp_def filter_map)

definition ex_event :: string where
  "ex_event = ''data: {'' @ json_quote ''usage'' @ '':{'' @ json_quote ''input_tokens'' @ '':3}}''"

lemma ex_event_usage: "line_usage ex_event = Some \<lparr>uInputTokens = 3, uOutputTokens = 0\<rparr>"
proof -
  have d: "sse_data ex_event = Some (''{'' @ json_quote ''usage'' @ '':{'' @ json_quote ''input_tokens'' @ '':3}}'')"
    by code_simp
  have "ParseUsageJSON (''{'' @ json_quote ''usage'' @ '':{'' @ json_quote ''input_tokens'' @ '':3}}'') =
      Some \<lparr>uInputTokens = 3, uOutputTokens = 0\<rparr>"
    by code_simp
  then show ?thesis by (simp add: line_usage_def d)
qed

lemma ex_lines:
  "short_line ex_event" "short_line ''data: [DONE]''" "dropCR ex_event = ex_event" "dropCR ''data: [DONE]'' = ''data: [DONE]''"
  "line_usage ''data: [DONE]'' = None"
proof -
  have "length ex_event < 100" "LF \<notin> set ex_event" by code_simp+
  then show "short_line ex_event" by (simp add: short_line_def maxTokenSize_def)
  show "short_line ''data: [DONE]''" by (simp add: short_line_def maxTokenSize_def LF_def)
  show "dropCR ex_event = ex_event" "dropCR ''data: [DONE]'' = ''data: [DONE]''" "line_usage ''data: [DONE]'' = None"
    by code_simp+
qed

theorem sse_last_usage_witness:
  "ParseUsageSSE (ex_event @ [LF] @ ''data: [DONE]'' @ [LF]) = (Some \<lparr>uInputTokens = 3, uOutputTokens = 0\<rparr>, [])"
  using sse_last_usage [of "[ex_event, ''data: [DONE]'']"]
  by (simp add: ex_lines ex_event_usage List.map_filter_simps)

text \<open>A usage block with any member that is not a number, such as the breakdowns that providers nest
  in it, is not read at all.\<close>

lemma usage_needs_numbers:
  assumes "um_raw_map body = Some rt" and "rt ''usage'' = Some raw" and "json_parse raw = Some (JObj ms)"
    and "(k, r, JObj ns) \<in> set ms"
  shows "ParseUsageJSON body = None"
proof -
  have "um_int_map raw = None" using assms(3,4) by (force simp: um_int_map_def store_int64_def)
  then show ?thesis using assms(1,2) by (simp add: ParseUsageJSON_def)
qed

section \<open>Counters\<close>

fun record_all :: "Metrics \<Rightarrow> (int64 \<times> int64) list \<Rightarrow> Metrics" where
  "record_all m [] = m"
| "record_all m ((e, a) # es) = record_all (Record m e a) es"

lemma wrap64_add_left: "wrap64 (wrap64 x + y) = wrap64 (x + y)"
proof -
  have "(wrap64 x + y + 2 ^ 63) mod 2 ^ 64 = ((x + 2 ^ 63) mod 2 ^ 64 + y) mod 2 ^ 64"
    by (simp only: wrap64_def) simp
  also have "\<dots> = (x + y + 2 ^ 63) mod 2 ^ 64" by (simp only: mod_add_left_eq) (simp only: ac_simps)
  finally show ?thesis by (simp only: wrap64_def [of "wrap64 x + y"] wrap64_def [of "x + y"])
qed

lemma Record_counts:
  "wrap64 (mOverEstimate (Record m e a) + mUnderEstimate (Record m e a) + mExact (Record m e a) + z) =
     wrap64 (mOverEstimate m + mUnderEstimate m + mExact m + 1 + z)"
  using wrap64_add_left [of "mOverEstimate m + 1" "mUnderEstimate m + mExact m + z"]
    wrap64_add_left [of "mUnderEstimate m + 1" "mOverEstimate m + mExact m + z"]
    wrap64_add_left [of "mExact m + 1" "mOverEstimate m + mUnderEstimate m + z"]
  by (simp add: Record_def Let_def i64_add_def ac_simps)

lemma record_totals:
  "wrap64 (mEstimateTotal (record_all m es)) = wrap64 (mEstimateTotal m + sum_list (map fst es))"
  "wrap64 (mActualTotal (record_all m es)) = wrap64 (mActualTotal m + sum_list (map snd es))"
proof (induction es arbitrary: m)
  case (Cons p es)
  obtain e a where p: "p = (e, a)" by fastforce
  have r: "mEstimateTotal (Record m e a) = wrap64 (mEstimateTotal m + e)" "mActualTotal (Record m e a) = wrap64 (mActualTotal m + a)" for m
    by (simp_all add: Record_def Let_def i64_add_def)
  case 1
  show ?case using Cons(1) [of "Record m e a"] wrap64_add_left by (simp add: p r add.assoc)
  case 2
  show ?case using Cons(2) [of "Record m e a"] wrap64_add_left by (simp add: p r add.assoc)
qed simp_all

text \<open>Every settlement is counted exactly once, as over, under or exact.\<close>

lemma record_counts:
  "wrap64 (mOverEstimate (record_all m es) + mUnderEstimate (record_all m es) + mExact (record_all m es)) =
     wrap64 (mOverEstimate m + mUnderEstimate m + mExact m + int (length es))"
proof (induction es arbitrary: m)
  case (Cons p es)
  obtain e a where p: "p = (e, a)" by fastforce
  show ?case using Cons Record_counts [of m e a "int (length es)"] by (simp add: p add.assoc)
qed simp

text \<open>A snapshot after any sequence of settlements: the totals are what was estimated and used, and the other
  counters add up to the number of settlements.\<close>

lemma snapshot_counts:
  fixes m es
  defines "sn \<equiv> metrics_Snapshot (record_all m es)"
  shows "wrap64 (snEstimateTotal sn) = wrap64 (mEstimateTotal m + sum_list (map fst es))"
    "wrap64 (snActualTotal sn) = wrap64 (mActualTotal m + sum_list (map snd es))"
    "wrap64 (snOverEstimate sn + snUnderEstimate sn + snExact sn) =
       wrap64 (mOverEstimate m + mUnderEstimate m + mExact m + int (length es))"
  using record_totals record_counts by (simp_all add: sn_def metrics_Snapshot_def)

end
