(* ===== verification/Proxy.thy ===== *)
theory Proxy
  imports Middleware Llm
begin

text \<open>
  The rate-limited reverse proxy \<^verbatim>\<open>examples/openai-proxy/proxy.go\<close>: it reads and prices a request, checks
  it, forwards it, and settles or refunds the reservation when the answer is in. The upstream
  service, with the client that talks to it, is the function \<open>upstream\<close> from the forwarded
  request to its outcome; \<open>sha256\<close> is the hash function. A handler that never returns is \<open>None\<close>.
\<close>

record Request =
  rqMethod :: string
  rqPath :: string
  rqQuery :: string
  rqHeader :: header
  rqBody :: string
  rqReadErr :: bool

text \<open>What comes back: the request could not be built, the exchange failed, or a response, as status,
  header, the chunks its body is read in, and whether reading ends with an error.\<close>

datatype Upstream = UpBadRequest | UpFailed | UpResponse int header "string list" bool

record ProxyConfig =
  pcLimits :: Limits
  pcGate :: Gate
  pcTokenizer :: Tokenizer

type_synonym 'l proxy_world = "ResponseWriter \<times> 'l \<times> Metrics"

section \<open>Reading the request\<close>

text \<open>\<^verbatim>\<open>io.ReadAll(io.LimitReader(r.Body, limitBytes+1))\<close>; \<open>None\<close> is a read error.\<close>

definition limit_bytes :: "Gate \<Rightarrow> int64" where
  "limit_bytes g = (if MaxRequestBytes g \<le> 0 then 8388608 else MaxRequestBytes g)"

definition read_body :: "Gate \<Rightarrow> Request \<Rightarrow> string option" where
  "read_body g r =
     (let n = i64_add (limit_bytes g) 1 in
      if n \<le> 0 then Some []
      else if rqReadErr r \<and> int (length (rqBody r)) < n then None
      else Some (take (nat n) (rqBody r)))"

definition subjectFromRequest :: "(string \<Rightarrow> int list) \<Rightarrow> Request \<Rightarrow> string" where
  "subjectFromRequest sha256 r =
     (let k = header_Get (rqHeader r) ''X-API-Key''; a = header_Get (rqHeader r) ''Authorization'' in
      if k \<noteq> '''' then hex_EncodeToString (take 8 (sha256 k))
      else if a \<noteq> '''' then hex_EncodeToString (take 8 (sha256 a))
      else ''anonymous'')"

definition modelFromBody :: "string \<Rightarrow> string" where
  "modelFromBody body = (let (m, ok) = um_string_field ''model'' body in if \<not> ok \<or> m = '''' then ''-'' else m)"

definition isStream :: "string \<Rightarrow> Request \<Rightarrow> bool" where
  "isStream body r \<longleftrightarrow>
     fst (um_bool_field ''stream'' body) \<or> Contains (header_Get (rqHeader r) ''Accept'') ''text/event-stream''"

text \<open>The estimate, or the fallback for a body that is not JSON.\<close>

definition proxy_estimate :: "ProxyConfig \<Rightarrow> string \<Rightarrow> ChatEstimate" where
  "proxy_estimate cfg body =
     (case EstimateChatRequest body (pcTokenizer cfg) of
        Some est \<Rightarrow> est
      | None \<Rightarrow>
          (let n0 = EstimateTokens body; n = (if n0 < 1 then 1 else n0)
           in \<lparr>ceInputTokens = n, ceOutputReserve = 0, ceTotalTokens = n\<rparr>))"

text \<open>Copying the response header, but for the length; the keys of a received header are canonical.\<close>

definition copy_header :: "header \<Rightarrow> header \<Rightarrow> header" where
  "copy_header h up =
     (\<lambda>k. if fold_name k = fold_name ''Content-Length'' then h k
          else case up k of
                 None \<Rightarrow> h k
               | Some vs \<Rightarrow> if vs = [] then h k else Some ((case h k of None \<Rightarrow> [] | Some us \<Rightarrow> us) @ vs))"

section \<open>Answering\<close>

definition RecordSettle :: "Metrics \<Rightarrow> int64 \<Rightarrow> int64 \<Rightarrow> Metrics" where
  "RecordSettle m estimated actual = Record m estimated actual"

definition actual_tokens :: "int64 \<Rightarrow> Usage option \<Rightarrow> int64" where
  "actual_tokens estimated usage =
     (case usage of Some u \<Rightarrow> if Total u > 0 then Total u else estimated | None \<Rightarrow> estimated)"

definition handleJSON ::
  "'l LimiterOps \<Rightarrow> (nat \<Rightarrow> time) \<Rightarrow> int \<Rightarrow> string list \<Rightarrow> bool \<Rightarrow> Decision \<Rightarrow> int64 \<Rightarrow> 'l proxy_world \<Rightarrow> 'l proxy_world" where
  "handleJSON ops ts code chunks readErr dec estimated world0 =
     (let (w, l, m) = world0; body = concat chunks in
      if readErr then
        (let (e, l1) = apiRefund ops l (ReservationID dec) in (http_Error ''upstream read'' 502 w, l1, m))
      else
        (let actual = actual_tokens estimated (ParseUsageJSON body);
             (res, l1) = apiSettle ops l (ReservationID dec) actual;
             (sd, m1) = (case res of Inl err \<Rightarrow> (dec, m) | Inr d \<Rightarrow> (d, RecordSettle m estimated actual));
             w1 = w\<lparr>wHeader := headers_Write (wHeader w) ts sd\<rparr>
         in (rw_Write body (WriteHeader code w1), l1, m1)))"

text \<open>The copy loop of a stream. Each chunk goes to the client, then into a pipe that a second goroutine
  scans for usage; a write to the pipe waits until its bytes have been read. The client may go
  away: \<open>gone = Some i\<close> makes its \<open>i\<close>-th write fail. Once the scanner has stopped, nobody
  reads the pipe, and a write of anything more waits forever.\<close>

definition sent_chunks :: "string list \<Rightarrow> nat option \<Rightarrow> string list" where
  "sent_chunks chunks gone = (case gone of None \<Rightarrow> chunks | Some i \<Rightarrow> take i chunks)"

definition handleStream ::
  "'l LimiterOps \<Rightarrow> (nat \<Rightarrow> time) \<Rightarrow> nat option \<Rightarrow> int \<Rightarrow> string list \<Rightarrow> bool \<Rightarrow> Decision \<Rightarrow> int64
    \<Rightarrow> 'l proxy_world \<Rightarrow> 'l proxy_world option" where
  "handleStream ops ts gone code chunks readErr dec estimated world0 =
     (let (w, l, m) = world0;
          w1 = WriteHeader code (w\<lparr>wHeader := headers_Write (wHeader w) ts dec\<rparr>);
          sent = sent_chunks chunks gone;
          w2 = rw_Write (concat sent) w1;
          copyErr = (length sent < length chunks \<or> readErr);
          (usage, unread) = ParseUsageSSE (concat sent);
          actual = actual_tokens estimated usage
      in if unread \<noteq> [] then None
         else if copyErr \<and> usage = None then
           (let (e, l1) = apiRefund ops l (ReservationID dec) in Some (w2, l1, m))
         else
           (let (res, l1) = apiSettle ops l (ReservationID dec) actual
            in case res of
                 Inl err \<Rightarrow> Some (w2, l1, m)
               | Inr d \<Rightarrow> Some (w2, l1, RecordSettle m estimated actual)))"

definition proxy_deny_body :: "Decision \<Rightarrow> jout" where
  "proxy_deny_body d =
     OMap [(''error'', OMap [(''type'', OStr ''rate_limit''), (''limit_type'', OStr (LimitType d))])]"

definition proxy_ServeHTTP ::
  "'l LimiterOps \<Rightarrow> (string \<Rightarrow> int list) \<Rightarrow> ProxyConfig \<Rightarrow> (Request \<Rightarrow> string \<Rightarrow> Upstream) \<Rightarrow> (nat \<Rightarrow> time) \<Rightarrow> nat option
    \<Rightarrow> Request \<Rightarrow> 'l proxy_world \<Rightarrow> 'l proxy_world option" where
  "proxy_ServeHTTP ops sha256 cfg upstream ts gone r world0 =
     (let (w, l, m) = world0 in
      case read_body (pcGate cfg) r of
        None \<Rightarrow> Some (http_Error ''read body'' 400 w, l, m)
      | Some body \<Rightarrow>
          if CheckBytes (pcGate cfg) (int (length body)) then
            Some (http_Error ''valve/llm: request too large'' 413 w, l, m)
          else
            (let est = proxy_estimate cfg body in
             if CheckInput (pcGate cfg) (ceInputTokens est) then
               Some (http_Error ''valve/llm: request too large'' 413 w, l, m)
             else
               (let key = \<lparr>Subject = subjectFromRequest sha256 r, Model = modelFromBody body\<rparr>;
                    cost = zero_Cost\<lparr>Requests := 1, CTokens := ceTotalTokens est\<rparr>;
                    (res, l1) = apiCheck ops l key (pcLimits cfg) cost
                in case res of
                     Inl err \<Rightarrow> Some (http_Error (error_text err) 500 w, l1, m)
                   | Inr dec \<Rightarrow>
                       if \<not> Allowed dec then
                         (let w1 = w\<lparr>wHeader := headers_Write (wHeader w) ts dec\<rparr>;
                              w2 = WriteHeader 429 (set_header ''Content-Type'' ''application/json'' w1)
                          in Some (encode_json (proxy_deny_body dec) w2, l1, m))
                       else
                         (case upstream r body of
                            UpBadRequest \<Rightarrow>
                              (let (e, l2) = apiRefund ops l1 (ReservationID dec)
                               in Some (http_Error ''upstream request'' 502 w, l2, m))
                          | UpFailed \<Rightarrow>
                              (let (e, l2) = apiRefund ops l1 (ReservationID dec)
                               in Some (http_Error ''upstream error'' 502 w, l2, m))
                          | UpResponse code up chunks readErr \<Rightarrow>
                              (let w1 = w\<lparr>wHeader := copy_header (wHeader w) up\<rparr> in
                               if isStream body r
                               then handleStream ops ts gone code chunks readErr dec (ceTotalTokens est) (w1, l1, m)
                               else Some (handleJSON ops ts code chunks readErr dec (ceTotalTokens est) (w1, l1, m)))))))"

section \<open>Every admitted request is settled or refunded once\<close>

text \<open>The calls a request may leave behind at the limiter, given the answer to its check.\<close>

definition finished :: "Limits \<Rightarrow> (Key \<Rightarrow> Cost \<Rightarrow> (error, Decision) result) \<Rightarrow> call list \<Rightarrow> bool" where
  "finished limits check cs \<longleftrightarrow>
     cs = [] \<or>
     (\<exists>key cost. if granted (check key cost)
        then \<exists>d fin. check key cost = Inr d \<and> cs = [CallCheck key limits cost, fin] \<and>
               (fin = CallRefund (ReservationID d) \<or> (\<exists>n. fin = CallSettle (ReservationID d) n))
        else cs = [CallCheck key limits cost])"

lemma handleJSON_calls:
  "\<exists>w' l' m' fin. handleJSON (traced ops) ts code chunks readErr dec est (w, (l, cs), m) = (w', (l', cs @ [fin]), m')
     \<and> (fin = CallRefund (ReservationID dec) \<or> (\<exists>n. fin = CallSettle (ReservationID dec) n))"
  by (cases readErr) (auto simp: handleJSON_def Let_def split: sum.splits)

lemma handleStream_calls:
  assumes "handleStream (traced ops) ts gone code chunks readErr dec est (w, (l, cs), m) = Some (w', (l', cs'), m')"
  shows "\<exists>fin. cs' = cs @ [fin] \<and> (fin = CallRefund (ReservationID dec) \<or> (\<exists>n. fin = CallSettle (ReservationID dec) n))"
  using assms by (auto simp: handleStream_def Let_def split: prod.splits if_splits sum.splits)

text \<open>The part of the handler after an admitted check.\<close>

lemma forward_calls:
  assumes "(case u of
      UpBadRequest \<Rightarrow> (let (e, l2) = apiRefund (traced ops) (l, cs) (ReservationID dec) in Some (x, l2, m))
    | UpFailed \<Rightarrow> (let (e, l2) = apiRefund (traced ops) (l, cs) (ReservationID dec) in Some (y, l2, m))
    | UpResponse code up chunks readErr \<Rightarrow>
        (let w1 = w\<lparr>wHeader := copy_header (wHeader w) up\<rparr> in
         if stream then handleStream (traced ops) ts gone code chunks readErr dec est (w1, (l, cs), m)
         else Some (handleJSON (traced ops) ts code chunks readErr dec est (w1, (l, cs), m)))) = Some (w', (l', cs'), m')"
  shows "\<exists>fin. cs' = cs @ [fin] \<and> (fin = CallRefund (ReservationID dec) \<or> (\<exists>n. fin = CallSettle (ReservationID dec) n))"
proof (cases u)
  case (UpResponse code up chunks readErr)
  let ?w1 = "w\<lparr>wHeader := copy_header (wHeader w) up\<rparr>"
  show ?thesis
  proof (cases stream)
    case True
    then show ?thesis using assms UpResponse handleStream_calls by (simp add: Let_def)
  next
    case False
    then show ?thesis
      using assms UpResponse handleJSON_calls [of ops ts code chunks readErr dec est ?w1 l cs m] by (auto simp: Let_def)
  qed
qed (use assms in auto)

text \<open>
  C33 (a reservation is finished exactly once). When the proxy answers a request, the limiter has seen
  nothing of it, or one check; an admitted check is followed by exactly one settlement or one
  refund of the reservation it returned, whatever the upstream does; a request that is not admitted
  causes no other call, and its answer does not depend on the upstream.
\<close>

theorem proxy_finishes:
  assumes "proxy_ServeHTTP (traced ops) sha256 cfg upstream ts gone r (w, (l, []), m) = Some (w', (l', cs), m')"
  shows "finished (pcLimits cfg) (\<lambda>key cost. fst (apiCheck ops l key (pcLimits cfg) cost)) cs
    \<and> (length cs < 2 \<longrightarrow>
        proxy_ServeHTTP (traced ops) sha256 cfg upstream' ts gone r (w, (l, []), m) = Some (w', (l', cs), m'))"
proof (cases "read_body (pcGate cfg) r")
  case None
  then show ?thesis using assms by (auto simp: proxy_ServeHTTP_def finished_def)
next
  case (Some body)
  let ?est = "proxy_estimate cfg body"
  let ?key = "\<lparr>Subject = subjectFromRequest sha256 r, Model = modelFromBody body\<rparr>"
  let ?cost = "zero_Cost\<lparr>Requests := 1, CTokens := ceTotalTokens ?est\<rparr>"
  let ?res = "fst (apiCheck ops l ?key (pcLimits cfg) ?cost)" and ?l1 = "snd (apiCheck ops l ?key (pcLimits cfg) ?cost)"
  consider (big) "CheckBytes (pcGate cfg) (int (length body)) \<or> CheckInput (pcGate cfg) (ceInputTokens ?est)"
    | (refused) "\<not> (CheckBytes (pcGate cfg) (int (length body)) \<or> CheckInput (pcGate cfg) (ceInputTokens ?est))" "\<not> granted ?res"
    | (admitted) d where "\<not> (CheckBytes (pcGate cfg) (int (length body)) \<or> CheckInput (pcGate cfg) (ceInputTokens ?est))"
        "?res = Inr d" "Allowed d"
    by (cases ?res) auto
  then show ?thesis
  proof cases
    case big
    then have "proxy_ServeHTTP (traced ops) sha256 cfg up ts gone r (w, (l, []), m) =
        Some (http_Error ''valve/llm: request too large'' 413 w, (l, []), m)" for up
      using Some by (elim disjE) (simp_all add: proxy_ServeHTTP_def)
    then show ?thesis using assms by (simp add: finished_def)
  next
    case refused
    then have cs: "cs = [CallCheck ?key (pcLimits cfg) ?cost]"
      using assms Some by (cases ?res) (simp_all add: proxy_ServeHTTP_def Let_def)
    then have "finished (pcLimits cfg) (\<lambda>key cost. fst (apiCheck ops l key (pcLimits cfg) cost)) cs"
      unfolding finished_def using refused by (intro disjI2 exI [of _ ?key] exI [of _ ?cost]) simp
    moreover have "proxy_ServeHTTP (traced ops) sha256 cfg upstream' ts gone r (w, (l, []), m) = Some (w', (l', cs), m')"
      using assms Some refused by (cases ?res) (simp_all add: proxy_ServeHTTP_def Let_def)
    ultimately show ?thesis by blast
  next
    case admitted
    have "\<exists>fin. cs = [CallCheck ?key (pcLimits cfg) ?cost] @ [fin] \<and>
        (fin = CallRefund (ReservationID d) \<or> (\<exists>n. fin = CallSettle (ReservationID d) n))"
      by (rule forward_calls [where u = "upstream r body" and ops = ops and l = ?l1])
        (use assms Some admitted in \<open>simp add: proxy_ServeHTTP_def Let_def\<close>)
    then obtain fin where fin: "cs = [CallCheck ?key (pcLimits cfg) ?cost, fin]"
        "fin = CallRefund (ReservationID d) \<or> (\<exists>n. fin = CallSettle (ReservationID d) n)" by auto
    then have "finished (pcLimits cfg) (\<lambda>key cost. fst (apiCheck ops l key (pcLimits cfg) cost)) cs"
      unfolding finished_def using admitted by (intro disjI2 exI [of _ ?key] exI [of _ ?cost]) auto
    then show ?thesis using fin by simp
  qed
qed

definition ex_proxy :: ProxyConfig where
  "ex_proxy = \<lparr>pcLimits = ex_limits, pcGate = \<lparr>MaxInputTokens = 10, MaxRequestBytes = 100\<rparr>, pcTokenizer = None\<rparr>"

definition ex_request :: Request where
  "ex_request = \<lparr>rqMethod = ''POST'', rqPath = ''/v1/chat/completions'', rqQuery = '''', rqHeader = Map.empty,
     rqBody = '''', rqReadErr = False\<rparr>"

definition ex_ops :: "Store Limiter LimiterOps" where
  "ex_ops = limiter_ops memory_store (\<lambda>_. 1000000000) (\<lambda>_. Inr ''r'')"

lemma ex_request_parts:
  "read_body (pcGate ex_proxy) ex_request = Some []" "proxy_estimate ex_proxy [] = \<lparr>ceInputTokens = 1, ceOutputReserve = 0, ceTotalTokens = 1\<rparr>"
  "modelFromBody [] = ''-''" "subjectFromRequest sha256 ex_request = ''anonymous''"
proof -
  have "json_parse [] = None" by code_simp
  then show "proxy_estimate ex_proxy [] = \<lparr>ceInputTokens = 1, ceOutputReserve = 0, ceTotalTokens = 1\<rparr>" "modelFromBody [] = ''-''"
    by (simp_all add: proxy_estimate_def EstimateChatRequest_def um_raw_map_def EstimateTokens_def modelFromBody_def um_string_field_def)
qed (simp_all add: read_body_def ex_proxy_def ex_request_def limit_bytes_def i64_exact in64_def subjectFromRequest_def header_Get_def)

lemma ex_check_granted:
  "\<exists>d l1. apiCheck ex_ops (lim_New mem_New []) \<lparr>Subject = ''anonymous'', Model = ''-''\<rparr> ex_limits
      (zero_Cost\<lparr>Requests := 1, CTokens := 1\<rparr>) = (Inr d, l1) \<and> Allowed d"
  by (simp add: ex_ops_def limiter_ops_def lim_New_def lim_Check_def checkDirect_def memory_store_def Validate_def
      store_eval ex_defs bucket_eval zero_defs)

theorem proxy_finishes_witness:
  "\<exists>w l cs m. proxy_ServeHTTP (traced ex_ops) (\<lambda>_. []) ex_proxy (\<lambda>_ _. UpFailed) (\<lambda>_. 0) None ex_request
      (new_writer, (lim_New mem_New [], []), \<lparr>mEstimateTotal = 0, mActualTotal = 0, mOverEstimate = 0, mUnderEstimate = 0, mExact = 0\<rparr>)
      = Some (w, (l, cs), m)
    \<and> length cs = 2 \<and> finished ex_limits (\<lambda>key cost. fst (apiCheck ex_ops (lim_New mem_New []) key ex_limits cost)) cs"
proof -
  let ?m = "\<lparr>mEstimateTotal = 0, mActualTotal = 0, mOverEstimate = 0, mUnderEstimate = 0, mExact = 0\<rparr>"
  obtain d l1 where c: "apiCheck ex_ops (lim_New mem_New []) \<lparr>Subject = ''anonymous'', Model = ''-''\<rparr> ex_limits
      (zero_Cost\<lparr>Requests := 1, CTokens := 1\<rparr>) = (Inr d, l1)" "Allowed d" using ex_check_granted by blast
  obtain w l cs m where p: "proxy_ServeHTTP (traced ex_ops) (\<lambda>_. []) ex_proxy (\<lambda>_ _. UpFailed) (\<lambda>_. 0) None ex_request
      (new_writer, (lim_New mem_New [], []), ?m) = Some (w, (l, cs), m)" "length cs = 2"
    using c ex_request_parts
    by (simp add: proxy_ServeHTTP_def ex_proxy_def CheckBytes_def CheckInput_def Let_def)
  show ?thesis
    using proxy_finishes [OF p(1), of undefined] p by (auto simp: ex_proxy_def)
qed

section \<open>Streams\<close>

lemma scan_long_line:
  assumes "length x = maxTokenSize" and "LF \<notin> set x"
  shows "scan_lines (x @ y) = ([], y)"
proof -
  have "length (takeWhile (\<lambda>c. c \<noteq> LF) (x @ y)) \<ge> maxTokenSize"
    using assms by (subst takeWhile_append2) auto
  then show ?thesis using assms by (subst scan_lines.simps) (auto simp: Let_def maxTokenSize_def)
qed

lemma handleStream_None:
  "handleStream ops ts gone code chunks readErr dec est world = None \<longleftrightarrow>
     snd (ParseUsageSSE (concat (sent_chunks chunks gone))) \<noteq> []"
  by (auto simp: handleStream_def Let_def split: prod.splits sum.splits)

text \<open>
  C34 (a stream with an overlong line hangs the proxy). The handler of a streamed answer returns when all
  lines that were sent to the client are shorter than a mebibyte. But if a line of the stream has a
  mebibyte without a line feed and anything at all follows, the scanner stops reading the pipe and
  the handler waits forever: it neither settles nor refunds the reservation.
\<close>

theorem stream_returns:
  assumes "concat (sent_chunks chunks gone) = concat (map (\<lambda>l. l @ [LF]) ls) @ rest" and "\<forall>l\<in>set ls. short_line l"
  shows "(rest = [] \<longrightarrow> (\<exists>world'. handleStream ops ts gone code chunks readErr dec est world = Some world'))
    \<and> (\<forall>x y. rest = x @ y \<longrightarrow> length x = maxTokenSize \<longrightarrow> LF \<notin> set x \<longrightarrow> y \<noteq> [] \<longrightarrow>
         handleStream ops ts gone code chunks readErr dec est world = None)"
proof -
  have app: "snd (scan_lines (concat (map (\<lambda>l. l @ [LF]) ls) @ rest)) = snd (scan_lines rest)"
    using assms(2) by (induction ls) (simp_all add: scan_line)
  have "snd (ParseUsageSSE (concat (sent_chunks chunks gone))) = snd (scan_lines rest)"
    by (simp add: ParseUsageSSE_def assms(1) app split_beta)
  then show ?thesis
    using scan_long_line handleStream_None [of ops ts gone code chunks readErr dec est world]
    by (auto simp: scan_lines.simps [of "[]"])
qed

definition ex_world :: "Store Limiter proxy_world" where
  "ex_world = (new_writer, lim_New mem_New [], \<lparr>mEstimateTotal = 0, mActualTotal = 0, mOverEstimate = 0, mUnderEstimate = 0, mExact = 0\<rparr>)"

theorem stream_returns_witness:
  "handleStream ex_ops (\<lambda>_. 0) None 200 [replicate 1048576 (CHR ''x''), ''y''] False zero_Decision 5 ex_world = None"
proof -
  let ?x = "replicate 1048576 (CHR ''x'')"
  have c: "concat (sent_chunks [?x, ''y''] None) = concat (map (\<lambda>l. l @ [LF]) []) @ (?x @ ''y'')"
    by (simp add: sent_chunks_def)
  have "length ?x = maxTokenSize" "LF \<notin> set ?x" by (simp_all add: maxTokenSize_def LF_def)
  then show ?thesis
    using stream_returns [OF c, of ex_ops "\<lambda>_. 0" 200 False zero_Decision 5 ex_world] by auto
qed

text \<open>Without a limit on the request size, the body is cut at eight mebibytes and one byte, and the cut body
  is what goes upstream.\<close>

lemma oversized_truncated:
  assumes "MaxRequestBytes g \<le> 0" and "\<not> rqReadErr r"
  shows "read_body g r = Some (take 8388609 (rqBody r)) \<and> \<not> CheckBytes g n"
  using assms by (simp add: read_body_def limit_bytes_def i64_exact in64_def CheckBytes_def)

end
