(* ===== verification/Adapters.thy ===== *)
theory Adapters
  imports Valved Proxy
begin

text \<open>
  The programs that put the middleware in front of a server: the Gin and Echo examples
  (\<^verbatim>\<open>examples/gin-ratelimit/main.go\<close>, \<^verbatim>\<open>examples/echo-ratelimit/main.go\<close>) and the set-up of the
  proxy (\<^verbatim>\<open>examples/openai-proxy/main.go\<close>). The frameworks are not part of the repository: their
  request contexts are parameters, with what the adapters rely on as hypotheses. The handler
  given to the middleware writes variables of the surrounding function; they travel with the
  state of the limiter (\<open>carried\<close>).
\<close>

definition carried :: "'l LimiterOps \<Rightarrow> ('l \<times> 'x) LimiterOps" where
  "carried ops =
     \<lparr>apiCheck = (\<lambda>(l, x) k lm c. let (r, l') = apiCheck ops l k lm c in (r, l', x)),
      apiSettle = (\<lambda>(l, x) rid n. let (r, l') = apiSettle ops l rid n in (r, l', x)),
      apiSettleIO = (\<lambda>(l, x) rid n m. let (r, l') = apiSettleIO ops l rid n m in (r, l', x)),
      apiRefund = (\<lambda>(l, x) rid. let (r, l') = apiRefund ops l rid in (r, l', x))\<rparr>"

section \<open>Gin\<close>

text \<open>\<^verbatim>\<open>gin.Context\<close>: the request with its context, the handlers that are still to run, and the
  way to give up on them. \<open>ginNext\<close> runs them on the answer, the limiter and the log.\<close>

record ('c, 'l) GinOps =
  ginRequest :: "'c \<Rightarrow> ctx \<times> Request"
  ginSetRequest :: "'c \<Rightarrow> ctx \<times> Request \<Rightarrow> 'c"
  ginNext :: "'c \<times> 'l world \<Rightarrow> 'c \<times> 'l world"
  ginAbort :: "'c \<Rightarrow> 'c"

definition valveGin ::
  "('c, 'l) GinOps \<Rightarrow> 'l LimiterOps \<Rightarrow> (string \<Rightarrow> int list) \<Rightarrow> Request MwConfig \<Rightarrow> (nat \<Rightarrow> time) \<Rightarrow> time
    \<Rightarrow> 'c \<times> 'l world \<Rightarrow> 'c \<times> 'l world" where
  "valveGin G ops sha256 cfg ts now world0 =
     (let (c, w, l, lg) = world0; (cx, r) = ginRequest G c;
          handler = (\<lambda>cx' r' (w1, (l1, c1, nextCalled), lg1).
            let (c2, w2, l2, lg2) = ginNext G (ginSetRequest G c1 (cx', r'), w1, l1, lg1)
            in (w2, (l2, c2, True), lg2));
          (w', (l', c', nextCalled), lg') =
            http_Middleware (carried ops) sha256 cfg handler ts now cx r (w, (l, c, False), lg)
      in (if \<not> nextCalled then ginAbort G c' else c', w', l', lg'))"

section \<open>Echo\<close>

text \<open>\<^verbatim>\<open>echo.Context\<close>; the next handler is an argument and may return an error of type \<open>'e\<close>.\<close>

record 'c EchoOps =
  echoRequest :: "'c \<Rightarrow> ctx \<times> Request"
  echoSetRequest :: "'c \<Rightarrow> ctx \<times> Request \<Rightarrow> 'c"

definition valveEcho ::
  "'c EchoOps \<Rightarrow> 'l LimiterOps \<Rightarrow> (string \<Rightarrow> int list) \<Rightarrow> Request MwConfig \<Rightarrow> (nat \<Rightarrow> time) \<Rightarrow> time
    \<Rightarrow> ('c \<times> 'l world \<Rightarrow> 'e option \<times> 'c \<times> 'l world) \<Rightarrow> 'c \<times> 'l world \<Rightarrow> 'e option \<times> 'c \<times> 'l world" where
  "valveEcho E ops sha256 cfg ts now nxt world0 =
     (let (c, w, l, lg) = world0; (cx, r) = echoRequest E c;
          handler = (\<lambda>cx' r' (w1, (l1, c1, nextErr, nextCalled), lg1).
            let (err, c2, w2, l2, lg2) = nxt (echoSetRequest E c1 (cx', r'), w1, l1, lg1)
            in (w2, (l2, c2, err, True), lg2));
          (w', (l', c', nextErr, nextCalled), lg') =
            http_Middleware (carried ops) sha256 cfg handler ts now cx r (w, (l, c, None, False), lg)
      in (if \<not> nextCalled then None else nextErr, c', w', l', lg'))"

section \<open>The examples\<close>

text \<open>Both examples use the same configuration, limiter and answer.\<close>

definition demo_config :: "Request MwConfig" where
  "demo_config =
     \<lparr>cfgKey = (\<lambda>req. let sub = header_Get (rqHeader req) ''X-Subject''
                      in \<lparr>Subject = (if sub = '''' then ''anonymous'' else sub), Model = ''demo''\<rparr>),
      cfgLimits = (\<lambda>_. zero_Limits\<lparr>RequestsPerMinute := 5, TokensPerMinute := 1000\<rparr>),
      cfgCost = (\<lambda>_. zero_Cost\<lparr>Requests := 1, CTokens := 100\<rparr>)\<rparr>"

definition demo_limiter :: "Store Limiter" where
  "demo_limiter = lim_New mem_New []"

definition hello_body :: "ctx \<Rightarrow> jout" where
  "hello_body c = OMap [(''ok'', OBool True), (''reservation_id'', OStr (ReservationIDFromContext c))]"

text \<open>The Echo demo is set up in the same way.\<close>

definition echo_config :: "Request MwConfig" where
  "echo_config =
     \<lparr>cfgKey = (\<lambda>req. let sub = header_Get (rqHeader req) ''X-Subject''
                      in \<lparr>Subject = (if sub = '''' then ''anonymous'' else sub), Model = ''demo''\<rparr>),
      cfgLimits = (\<lambda>_. zero_Limits\<lparr>RequestsPerMinute := 5, TokensPerMinute := 1000\<rparr>),
      cfgCost = (\<lambda>_. zero_Cost\<lparr>Requests := 1, CTokens := 100\<rparr>)\<rparr>"

definition echo_hello_body :: "ctx \<Rightarrow> jout" where
  "echo_hello_body c = OMap [(''ok'', OBool True), (''reservation_id'', OStr (ReservationIDFromContext c))]"

lemma echo_demo: "echo_config = demo_config" "echo_hello_body = hello_body"
  by (simp_all add: echo_config_def demo_config_def echo_hello_body_def hello_body_def fun_eq_iff)

section \<open>The proxy's settings\<close>

text \<open>The limiter and the configuration \<^verbatim>\<open>main\<close> builds; the store \<open>s\<close> is the Redis store when
  \<^verbatim>\<open>REDIS_ADDR\<close> is set. The tokenizer is left to its default.\<close>

definition proxy_limiter :: "'s \<Rightarrow> 's Limiter" where
  "proxy_limiter s = lim_New s [WithFastPath DefaultConfig]"

definition proxy_config :: "(string \<Rightarrow> string) \<Rightarrow> ProxyConfig" where
  "proxy_config getenv =
     \<lparr>pcLimits = zero_Limits\<lparr>RequestsPerMinute := envInt64 getenv ''RPM'' 60,
        TokensPerMinute := envInt64 getenv ''TPM'' 90000\<rparr>,
      pcGate = \<lparr>MaxInputTokens = envInt64 getenv ''MAX_INPUT_TOKENS'' 128000,
        MaxRequestBytes = envInt64 getenv ''MAX_REQUEST_BYTES'' 2097152\<rparr>,
      pcTokenizer = None\<rparr>"



section \<open>The adapters are the middleware\<close>

lemma carried_check [simp]:
  "apiCheck (carried ops) (l, x) k lm c = (fst (apiCheck ops l k lm c), snd (apiCheck ops l k lm c), x)"
  by (simp add: carried_def split: prod.splits)

text \<open>A middleware whose handler keeps variables: a refusal leaves them alone, an admitted request
  runs the handler once.\<close>

lemma carried_middleware:
  "http_Middleware (carried ops) sha256 cfg serve ts now cx r (w, (l, x), lg) =
     (case apiCheck ops l (cfgKey cfg r) (cfgLimits cfg r) (cfgCost cfg r) of
        (Inr d, l1) \<Rightarrow>
          if Allowed d
          then serve (withReservation cx (ReservationID d)) r (w\<lparr>wHeader := headers_Write (wHeader w) ts d\<rparr>, (l1, x), lg)
          else (let (w', l', lg') = http_Middleware ops sha256 cfg (\<lambda>_ _ y. y) ts now cx r (w, l, lg) in (w', (l', x), lg'))
      | (Inl err, l1) \<Rightarrow>
          (let (w', l', lg') = http_Middleware ops sha256 cfg (\<lambda>_ _ y. y) ts now cx r (w, l, lg) in (w', (l', x), lg')))"
  by (simp add: http_Middleware_def Let_def split: prod.splits sum.splits)

text \<open>What the Gin adapter relies on: \<^verbatim>\<open>Next\<close> runs all handlers that are pending, and \<^verbatim>\<open>Abort\<close>
  keeps pending handlers from being called.\<close>

definition gin_laws :: "('c, 'l) GinOps \<Rightarrow> bool" where
  "gin_laws G \<longleftrightarrow> (\<forall>c x. snd (ginNext G (ginAbort G c, x)) = x) \<and>
     (\<forall>y. snd (ginNext G (ginNext G y)) = snd (ginNext G y))"

text \<open>
  C32 (the adapters). When the Gin adapter returns and the engine goes on with the handlers still
  pending, the answer, the limiter and the log are those of the HTTP middleware around the rest of
  the chain: an admitted request has its handlers run once, with the reservation in the request's
  context, and a refused one has none run. The Echo adapter is the same middleware around the next
  handler, and returns that handler's error when it ran and none otherwise.
\<close>

theorem adapters_gate:
  fixes nxt :: "'c \<times> 'l world \<Rightarrow> 'e option \<times> 'c \<times> 'l world"
  assumes G: "gin_laws G" and rq: "ginRequest G c = (cx, r)" "echoRequest E e = (cx, r)"
    and check: "apiCheck ops l (cfgKey cfg r) (cfgLimits cfg r) (cfgCost cfg r) = (res, l1)"
  shows "snd (ginNext G (valveGin G ops sha256 cfg ts now (c, w, l, lg))) =
      http_Middleware ops sha256 cfg (\<lambda>cx r x. snd (ginNext G (ginSetRequest G c (cx, r), x))) ts now cx r (w, l, lg)
    \<and> snd (snd (valveEcho E ops sha256 cfg ts now nxt (e, w, l, lg))) =
      http_Middleware ops sha256 cfg (\<lambda>cx r x. snd (snd (nxt (echoSetRequest E e (cx, r), x)))) ts now cx r (w, l, lg)
    \<and> fst (valveEcho E ops sha256 cfg ts now nxt (e, w, l, lg)) =
      (case res of
         Inr d \<Rightarrow> if Allowed d
           then fst (nxt (echoSetRequest E e (withReservation cx (ReservationID d), r),
                  w\<lparr>wHeader := headers_Write (wHeader w) ts d\<rparr>, l1, lg))
           else None
       | Inl _ \<Rightarrow> None)"
proof (cases "granted res")
  case True
  then obtain d where d: "res = Inr d" "Allowed d" by (cases res) auto
  have n: "snd (ginNext G (c2, x2)) = x2" if "ginNext G y = (c2, x2)" for y c2 x2
    using G that unfolding gin_laws_def by (metis snd_conv)
  show ?thesis
    using check d n
    by (simp add: valveGin_def valveEcho_def carried_middleware rq http_Middleware_def split: prod.splits)
next
  case False
  have a: "snd (ginNext G (ginAbort G c', x)) = x" for c' x using G unfolding gin_laws_def by blast
  show ?thesis
    using check False a
    by (cases res) (simp_all add: valveGin_def valveEcho_def carried_middleware rq http_Middleware_def Let_def split: prod.splits)
qed

text \<open>A Gin context with one handler, which is pending or not.\<close>

definition gin_one :: "((ctx \<times> Request) \<times> bool, 'l) GinOps" where
  "gin_one =
     \<lparr>ginRequest = fst, ginSetRequest = (\<lambda>c rq. (rq, snd c)),
      ginNext = (\<lambda>(c, w, l, lg). if snd c
        then ((fst c, False), encode_json (hello_body (fst (fst c))) (WriteHeader 200 w), l, lg) else (c, w, l, lg)),
      ginAbort = (\<lambda>c. (fst c, False))\<rparr>"

definition ex_hello :: Request where
  "ex_hello = \<lparr>rqMethod = ''GET'', rqPath = ''/hello'', rqQuery = '''', rqHeader = Map.empty, rqBody = '''', rqReadErr = False\<rparr>"

definition demo_ops :: "Store Limiter LimiterOps" where
  "demo_ops = limiter_ops memory_store (\<lambda>_. 1000000000) (\<lambda>_. Inr ''r'')"

theorem adapters_gate_witness:
  "snd (ginNext gin_one (valveGin gin_one demo_ops (\<lambda>_. []) demo_config (\<lambda>_. 0) 0
       (((Map.empty, ex_hello), True), new_writer, demo_limiter, []))) =
   http_Middleware demo_ops (\<lambda>_. []) demo_config
     (\<lambda>cx r (w, l, lg). (encode_json (hello_body cx) (WriteHeader 200 w), l, lg)) (\<lambda>_. 0) 0 Map.empty ex_hello
     (new_writer, demo_limiter, [])"
proof -
  let ?E = "\<lparr>echoRequest = id, echoSetRequest = (\<lambda>_ rq. rq)\<rparr>"
  have g: "gin_laws gin_one" by (auto simp: gin_laws_def gin_one_def split: prod.splits)
  obtain res l1 where a: "apiCheck demo_ops demo_limiter (cfgKey demo_config ex_hello) (cfgLimits demo_config ex_hello)
      (cfgCost demo_config ex_hello) = (res, l1)" by fastforce
  show ?thesis
    using adapters_gate [OF g _ _ a, of "((Map.empty, ex_hello), True)" Map.empty ?E "(Map.empty, ex_hello)" "\<lambda>_. []"
        "\<lambda>_. 0" 0 new_writer "[]" "\<lambda>y. (None :: unit option, y)"]
    by (simp add: gin_one_def split_def)
qed

section \<open>How many requests get through\<close>











end
