(* ===== verification/Limiter_Facts.thy ===== *)
theory Limiter_Facts
  imports Store_Contract
begin

text \<open>
  Properties of the limiter: its fail modes, the fast path over any store that keeps the
  contract, the deny cache in front of it, and the settlement of an overshoot.
\<close>

section \<open>The pool across a call\<close>

lemma live_later:
  "now \<le> now' \<Longrightarrow> live (snd (getLeaseLocked p key now)) now' k = live p now' k"
  by (auto simp: getLeaseLocked_def live_def keyStr_def time_before_def Let_def split: option.splits)

lemma TryDebit_miss_pool:
  assumes "\<not> covers (live p now (cacheKey key)) cost (Split limits)"
  shows "TryDebit p now key limits cost rid =
    (None, (snd (getLeaseLocked (purgeResLocked p now) key now))\<lparr>pMiss := i64_add (pMiss p) 1\<rparr>)"
proof -
  define p1 where "p1 = snd (getLeaseLocked (purgeResLocked p now) key now)"
  have "getLeaseLocked (purgeResLocked p now) key now = (live p now (cacheKey key), p1)"
    using getLease_pair [of "purgeResLocked p now" key now] by (simp add: p1_def)
  moreover have "pMiss p1 = pMiss p" using getLease_live(6) [of "purgeResLocked p now" key now] by (simp add: p1_def)
  ultimately show ?thesis
    unfolding p1_def [symmetric]
    using assms by (cases "live p now (cacheKey key)") (simp_all add: TryDebit_def Let_def)
qed

lemma TryDebit_miss_ok:
  fixes rid :: string
  assumes "\<not> covers (live p now (cacheKey key)) cost (Split limits)"
  defines "p' \<equiv> snd (TryDebit p now key limits cost rid)"
  shows "pool_ok p \<Longrightarrow> pool_ok p'" "pCfg p' = pCfg p" "pDeny p' = pDeny p"
    "now \<le> now' \<Longrightarrow> live p' now' k = live p now' k" "now \<le> now' \<Longrightarrow> bal ax p' now' k = bal ax p now' k"
proof -
  let ?q = "purgeResLocked p now"
  have p': "p' = (snd (getLeaseLocked ?q key now))\<lparr>pMiss := i64_add (pMiss p) 1\<rparr>"
    using TryDebit_miss_pool [OF assms(1)] by (simp add: p'_def)
  have sub: "pLease (snd (getLeaseLocked ?q key now)) k = Some b \<Longrightarrow> pLease p k = Some b" for k b
    by (auto simp: getLeaseLocked_def Let_def split: option.splits if_splits)
  show c: "pCfg p' = pCfg p" "pDeny p' = pDeny p"
    using getLease_live(3,4) [of ?q key now] by (simp_all add: p')
  show "pool_ok p \<Longrightarrow> pool_ok p'"
    by (erule pool_ok_update) (use getLease_live(2) [of ?q key now] c sub in \<open>auto simp: p'\<close>)
  show l: "now \<le> now' \<Longrightarrow> live p' now' k = live p now' k"
    using live_later [of now now' ?q key k] live_cong [of p' "snd (getLeaseLocked ?q key now)"] by (simp add: p')
  then show "now \<le> now' \<Longrightarrow> bal ax p' now' k = bal ax p now' k" by (simp add: bal_def)
qed

lemma NoteBorrow_simps [simp]:
  "pLease (NoteBorrow p) = pLease p" "pCfg (NoteBorrow p) = pCfg p" "pDeny (NoteBorrow p) = pDeny p"
  "pRes (NoteBorrow p) = pRes p" "live (NoteBorrow p) now k = live p now k" "bal ax (NoteBorrow p) now k = bal ax p now k"
  by (simp_all add: NoteBorrow_def live_def bal_def)

lemma pool_ok_NoteBorrow [simp]: "pool_ok p \<Longrightarrow> pool_ok (NoteBorrow p)"
  by (erule pool_ok_update) simp_all

lemma deny_update_simps [simp]:
  "live (p\<lparr>pDeny := dc\<rparr>) now k = live p now k" "bal ax (p\<lparr>pDeny := dc\<rparr>) now k = bal ax p now k"
  by (simp_all add: live_def bal_def)

lemma pool_ok_deny [simp]: "pool_ok p \<Longrightarrow> pool_ok (p\<lparr>pDeny := dc\<rparr>)"
  by (erule pool_ok_update) simp_all

text \<open>A lease that was credited stays live until its time is over.\<close>

lemma CreditLease_later:
  assumes ok: "pool_ok p" and a: "amount_ok r" "amount_ok t" "amount_ok i" "amount_ok out"
    and l: "now \<le> now'" "now' < time_add now (LeaseTTL (pCfg p))"
  shows "live (CreditLease p now key limits r t i out) now' (cacheKey key) =
    live (CreditLease p now key limits r t i out) now (cacheKey key)"
  using pool_okD(1) [OF ok] l
  by (simp add: CreditLease_def live_def Let_def keyStr_def time_before_def time_add_def)

lemma clampCosts_axis [simp]: "axis_cost ax (clampCosts c) = max 0 (axis_cost ax c)"
  by (cases ax) (simp_all add: clampCosts_def)

lemma checkSpec_min [simp]: "axis_min ax (checkSpec cfg cost) = axis_cost ax cost"
  by (cases ax) (simp_all add: checkSpec_def)

section \<open>Loans always admit\<close>

context store_contract
begin

lemma loan_covers:
  assumes ok: "pool_ok p" "cost_ok cost" and inv: "sinv t0 s" "t0 \<le> t" "usable t" "lim_ok limits"
    and br: "opBorrow S s t key limits (checkSpec cfg cost) = (Inr b, s')" "BrAllowed b"
    and room: "\<And>ax. bal ax p now (cacheKey key) \<le> 2 ^ 61"
    and clk: "now \<le> now'" "now' < time_add now (LeaseTTL (pCfg p))"
  defines "p' \<equiv> CreditLease p now key limits (GotRPM b) (GotTPM b) (GotITPM b) (GotOTPM b)"
  shows "covers (live p' now' (cacheKey key)) cost (Split limits)" "pool_ok p'"
    "bal ax p' now k = bal ax p now k + (if k = cacheKey key then axis_got ax b else 0)"
proof -
  note am = borrow_amount(1) [OF inv br]
  note aa = am [of Rpm, simplified] am [of Tpm, simplified] am [of Itpm, simplified] am [of Otpm, simplified]
  have pick: "axis_pick ax (GotRPM b) (GotTPM b) (GotITPM b) (GotOTPM b) = axis_got ax b" for ax by (cases ax) simp_all
  note bal' = CreditLease_bal(1) [OF ok(1) aa, where k = "cacheKey key" and key = key and limits = limits and now = now,
      unfolded pick, folded p'_def, simplified]
  have room': "amount_ok (bal ax p now (cacheKey key) + axis_got ax b)" for ax
    using room [of ax] bal_amount [OF ok(1), of ax now "cacheKey key"] borrow_amount [OF inv br, of ax]
    by (simp add: amount_ok_def)
  show "pool_ok p'" unfolding p'_def using CreditLease_ok [OF ok(1) aa] room' pick by simp
  show "bal ax p' now k = bal ax p now k + (if k = cacheKey key then axis_got ax b else 0)"
    using CreditLease_bal(1) [OF ok(1) aa, of ax now key limits k] by (simp add: p'_def pick)
  obtain lb where lb: "live p' now (cacheKey key) = Some lb"
    using CreditLease_bal(2) [OF ok(1) aa] unfolding p'_def by blast
  have "axis_cost ax cost \<le> lb_axis ax lb" if "active ax (Split limits)" for ax
  proof -
    have "axis_cost ax cost \<le> axis_got ax b" using borrow_covers [OF inv br, of ax] that by simp
    also have "\<dots> \<le> bal ax p' now (cacheKey key)"
      using bal' [of ax] bal_amount [OF ok(1), of ax now "cacheKey key"] by (simp add: amount_ok_def)
    finally show ?thesis using lb by (simp add: bal_def)
  qed
  moreover have "live p' now' (cacheKey key) = Some lb"
    using CreditLease_later [OF ok(1) aa clk] lb by (simp add: p'_def)
  ultimately show "covers (live p' now' (cacheKey key)) cost (Split limits)" by (simp add: covers_iff)
qed

lemma fast_admits:
  assumes ok: "pool_ok p" "cost_ok (clampCosts cost)"
    and inv: "sinv t0 (limStore l)" "t0 \<le> ts 2" "usable (ts 2)" "lim_ok limits"
    and deny: "fst (deny_Get (pDeny p) (ts 0) key) = None" and rid: "ids 0 = Inr rid"
    and br: "lent (fst (opBorrow S (limStore l) (ts 2) key limits (checkSpec (pCfg p) (clampCosts cost))))"
    and room: "\<And>ax. bal ax p (ts 3) (cacheKey key) \<le> 2 ^ 61"
    and clk: "ts 1 \<le> ts 3" "ts 3 \<le> ts 4" "ts 4 < time_add (ts 3) (LeaseTTL (pCfg p))"
  shows "Allowed (fst (checkFast S l p ts ids key limits cost)) \<and>
    ReservationID (fst (checkFast S l p ts ids key limits cost)) = rid"
proof -
  let ?c = "clampCosts cost" and ?p1 = "p\<lparr>pDeny := snd (deny_Get (pDeny p) (ts 0) key)\<rparr>"
  have g: "deny_Get (pDeny p) (ts 0) key = (None, snd (deny_Get (pDeny p) (ts 0) key))"
    using deny by (metis prod.collapse)
  have ok1: "pool_ok ?p1" using ok by simp
  show ?thesis
  proof (cases "covers (live ?p1 (ts 1) (cacheKey key)) ?c (Split limits)")
    case True
    from TryDebit_hit(1) [OF True ok1 ok(2), of rid] show ?thesis
      by (subst (1 2) checkFast_def, subst (1 2) g)
         (auto simp: Let_def rid simp del: One_nat_def split: prod.splits)
  next
    case False
    define p2 where "p2 = snd (TryDebit ?p1 (ts 1) key limits ?c rid)"
    note m = TryDebit_miss_ok [OF False, where rid = rid, folded p2_def]
    have t: "TryDebit ?p1 (ts 1) key limits ?c rid = (None, p2)"
      using TryDebit_miss(1) [OF False, of rid] by (metis p2_def prod.collapse)
    obtain b s' where b: "opBorrow S (limStore l) (ts 2) key limits (checkSpec (pCfg (NoteBorrow p2)) ?c) = (Inr b, s')"
      "BrAllowed b"
      using br m(2) by (cases "opBorrow S (limStore l) (ts 2) key limits (checkSpec (pCfg p) ?c)"; cases "fst (opBorrow S (limStore l) (ts 2) key limits (checkSpec (pCfg p) ?c))") auto
    have ok3: "pool_ok (NoteBorrow p2)" using m(1) ok1 by simp
    have room3: "bal ax (NoteBorrow p2) (ts 3) (cacheKey key) \<le> 2 ^ 61" for ax using room m(5) clk(1) by simp
    have clk3: "ts 4 < time_add (ts 3) (LeaseTTL (pCfg (NoteBorrow p2)))" using clk(3) m(2) by simp
    note lc = loan_covers [OF ok3 ok(2) inv b room3 clk(2) clk3]
    from TryDebit_hit(1) [OF lc(1) lc(2) ok(2), of rid] show ?thesis
      by (subst (1 2) checkFast_def, subst (1 2) g)
         (auto simp: Let_def rid t b(1) [unfolded NoteBorrow_simps(2)] b(2) simp del: One_nat_def split: prod.splits)
  qed
qed

end

text \<open>
  C23 (a loan admits). On the fast path over the in-memory store: when no denial is cached for
  the key and the store lends what the request asked for, the request is admitted under the
  drawn id, provided the clock moves less than the lease lifetime between crediting and
  debiting the lease. The branch that answers with a backend denial is not taken.
\<close>

theorem fast_loan_admits:
  assumes p: "limPool l = Some p" "pool_ok p" "cost_ok (clampCosts cost)"
    and valid: "Validate limits = None" "limits_ok limits"
    and inv: "mem_inv t0 (limStore l)" "t0 \<le> ts 2" "mem_usable (ts 2)"
    and deny: "fst (deny_Get (pDeny p) (ts 0) key) = None" and rid: "ids 0 = Inr rid"
    and br: "lent (fst (mem_Borrow (limStore l) (ts 2) key limits (checkSpec (pCfg p) (clampCosts cost))))"
    and room: "\<forall>ax \<in> {Rpm, Tpm, Itpm, Otpm}. bal ax p (ts 3) (cacheKey key) \<le> 2 ^ 61"
    and clk: "ts 1 \<le> ts 3" "ts 3 \<le> ts 4" "ts 4 < time_add (ts 3) (LeaseTTL (pCfg p))"
  shows "\<exists>d. fst (lim_Check memory_store l ts ids key limits cost) = Inr d \<and> Allowed d \<and> ReservationID d = rid"
proof -
  have "lent (fst (opBorrow memory_store (limStore l) (ts 2) key limits (checkSpec (pCfg p) (clampCosts cost))))"
    using br by (simp add: memory_store_def)
  moreover have "bal ax p (ts 3) (cacheKey key) \<le> 2 ^ 61" for ax using room unfolding all_axes by blast
  ultimately have "Allowed (fst (checkFast memory_store l p ts ids key limits cost)) \<and>
      ReservationID (fst (checkFast memory_store l p ts ids key limits cost)) = rid"
    using memory.fast_admits [of p cost t0 l ts limits key ids rid] p valid inv deny rid clk by blast
  then show ?thesis by (auto simp: lim_Check_def valid p split: prod.splits)
qed

section \<open>Fail modes\<close>

text \<open>
  C25 (the fail modes). Without the fast path, whatever the store is: a check returns an error
  only for limits that fail validation. When no id can be drawn or the store reports an
  error, the closed mode denies with the backend type and a wait of one second, the open mode
  allows without a reservation; otherwise the answer is the store's.
\<close>

theorem direct_fail_mode:
  assumes "limPool l = None" "Validate limits = None"
  shows "\<exists>d. fst (lim_Check S l ts ids key limits cost) = Inr d \<and>
    (case ids 0 of
       Inl e \<Rightarrow> d = onStoreErr (limFailMode l) limits \<and> snd (lim_Check S l ts ids key limits cost) = l
     | Inr rid \<Rightarrow>
         (case fst (opCheck S (limStore l) (ts 0) key limits cost rid) of
            Inl e \<Rightarrow> d = onStoreErr (limFailMode l) limits
          | Inr d' \<Rightarrow> d = d')) \<and>
    onStoreErr FailClosed limits = denyDecision limits LimitTypeBackend Second \<and>
    \<not> Allowed (onStoreErr FailClosed limits) \<and> RetryAfter (onStoreErr FailClosed limits) = Second \<and>
    Allowed (onStoreErr FailOpen limits) \<and> ReservationID (onStoreErr FailOpen limits) = '''' \<and>
    RemainingRPM (onStoreErr FailOpen limits) = LimitRPM (onStoreErr FailOpen limits)"
  using assms
  by (auto simp: lim_Check_def checkDirect_def onStoreErr_def denyDecision_def zero_Decision_def Let_def
      split: sum.splits prod.splits)

theorem direct_fail_mode_witness:
  "\<exists>d. fst (lim_Check memory_store \<lparr>limStore = mem_New, limFailMode = FailOpen, limPool = None\<rparr>
      (\<lambda>_. 1000000000) (\<lambda>_. Inl (ErrBackend ''entropy'')) ex_key ex_limits ex_cost) = Inr d \<and> Allowed d"
proof -
  have "Validate ex_limits = None" by (simp add: ex_limits_def Validate_def)
  then show ?thesis
    using direct_fail_mode [of "\<lparr>limStore = mem_New, limFailMode = FailOpen, limPool = None\<rparr>" ex_limits
        memory_store "\<lambda>_. 1000000000" "\<lambda>_. Inl (ErrBackend ''entropy'')" ex_key ex_cost] by auto
qed

lemma onStoreErrFast_denied:
  assumes "\<not> covers (live p tHas (cacheKey key)) cost (Split limits)"
  shows "fst (onStoreErrFast l p tHas tDebit newid key limits cost) = denyDecision limits LimitTypeBackend Second"
  using assms getLease_pair [of p key tHas]
  by (auto simp: onStoreErrFast_def Has_def Let_def split: prod.splits sum.splits option.splits)

lemma live_antimono: "now \<le> now' \<Longrightarrow> live p now' k = Some b \<Longrightarrow> live p now k = Some b"
  by (auto simp: live_def time_before_def split: option.splits if_splits)

lemma denyDecision_denied [simp]:
  "\<not> Allowed (denyDecision limits lt retry)" "LimitType (denyDecision limits lt retry) = lt"
  "RetryAfter (denyDecision limits lt retry) = retry" "ReservationID (denyDecision limits lt retry) = ''''"
  by (simp_all add: denyDecision_def zero_Decision_def Let_def)

text \<open>
  C24 (an outage invents no credit). On the fast path, when the store answers the loan with an
  error, a request is admitted exactly when the local lease covered it already, in the open as
  in the closed mode; every other request is denied with the backend type.
\<close>

theorem fast_outage:
  assumes p: "limPool l = Some p" "pool_ok p" "cost_ok (clampCosts cost)" and valid: "Validate limits = None"
    and deny: "fst (deny_Get (pDeny p) (ts 0) key) = None" and rid: "ids 0 = Inr rid"
    and down: "fst (opBorrow S (limStore l) (ts 2) key limits (checkSpec (pCfg p) (clampCosts cost))) = Inl e"
    and clk: "ts 1 \<le> ts 6"
  shows "\<exists>d. fst (lim_Check S l ts ids key limits cost) = Inr d \<and>
    (Allowed d \<longleftrightarrow> covers (live p (ts 1) (cacheKey key)) (clampCosts cost) (Split limits)) \<and>
    (\<not> Allowed d \<longrightarrow> LimitType d = LimitTypeBackend \<and> RetryAfter d = Second)"
proof -
  let ?c = "clampCosts cost" and ?p1 = "p\<lparr>pDeny := snd (deny_Get (pDeny p) (ts 0) key)\<rparr>"
  have g: "deny_Get (pDeny p) (ts 0) key = (None, snd (deny_Get (pDeny p) (ts 0) key))"
    using deny by (metis prod.collapse)
  have ok1: "pool_ok ?p1" using p(2) by simp
  have chk: "fst (lim_Check S l ts ids key limits cost) = Inr (fst (checkFast S l p ts ids key limits cost))"
    by (simp add: lim_Check_def valid p(1) split: prod.splits)
  show ?thesis
  proof (cases "covers (live ?p1 (ts 1) (cacheKey key)) ?c (Split limits)")
    case True
    obtain d p2 where "TryDebit ?p1 (ts 1) key limits ?c rid = (Some d, p2)" "Allowed d"
      using TryDebit_hit(1) [OF True ok1 p(3), of rid] by (metis prod.collapse)
    then have "Allowed (fst (checkFast S l p ts ids key limits cost))"
      by (subst checkFast_def, subst g) (simp add: Let_def rid del: One_nat_def)
    then show ?thesis using True chk by simp
  next
    case False
    define p2 where "p2 = snd (TryDebit ?p1 (ts 1) key limits ?c rid)"
    note m = TryDebit_miss_ok [OF False, where rid = rid, folded p2_def]
    have t: "TryDebit ?p1 (ts 1) key limits ?c rid = (None, p2)"
      using TryDebit_miss(1) [OF False, of rid] by (metis p2_def prod.collapse)
    obtain s' where b: "opBorrow S (limStore l) (ts 2) key limits (checkSpec (pCfg p2) ?c) = (Inl e, s')"
      using down m(2) by (metis Pool.surjective Pool.update_convs(2) prod.collapse Pool.select_convs(1))
    have "\<not> covers (live (NoteBorrow p2) (ts 6) (cacheKey key)) ?c (Split limits)"
      using False live_antimono [OF clk, of ?p1] m(4) [OF clk] by (auto simp: covers_iff simp del: One_nat_def)
    note d = onStoreErrFast_denied [OF this, of l "ts 7" "ids 1"]
    have "fst (checkFast S l p ts ids key limits cost) = denyDecision limits LimitTypeBackend Second"
      using d by (subst checkFast_def, subst g) (simp add: Let_def rid t b case_prod_beta del: One_nat_def)
    then show ?thesis using False chk by simp
  qed
qed

text \<open>
  C26 (a cached denial blocks the key). While a denial is cached, every check of the key is
  denied with the cached type and the time left, whatever it costs, and neither the store nor
  any lease changes.
\<close>

theorem cached_denial_blocks:
  assumes "limPool l = Some p" "Validate limits = None" "fst (deny_Get (pDeny p) (ts 0) key) = Some (lt, retry)"
  shows "\<exists>d. fst (lim_Check S l ts ids key limits cost) = Inr d \<and> \<not> Allowed d \<and> LimitType d = lt \<and>
    RetryAfter d = retry \<and> limStore (snd (lim_Check S l ts ids key limits cost)) = limStore l \<and>
    (\<exists>p'. limPool (snd (lim_Check S l ts ids key limits cost)) = Some p' \<and> bal ax p' now k = bal ax p now k)"
proof -
  have g: "deny_Get (pDeny p) (ts 0) key = (Some (lt, retry), snd (deny_Get (pDeny p) (ts 0) key))"
    using assms(3) by (metis prod.collapse)
  have "checkFast S l p ts ids key limits cost =
      (denyDecision limits lt retry, p\<lparr>pDeny := snd (deny_Get (pDeny p) (ts 0) key)\<rparr>, limStore l)"
    by (subst checkFast_def, subst g) (simp add: Let_def)
  then show ?thesis using assms(1,2) by (simp add: lim_Check_def)
qed

definition ex_fast :: "Store Limiter" where
  "ex_fast = lim_New mem_New [WithFastPath DefaultConfig]"

lemma ex_fast_simps [simp]:
  "limStore ex_fast = mem_New" "limFailMode ex_fast = FailClosed" "limPool ex_fast = Some (NewPool DefaultConfig)"
  by (simp_all add: ex_fast_def lim_New_def WithFastPath_def)

lemma NewPool_ok: "pool_ok (NewPool cfg)"
  by (simp add: pool_ok_def NewPool_def normalized_def Second_def)

lemma NewPool_simps [simp]:
  "pDeny (NewPool cfg) = Map.empty" "live (NewPool cfg) now k = None" "bal ax (NewPool cfg) now k = 0"
  "pCfg (NewPool cfg) = normalized cfg"
  by (simp_all add: NewPool_def NewDenyCache_def live_def bal_def)

lemma ex_clamped: "clampCosts ex_cost = ex_cost" "cost_ok ex_cost"
  by (simp_all add: clampCosts_def ex_cost_def cost_ok_def amount_ok_def)

lemma ex_valid: "Validate ex_limits = None" "limits_ok ex_limits"
  by (simp_all add: ex_limits_def Validate_def limits_ok_def cap_ok_def)

lemma ex_loan: "lent (fst (mem_Borrow mem_New 1000000000 ex_key ex_limits (checkSpec (normalized DefaultConfig) ex_cost)))"
  by (simp add: mem_Borrow_def borrowClassicLocked_def store_eval ex_defs bucket_eval clampSpec_def checkSpec_def
      zero_BorrowResult_def DefaultConfig_def normalized_def)

theorem fast_loan_admits_witness:
  "\<exists>d. fst (lim_Check memory_store ex_fast (\<lambda>_. 1000000000) (\<lambda>_. Inr ''r'') ex_key ex_limits ex_cost) = Inr d \<and>
     Allowed d \<and> ReservationID d = ''r''"
proof (rule fast_loan_admits [where ?t0.0 = 1000000000 and p = "NewPool DefaultConfig"])
  show "mem_inv 1000000000 (limStore ex_fast)" using store_ok_New by (simp add: mem_inv_def mem_usable_def in64_def)
  show "lent (fst (mem_Borrow (limStore ex_fast) 1000000000 ex_key ex_limits
      (checkSpec (pCfg (NewPool DefaultConfig)) (clampCosts ex_cost))))"
    using ex_loan by (simp add: ex_clamped)
  show "1000000000 < time_add 1000000000 (LeaseTTL (pCfg (NewPool DefaultConfig)))"
    by (simp add: time_add_def) (simp add: normalized_def DefaultConfig_def Second_def)
qed (simp_all add: ex_valid ex_clamped NewPool_ok mem_usable_def in64_def deny_Get_def)

text \<open>A store that is down.\<close>

definition down_store :: "unit StoreOps" where
  "down_store = \<lparr>opCheck = (\<lambda>s t key limits cost rid. (Inl (ErrBackend ''down''), s)),
     opSettle = (\<lambda>s t rid n. (Inl (ErrBackend ''down''), s)),
     opSettleIO = (\<lambda>s t rid n m. (Inl (ErrBackend ''down''), s)),
     opRefund = (\<lambda>s t rid. (Some (ErrBackend ''down''), s)),
     opBorrow = (\<lambda>s t key limits spec. (Inl (ErrBackend ''down''), s)),
     opReturn = (\<lambda>s t key limits a b c d. (Some (ErrBackend ''down''), s))\<rparr>"

theorem fast_outage_witness:
  "\<exists>d. fst (lim_Check down_store \<lparr>limStore = (), limFailMode = FailOpen, limPool = Some (NewPool DefaultConfig)\<rparr>
      (\<lambda>_. 0) (\<lambda>_. Inr ''r'') ex_key ex_limits ex_cost) = Inr d \<and> \<not> Allowed d \<and> LimitType d = LimitTypeBackend"
proof -
  let ?l = "\<lparr>limStore = (), limFailMode = FailOpen, limPool = Some (NewPool DefaultConfig)\<rparr>"
  have "fst (opBorrow down_store (limStore ?l) 0 ex_key ex_limits (checkSpec (pCfg (NewPool DefaultConfig)) (clampCosts ex_cost)))
      = Inl (ErrBackend ''down'')" by (simp add: down_store_def)
  from fast_outage [of ?l _ ex_cost ex_limits "\<lambda>_. 0" ex_key "\<lambda>_. Inr ''r''", OF _ NewPool_ok _ _ _ _ this]
  show ?thesis using ex_valid ex_clamped by (auto simp: deny_Get_def covers_def)
qed

theorem cached_denial_blocks_witness:
  "\<exists>d. fst (lim_Check down_store \<lparr>limStore = (), limFailMode = FailOpen,
        limPool = Some ((NewPool DefaultConfig)\<lparr>pDeny := deny_Set Map.empty 0 ex_key LimitTypeTokens (30 * Second)\<rparr>)\<rparr>
      (\<lambda>_. 10 * Second) (\<lambda>_. Inr ''r'') ex_key ex_limits zero_Cost) = Inr d \<and> \<not> Allowed d \<and> RetryAfter d = 20 * Second"
proof -
  let ?p = "(NewPool DefaultConfig)\<lparr>pDeny := deny_Set Map.empty 0 ex_key LimitTypeTokens (30 * Second)\<rparr>"
  have "fst (deny_Get (pDeny ?p) (10 * Second) ex_key) = Some (LimitTypeTokens, 20 * Second)"
    by (simp add: deny_Get_def deny_Set_def Let_def time_before_def time_add_def time_sub_def Second_def)
  from cached_denial_blocks [of "\<lparr>limStore = (), limFailMode = FailOpen, limPool = Some ?p\<rparr>" ?p ex_limits
      "\<lambda>_. 10 * Second", OF _ ex_valid(1) this, of down_store "\<lambda>_. Inr ''r''" zero_Cost Rpm 0 "[]"]
  show ?thesis by auto
qed

section \<open>Settling an overshoot\<close>

lemma ApplyBorrowedDeficit_live:
  assumes "pRes p rid = Some r" "live p now (cacheKey (lrKey r)) = Some b"
    and "payOvershoot (i64_add (lbTpm b) got) (OvershootTPM (lrLastDecision r)) = (tpm, over)"
  shows "bal Tpm (ApplyBorrowedDeficit p now rid got) now (cacheKey (lrKey r)) = tpm"
    "\<exists>r'. pRes (ApplyBorrowedDeficit p now rid got) rid = Some r' \<and>
       OvershootTPM (lrLastDecision r') = over \<and> lrExpiresAt r' = lrExpiresAt r"
proof -
  define p1 where "p1 = snd (getLeaseLocked p (lrKey r) now)"
  have g: "getLeaseLocked p (lrKey r) now = (Some b, p1)"
    using getLease_pair [of p "lrKey r" now] assms(2) by (simp add: p1_def)
  have "time_before now (lbExpiresAt b)" using assms(2) by (auto simp: live_def split: option.splits if_splits)
  then show "bal Tpm (ApplyBorrowedDeficit p now rid got) now (cacheKey (lrKey r)) = tpm"
    and "\<exists>r'. pRes (ApplyBorrowedDeficit p now rid got) rid = Some r' \<and>
       OvershootTPM (lrLastDecision r') = over \<and> lrExpiresAt r' = lrExpiresAt r"
    using assms(1,3) by (simp_all add: ApplyBorrowedDeficit_def Let_def g bal_def live_def keyStr_def)
qed

lemma GetReservation_live:
  "pRes p rid = Some r \<Longrightarrow> \<not> time_after now (lrExpiresAt r) \<Longrightarrow>
     GetReservation p now rid = (Some r, purgeResLocked p now)"
  by (simp add: GetReservation_def Let_def map_drop_keep)

text \<open>
  A loan for an overshoot is credited twice. A classic local reservation is settled with
  \<open>need\<close> more tokens than the reservation and the lease hold, and the store lends exactly
  \<open>need\<close>. The usage has then consumed the whole balance and the whole loan, but the lease is
  left with \<open>need\<close> tokens: the loan was added by \<^verbatim>\<open>CreditLease\<close> and again by
  \<^verbatim>\<open>ApplyBorrowedDeficit\<close>.
\<close>

theorem overshoot_loan_twice:
  assumes l: "limPool l = Some p" "pool_ok p" and r: "local_pending p t rid = Some r" "\<not> Split (lrLimits r)"
    and a: "amount_ok a" and need: "need = a - lrTPMReserved r - bal Tpm p t (cacheKey (lrKey r))" "0 < need"
    and loan: "opBorrow S (limStore l) t (lrKey r) (lrLimits r) (zero_BorrowSpec\<lparr>MinTPM := need, ChunkTPM := need\<rparr>) = (Inr b, s')"
      "BrAllowed b" "GotRPM b = 0" "GotTPM b = need"
  shows "\<exists>d p'. fst (lim_Settle S l (\<lambda>_. t) rid a) = Inr d \<and> OvershootTPM d = 0 \<and>
    limPool (snd (lim_Settle S l (\<lambda>_. t) rid a)) = Some p' \<and> bal Tpm p' t (cacheKey (lrKey r)) = need"
proof -
  let ?k = "cacheKey (lrKey r)" and ?q = "purgeResLocked p t"
  obtain b0 p1 where lf: "leaseFor (purgeResLocked ?q t) r t = (b0, p1)" by fastforce
  note qok = pool_ok_purge [OF l(2)] and lp = leaseFor_props [OF pool_ok_purge [OF pool_ok_purge [OF l(2)]] lf]
  have r': "local_pending ?q t rid = Some r" using r(1) by (auto simp: local_pending_def map_drop_def split: option.splits if_splits)
  have B: "lbTpm b0 = bal Tpm p t ?k" using lp(1) [of Tpm] by simp
  have am: "amount_ok (lbTpm b0)" "amount_ok (lrTPMReserved r)" "amount_ok (max 0 a)"
    using B bal_amount [OF l(2)] local_pending_amount [OF l(2) r(1), of Tpm] a by (simp_all add: amount_ok_def)
  have a0: "max 0 a = a" and na: "amount_ok need"
    using a am need by (simp_all add: amount_ok_def B)
  have "applyLocalDelta (lbTpm b0) (lrTPMReserved r) (max 0 a) = (0, need, False)"
    using applyLocalDelta_spec [OF am] need am unfolding a0 by (simp add: B amount_ok_def)
  from SettleLocal_pending [OF r' r(2) lf this] obtain dec where dec:
    "SettleLocal ?q t rid a = (Inr dec, p1\<lparr>pLease := (pLease p1)(?k \<mapsto>
        b0\<lparr>lbTpm := 0, lbExpiresAt := time_add t (LeaseTTL (pCfg p1))\<rparr>),
      pRes := (pRes p1)(rid \<mapsto> local_finish r Settled dec t), pDeny := pDeny p1\<rparr>)"
    "OvershootTPM dec = need" by auto
  define p2 where "p2 = snd (SettleLocal ?q t rid a)"
  define p4 where "p4 = CreditLease (NoteBorrow p2) t (lrKey r) (lrLimits r) 0 need 0 0"
  have ttl: "0 < LeaseTTL (pCfg p1)" using pool_okD(1) [OF l(2)] lp(2) by simp
  obtain b4 where b4: "live p4 t ?k = Some b4" "lbTpm b4 = need"
    using ttl na by (simp add: p4_def p2_def dec(1) CreditLease_def Let_def keyStr_def live_def time_before_def time_add_def NoteBorrow_def)
  have res4: "pRes p4 rid = Some (local_finish r Settled dec t)"
    by (simp add: p4_def p2_def dec(1) CreditLease_def Let_def)
  have "in64 (need + need)" "in64 need" using na by (simp_all add: amount_ok_def in64_def)
  then have "i64_sub (need + need) need = need" using i64_exact(2) [of "need + need" need] by simp
  then have pay: "payOvershoot (i64_add (lbTpm b4) need) (OvershootTPM (lrLastDecision (local_finish r Settled dec t))) = (need, 0)"
    using na need(2) by (simp add: payOvershoot_def b4(2) dec(2))
  note ab = ApplyBorrowedDeficit_live [where now = t, OF res4 _ pay, simplified, OF b4(1)]
  obtain u where u: "pRes (ApplyBorrowedDeficit p4 t rid need) rid = Some u" "OvershootTPM (lrLastDecision u) = 0"
    "lrExpiresAt u = time_add t ReservationTTL" using ab(2) by blast
  have g1: "GetReservation p t rid = (Some r, ?q)"
    using r(1) by (auto simp: local_pending_def GetReservation_def Let_def map_drop_def split: option.splits if_splits)
  have g2: "GetReservation (ApplyBorrowedDeficit p4 t rid need) t rid =
      (Some u, purgeResLocked (ApplyBorrowedDeficit p4 t rid need) t)"
    by (rule GetReservation_live [OF u(1)]) (simp add: u(3) time_after_def time_add_def ReservationTTL_def Minute_def)
  have s: "SettleLocal ?q t rid a = (Inr dec, p2)" using dec(1) by (simp add: p2_def)
  have "lim_Settle S l (\<lambda>_. t) rid a =
      (Inr (lrLastDecision u), l\<lparr>limPool := Some (purgeResLocked (ApplyBorrowedDeficit p4 t rid need) t), limStore := s'\<rparr>)"
    using r(2) need(2) by (simp add: lim_Settle_def Let_def l(1) g1 s dec(2) loan p4_def [symmetric] g2)
  then show ?thesis using u(2) ab(1) by simp
qed

definition lending_store :: "BorrowResult \<Rightarrow> unit StoreOps" where
  "lending_store b = down_store\<lparr>opBorrow := (\<lambda>s t key limits spec. (Inr b, s))\<rparr>"

theorem overshoot_loan_twice_witness:
  "\<exists>p d p'. pool_ok p \<and>
     fst (lim_Settle (lending_store (zero_BorrowResult\<lparr>BrAllowed := True, GotTPM := 100\<rparr>))
       \<lparr>limStore = (), limFailMode = FailClosed, limPool = Some p\<rparr> (\<lambda>_. 0) ''r'' 600) = Inr d \<and>
     limPool (snd (lim_Settle (lending_store (zero_BorrowResult\<lparr>BrAllowed := True, GotTPM := 100\<rparr>))
       \<lparr>limStore = (), limFailMode = FailClosed, limPool = Some p\<rparr> (\<lambda>_. 0) ''r'' 600)) = Some p' \<and>
     bal Tpm p' 0 (cacheKey \<lparr>Subject = ''u'', Model = ''m''\<rparr>) = 100"
proof -
  let ?key = "\<lparr>Subject = ''u'', Model = ''m''\<rparr>"
  define p where "p = snd (TryDebit ex_pool 0 ?key ex_llimits ex_lcost ''r'')"
  note h = TryDebit_hit [OF ex_pool_covers ex_pool_ok ex_lcost_ok, where rid = "''r''", folded p_def]
  let ?l = "\<lparr>limStore = (), limFailMode = FailClosed, limPool = Some p\<rparr>"
  let ?S = "lending_store (zero_BorrowResult\<lparr>BrAllowed := True, GotTPM := 100\<rparr>)"
  obtain r where r: "local_pending p 0 ''r'' = Some r" "lrKey r = ?key" "lrLimits r = ex_llimits"
    "\<forall>ax. lr_axis ax r = axis_cost ax ex_lcost" using h(5) by blast
  have sp: "\<not> Split (lrLimits r)" "active Tpm (Split ex_llimits)" by (simp_all add: r(3) ex_llimits_def Split_def)
  have "bal Tpm p 0 (cacheKey ?key) = 300" "lrTPMReserved r = 200"
    using h(2) [of Tpm "cacheKey ?key"] sp(2) ex_pool_bal r(4) [THEN spec, of Tpm] by (simp_all add: ex_lcost_def)
  then have n: "100 = 600 - lrTPMReserved r - bal Tpm p 0 (cacheKey (lrKey r))" by (simp add: r(2))
  have a: "amount_ok 600" "(0 :: int) < 100" by (simp_all add: amount_ok_def)
  have "\<exists>d p'. fst (lim_Settle ?S ?l (\<lambda>_. 0) ''r'' 600) = Inr d \<and> OvershootTPM d = 0 \<and>
      limPool (snd (lim_Settle ?S ?l (\<lambda>_. 0) ''r'' 600)) = Some p' \<and> bal Tpm p' 0 (cacheKey (lrKey r)) = 100"
    by (rule overshoot_loan_twice [OF _ h(3) r(1) sp(1) a(1) n a(2),
          where b = "zero_BorrowResult\<lparr>BrAllowed := True, GotTPM := 100\<rparr>" and s' = "()"])
       (simp_all add: lending_store_def zero_BorrowResult_def)
  then show ?thesis using h(3) unfolding r(2) by blast
qed

section \<open>Conservation on the fast path\<close>

text \<open>What a check on the fast path borrows from the store on an axis.\<close>

definition fast_loan ::
  "'s StoreOps \<Rightarrow> 's \<Rightarrow> Pool \<Rightarrow> time \<Rightarrow> (error, string) result \<Rightarrow> Key \<Rightarrow> Limits \<Rightarrow> Cost \<Rightarrow> axis \<Rightarrow> int" where
  "fast_loan S s p t newid key limits cost ax =
     (if fst (deny_Get (pDeny p) t key) = None \<and> is_ok newid \<and>
         \<not> covers (live p t (cacheKey key)) cost (Split limits)
      then (case fst (opBorrow S s t key limits (checkSpec (pCfg p) cost)) of
              Inr b \<Rightarrow> if BrAllowed b then axis_got ax b else 0
            | Inl _ \<Rightarrow> 0)
      else 0)"

lemma borrowDenyDecision_denied [simp]: "\<not> Allowed (borrowDenyDecision limits br)"
  by (simp add: borrowDenyDecision_def Let_def zero_Decision_def)

lemma onStoreErrFast_conserves:
  assumes ok: "pool_ok p" "cost_ok cost"
  shows "bal ax (snd (onStoreErrFast l p t t newid key limits cost)) t k = bal ax p t k -
    (if Allowed (fst (onStoreErrFast l p t t newid key limits cost)) \<and> k = cacheKey key \<and> active ax (Split limits)
     then axis_cost ax cost else 0)"
proof -
  define p1 where "p1 = snd (getLeaseLocked p key t)"
  have g: "getLeaseLocked p key t = (live p t (cacheKey key), p1)" using getLease_pair [of p key t] by (simp add: p1_def)
  have l1: "live p1 t k = live p t k" for k using getLease_live(7) by (simp add: p1_def)
  then have b1: "bal ax p1 t k = bal ax p t k" for ax k by (simp add: bal_def)
  have ok1: "pool_ok p1"
    by (rule pool_ok_update [OF ok(1)])
       (auto simp: p1_def getLeaseLocked_def Let_def split: option.splits if_splits)
  show ?thesis
  proof (cases "limFailMode l = FailOpen \<and> covers (live p t (cacheKey key)) cost (Split limits) \<and> is_ok newid")
    case True
    then obtain rid where rid: "newid = Inr rid" by (cases newid) auto
    have c: "covers (live p1 t (cacheKey key)) cost (Split limits)" using True l1 by simp
    note h = TryDebit_hit [OF c ok1 ok(2), where rid = rid]
    obtain d p2 where d: "TryDebit p1 t key limits cost rid = (Some d, p2)" "Allowed d"
      using h(1) by (metis prod.collapse)
    then show ?thesis using True h(2) [of ax k] b1
      by (simp add: onStoreErrFast_def Has_def Let_def g rid)
  next
    case False
    then have "fst (onStoreErrFast l p t t newid key limits cost) = denyDecision limits LimitTypeBackend Second \<and>
        (snd (onStoreErrFast l p t t newid key limits cost) = p \<or> snd (onStoreErrFast l p t t newid key limits cost) = p1)"
      by (cases newid) (auto simp: onStoreErrFast_def Has_def Let_def g)
    then show ?thesis using b1 by auto
  qed
qed

lemma checkFast_miss:
  assumes p1: "p1 = p\<lparr>pDeny := snd (deny_Get (pDeny p) (ts 0) key)\<rparr>" and deny: "fst (deny_Get (pDeny p) (ts 0) key) = None" and rid: "ids 0 = Inr rid"
    and miss: "\<not> covers (live p1 (ts 1) (cacheKey key)) (clampCosts cost) (Split limits)"
    and p3: "p3 = NoteBorrow (snd (TryDebit p1 (ts 1) key limits (clampCosts cost) rid))"
    and br: "opBorrow S (limStore l) (ts 2) key limits (checkSpec (pCfg p3) (clampCosts cost)) = (br, s)"
  shows "checkFast S l p ts ids key limits cost =
    (case br of
       Inl err \<Rightarrow> (let (d, q) = onStoreErrFast l p3 (ts 6) (ts 7) (ids 1) key limits (clampCosts cost) in (d, q, s))
     | Inr b \<Rightarrow>
         if \<not> BrAllowed b then
           (borrowDenyDecision limits b,
            p3\<lparr>pDeny := deny_Set (pDeny p3) (ts 3) key (BrLimitType b) (BrRetryAfter b)\<rparr>, s)
         else
           (let p4 = CreditLease p3 (ts 3) key limits (GotRPM b) (GotTPM b) (GotITPM b) (GotOTPM b)
            in case TryDebit p4 (ts 4) key limits (clampCosts cost) rid of
                 (Some d, p5) \<Rightarrow> (d, p5, s)
               | (None, p5) \<Rightarrow>
                   (denyDecision limits LimitTypeBackend Second,
                    p5\<lparr>pDeny := deny_Set (pDeny p5) (ts 5) key LimitTypeBackend Second\<rparr>, s)))"
proof -
  have g: "deny_Get (pDeny p) (ts 0) key = (None, snd (deny_Get (pDeny p) (ts 0) key))"
    using deny by (metis prod.collapse)
  define p2 where "p2 = snd (TryDebit p1 (ts 1) key limits (clampCosts cost) rid)"
  have t: "TryDebit p1 (ts 1) key limits (clampCosts cost) rid = (None, p2)"
    using TryDebit_miss(1) [OF miss, of rid] by (metis p2_def prod.collapse)
  have p3': "NoteBorrow p2 = p3" by (simp add: p3 p2_def)
  show ?thesis
    unfolding checkFast_def Let_def
    by (subst g) (simp only: prod.case option.case rid sum.case p1 [symmetric] t p3' br)
qed

context store_contract
begin

lemma fast_conserves_miss:
  assumes ok: "pool_ok p" "cost_ok (clampCosts cost)"
    and inv: "sinv t0 (limStore l)" "t0 \<le> t" "usable t" "lim_ok limits"
    and room: "\<And>ax. bal ax p t (cacheKey key) \<le> 2 ^ 61"
    and r: "checkFast S l p (\<lambda>_. t) ids key limits cost = (d, p', s')"
    and miss: "deny_Get (pDeny p) t key = (None, dc)" "ids 0 = Inr rid" "\<not> covers (live p t (cacheKey key)) (clampCosts cost) (Split limits)"
  shows "bal ax p' t k = bal ax p t k +
      (if k = cacheKey key then fast_loan S (limStore l) p t (ids 0) key limits (clampCosts cost) ax else 0) -
      (if Allowed d \<and> k = cacheKey key \<and> active ax (Split limits) then max 0 (axis_cost ax cost) else 0)"
proof -
  let ?c = "clampCosts cost" and ?s = "limStore l"
  let ?p1 = "p\<lparr>pDeny := snd (deny_Get (pDeny p) t key)\<rparr>"
  have ok1: "pool_ok ?p1" using ok(1) by simp
  have c: "\<not> covers (live ?p1 t (cacheKey key)) ?c (Split limits)" using miss(3) by simp
  have dn: "fst (deny_Get (pDeny p) t key) = None" by (subst miss(1)) simp
  define p3 where "p3 = NoteBorrow (snd (TryDebit ?p1 t key limits ?c rid))"
  note m = TryDebit_miss_ok [OF c, where rid = rid]
  have p3: "pool_ok p3" "pCfg p3 = pCfg p" "\<And>ax k. bal ax p3 t k = bal ax p t k" "\<And>k. live p3 t k = live p t k"
    using m(1) [OF ok1] m(2) m(4,5) [of t] by (simp_all add: p3_def)
  obtain br s2 where b: "opBorrow S ?s t key limits (checkSpec (pCfg p3) ?c) = (br, s2)" by fastforce
  have loan: "fast_loan S ?s p t (ids 0) key limits ?c ax =
      (case br of Inr b \<Rightarrow> if BrAllowed b then axis_got ax b else 0 | Inl _ \<Rightarrow> 0)"
    using b p3(2) miss(2,3) dn by (simp add: fast_loan_def)
  note cf = checkFast_miss [where ts = "\<lambda>_. t" and ids = ids, OF refl dn miss(2) c p3_def b]
  show ?thesis
  proof (cases br)
    case (Inl e)
    then show ?thesis
      using r cf onStoreErrFast_conserves [OF p3(1) ok(2), of ax l t "ids 1" key limits k] p3(3) loan
      by (auto simp: case_prod_beta)
  next
    case (Inr b')
    show ?thesis
    proof (cases "BrAllowed b'")
      case False
      then show ?thesis using r cf Inr p3(3) loan by auto
    next
      case True
      let ?p4 = "CreditLease p3 t key limits (GotRPM b') (GotTPM b') (GotITPM b') (GotOTPM b')"
      have room3: "bal ax p3 t (cacheKey key) \<le> 2 ^ 61" for ax using room p3(3) by simp
      have ttl: "t < time_add t (LeaseTTL (pCfg p3))"
        using pool_okD(1) [OF p3(1)] by (simp add: time_add_def)
      note lc = loan_covers [OF p3(1) ok(2) inv b [unfolded Inr] True room3 order_refl ttl]
      note h = TryDebit_hit [OF lc(1,2) ok(2), where rid = rid]
      obtain d5 p5 where d5: "TryDebit ?p4 t key limits ?c rid = (Some d5, p5)" "Allowed d5"
        using h(1) by (metis prod.collapse)
      have "checkFast S l p (\<lambda>_. t) ids key limits cost = (d5, p5, s2)"
        unfolding cf by (simp add: Inr True d5)
      then show ?thesis using r d5 h(2) [of ax k] lc(3) [of ax k] p3(3) Inr True loan by auto
    qed
  qed
qed

lemma fast_conserves:
  assumes ok: "pool_ok p" "cost_ok (clampCosts cost)"
    and inv: "sinv t0 (limStore l)" "t0 \<le> t" "usable t" "lim_ok limits"
    and room: "\<And>ax. bal ax p t (cacheKey key) \<le> 2 ^ 61"
    and r: "checkFast S l p (\<lambda>_. t) ids key limits cost = (d, p', s')"
  shows "bal ax p' t k = bal ax p t k +
      (if k = cacheKey key then fast_loan S (limStore l) p t (ids 0) key limits (clampCosts cost) ax else 0) -
      (if Allowed d \<and> k = cacheKey key \<and> active ax (Split limits) then max 0 (axis_cost ax cost) else 0)"
proof -
  let ?c = "clampCosts cost" and ?s = "limStore l"
  let ?dc = "snd (deny_Get (pDeny p) t key)" and ?p1 = "p\<lparr>pDeny := snd (deny_Get (pDeny p) t key)\<rparr>"
  have ok1: "pool_ok ?p1" using ok(1) by simp
  consider (cached) lt retry where "deny_Get (pDeny p) t key = (Some (lt, retry), ?dc)"
    | (noid) e where "deny_Get (pDeny p) t key = (None, ?dc)" "ids 0 = Inl e"
    | (hit) rid where "deny_Get (pDeny p) t key = (None, ?dc)" "ids 0 = Inr rid" "covers (live p t (cacheKey key)) ?c (Split limits)"
    | (miss) rid where "deny_Get (pDeny p) t key = (None, ?dc)" "ids 0 = Inr rid" "\<not> covers (live p t (cacheKey key)) ?c (Split limits)"
    by (metis prod.collapse option.exhaust surj_pair old.sum.exhaust)
  then show ?thesis
  proof cases
    case cached
    have f: "fst (deny_Get (pDeny p) t key) \<noteq> None" by (subst cached) simp
    have "checkFast S l p (\<lambda>_. t) ids key limits cost = (denyDecision limits lt retry, ?p1, ?s)"
      by (subst checkFast_def, subst cached) (simp add: Let_def)
    then show ?thesis using r f by (auto simp: fast_loan_def)
  next
    case noid
    have "checkFast S l p (\<lambda>_. t) ids key limits cost =
        (fst (onStoreErrFast l ?p1 t t (ids 1) key limits ?c), snd (onStoreErrFast l ?p1 t t (ids 1) key limits ?c), ?s)"
      by (subst checkFast_def, subst noid(1)) (simp add: Let_def noid(2) case_prod_beta)
    then show ?thesis using r onStoreErrFast_conserves [OF ok1 ok(2), of ax l t "ids 1" key limits k]
      by (auto simp: fast_loan_def noid(2))
  next
    case hit
    have c: "covers (live ?p1 t (cacheKey key)) ?c (Split limits)" using hit(3) by simp
    note h = TryDebit_hit [OF c ok1 ok(2), where rid = rid]
    obtain d2 p2 where d2: "TryDebit ?p1 t key limits ?c rid = (Some d2, p2)" "Allowed d2"
      using h(1) by (metis prod.collapse)
    have "checkFast S l p (\<lambda>_. t) ids key limits cost = (d2, p2, ?s)"
      by (subst checkFast_def, subst hit(1)) (simp add: Let_def hit(2) d2)
    then show ?thesis using r d2 h(2) [of ax k] hit(3) by (auto simp: fast_loan_def)
  next
    case miss
    from fast_conserves_miss [OF ok inv room r this] show ?thesis .
  qed
qed

end

text \<open>
  C22 (the fast path hands out only what it borrowed). A check on the fast path at one instant,
  over the in-memory store: on every axis the balance of the key changes by exactly what the
  store lent in this call minus the cost if the request was admitted; no other key changes.
\<close>

theorem fast_path_conserves:
  assumes p: "limPool l = Some p" "pool_ok p" "cost_ok (clampCosts cost)"
    and valid: "Validate limits = None" "limits_ok limits"
    and inv: "mem_inv t0 (limStore l)" "t0 \<le> t" "mem_usable t"
    and room: "\<forall>ax \<in> {Rpm, Tpm, Itpm, Otpm}. bal ax p t (cacheKey key) \<le> 2 ^ 61"
  shows "\<exists>d p'. fst (lim_Check memory_store l (\<lambda>_. t) ids key limits cost) = Inr d \<and>
    limPool (snd (lim_Check memory_store l (\<lambda>_. t) ids key limits cost)) = Some p' \<and>
    bal ax p' t k = bal ax p t k +
      (if k = cacheKey key
       then fast_loan memory_store (limStore l) p t (ids 0) key limits (clampCosts cost) ax else 0) -
      (if Allowed d \<and> k = cacheKey key \<and> active ax (Split limits) then max 0 (axis_cost ax cost) else 0)"
proof -
  obtain d p' s' where c: "checkFast memory_store l p (\<lambda>_. t) ids key limits cost = (d, p', s')"
    using prod_cases3 by blast
  have "bal ax p t (cacheKey key) \<le> 2 ^ 61" for ax using room unfolding all_axes by blast
  from memory.fast_conserves [OF p(2,3) inv valid(2) this c, of ax k] show ?thesis
    using c valid(1) p(1) by (simp add: lim_Check_def)
qed

theorem fast_path_conserves_witness:
  "\<exists>d p'. fst (lim_Check memory_store ex_fast (\<lambda>_. 1000000000) (\<lambda>_. Inr ''r'') ex_key ex_limits ex_cost) = Inr d \<and>
     limPool (snd (lim_Check memory_store ex_fast (\<lambda>_. 1000000000) (\<lambda>_. Inr ''r'') ex_key ex_limits ex_cost)) = Some p' \<and>
     bal Tpm p' 1000000000 ''other'' = 0"
proof -
  have "mem_inv 1000000000 (limStore ex_fast)" using store_ok_New by (simp add: mem_inv_def mem_usable_def in64_def)
  from fast_path_conserves [OF _ NewPool_ok _ ex_valid this, of DefaultConfig ex_cost 1000000000 ex_key
      "\<lambda>_. Inr ''r''" Tpm "''other''"]
  show ?thesis by (auto simp: ex_clamped mem_usable_def in64_def ex_key_def cacheKey_def)
qed

end
