(* ===== verification/Concurrent.thy ===== *)
theory Concurrent
  imports Limiter_Facts Memory_Rate
begin

text \<open>
  Calls that run at the same time. The deny cache, the pool and the store each guard a method
  with their mutex, so the atomic steps of a call of \<^verbatim>\<open>Check\<close>, \<^verbatim>\<open>Settle\<close>, \<^verbatim>\<open>SettleIO\<close> or \<^verbatim>\<open>Refund\<close> on the fast path
  (\<^verbatim>\<open>pkg/limiter/limiter.go\<close>) are its calls of these methods: between two of them any other call may
  run. A thread is a call with the point it has reached, a schedule says which thread takes the
  next step, at which instant the step reads the clock, and what \<^verbatim>\<open>newID\<close> answers if the step asks
  for an id. A thread that runs alone computes what the sequential model of the limiter computes. Several
  processes, each with its threads, its pool and its clock, share one store.
\<close>

section \<open>Threads\<close>

datatype check_pc =
    AtValidate
  | AtDeny
  | AtID
  | AtDebit string
  | AtNote string
  | AtBorrow string
  | AtRefused BorrowResult
  | AtCredit string BorrowResult
  | AtRedebit string
  | AtLost
  | AtErr
  | AtErrID
  | AtErrDebit string
  | Answered "(error, Decision) result"

datatype refund_pc = AtLookup | AtLocal | AtStore | Returned "error option"

text \<open>\<^verbatim>\<open>Settle\<close> reports a number of tokens, \<^verbatim>\<open>SettleIO\<close> one for the input and one for the output.\<close>

datatype usage = Whole int64 | InOut int64 int64

datatype settle_pc =
    SLookup
  | SLocal Reservation
  | SNote Reservation Decision
  | SBorrow Reservation Decision
  | SCredit Reservation Decision BorrowResult
  | SDeficit Decision BorrowResult
  | SReread Decision
  | SStore
  | Finished "(error, Decision) result"

datatype thread = Checking Key Limits Cost check_pc | Settling string usage settle_pc | Refunding string refund_pc

text \<open>One step of \<^verbatim>\<open>Check\<close>: \<^verbatim>\<open>checkFast\<close> between two mutex operations, \<^verbatim>\<open>onStoreErrFast\<close> included.\<close>

fun advance_check ::
  "'s StoreOps \<Rightarrow> FailMode \<Rightarrow> time \<Rightarrow> (error, string) result \<Rightarrow> Key \<Rightarrow> Limits \<Rightarrow> Cost \<Rightarrow> check_pc \<Rightarrow> Pool \<Rightarrow> 's
    \<Rightarrow> check_pc \<times> Pool \<times> 's" where
  "advance_check S mode now newid key limits cost AtValidate p s =
     (case Validate limits of
        Some err \<Rightarrow> (Answered (Inl err), p, s)
      | None \<Rightarrow> (AtDeny, p, s))"
| "advance_check S mode now newid key limits cost AtDeny p s =
     (case deny_Get (pDeny p) now key of
        (Some (lt, retry), dc) \<Rightarrow> (Answered (Inr (denyDecision limits lt retry)), p\<lparr>pDeny := dc\<rparr>, s)
      | (None, dc) \<Rightarrow> (AtID, p\<lparr>pDeny := dc\<rparr>, s))"
| "advance_check S mode now newid key limits cost AtID p s =
     (case newid of
        Inl err \<Rightarrow> (AtErr, p, s)
      | Inr rid \<Rightarrow> (AtDebit rid, p, s))"
| "advance_check S mode now newid key limits cost (AtDebit rid) p s =
     (case TryDebit p now key limits (clampCosts cost) rid of
        (Some d, p') \<Rightarrow> (Answered (Inr d), p', s)
      | (None, p') \<Rightarrow> (AtNote rid, p', s))"
| "advance_check S mode now newid key limits cost (AtNote rid) p s = (AtBorrow rid, NoteBorrow p, s)"
| "advance_check S mode now newid key limits cost (AtBorrow rid) p s =
     (case opBorrow S s now key limits (checkSpec (pCfg p) (clampCosts cost)) of
        (Inl err, s') \<Rightarrow> (AtErr, p, s')
      | (Inr br, s') \<Rightarrow> if \<not> BrAllowed br then (AtRefused br, p, s') else (AtCredit rid br, p, s'))"
| "advance_check S mode now newid key limits cost (AtRefused br) p s =
     (Answered (Inr (borrowDenyDecision limits br)),
      p\<lparr>pDeny := deny_Set (pDeny p) now key (BrLimitType br) (BrRetryAfter br)\<rparr>, s)"
| "advance_check S mode now newid key limits cost (AtCredit rid br) p s =
     (AtRedebit rid, CreditLease p now key limits (GotRPM br) (GotTPM br) (GotITPM br) (GotOTPM br), s)"
| "advance_check S mode now newid key limits cost (AtRedebit rid) p s =
     (case TryDebit p now key limits (clampCosts cost) rid of
        (Some d, p') \<Rightarrow> (Answered (Inr d), p', s)
      | (None, p') \<Rightarrow> (AtLost, p', s))"
| "advance_check S mode now newid key limits cost AtLost p s =
     (Answered (Inr (denyDecision limits LimitTypeBackend Second)),
      p\<lparr>pDeny := deny_Set (pDeny p) now key LimitTypeBackend Second\<rparr>, s)"
| "advance_check S mode now newid key limits cost AtErr p s =
     (if mode = FailOpen then
        (case Has p now key (clampCosts cost) limits of
           (has, p') \<Rightarrow>
             if has then (AtErrID, p', s)
             else (Answered (Inr (denyDecision limits LimitTypeBackend Second)), p', s))
      else (Answered (Inr (denyDecision limits LimitTypeBackend Second)), p, s))"
| "advance_check S mode now newid key limits cost AtErrID p s =
     (case newid of
        Inl err \<Rightarrow> (Answered (Inr (denyDecision limits LimitTypeBackend Second)), p, s)
      | Inr rid \<Rightarrow> (AtErrDebit rid, p, s))"
| "advance_check S mode now newid key limits cost (AtErrDebit rid) p s =
     (case TryDebit p now key limits (clampCosts cost) rid of
        (Some d, p') \<Rightarrow> (Answered (Inr d), p', s)
      | (None, p') \<Rightarrow> (Answered (Inr (denyDecision limits LimitTypeBackend Second)), p', s))"
| "advance_check S mode now newid key limits cost (Answered r) p s = (Answered r, p, s)"

fun advance_refund :: "'s StoreOps \<Rightarrow> time \<Rightarrow> string \<Rightarrow> refund_pc \<Rightarrow> Pool \<Rightarrow> 's \<Rightarrow> refund_pc \<times> Pool \<times> 's" where
  "advance_refund S now rid AtLookup p s =
     (case GetReservation p now rid of
        (Some _, p') \<Rightarrow> (AtLocal, p', s)
      | (None, p') \<Rightarrow> (AtStore, p', s))"
| "advance_refund S now rid AtLocal p s = (case RefundLocal p now rid of (r, p') \<Rightarrow> (Returned r, p', s))"
| "advance_refund S now rid AtStore p s = (case opRefund S s now rid of (r, s') \<Rightarrow> (Returned r, p, s'))"
| "advance_refund S now rid (Returned r) p s = (Returned r, p, s)"

text \<open>The calls of \<^verbatim>\<open>Settle\<close> and \<^verbatim>\<open>SettleIO\<close>, which have the same shape. The last step of the fast path returns the
  decision of the reservation as the lookup finds it; the code reads it through the pointer that the lookup returns,
  after the mutex has been released.\<close>

fun splits :: "usage \<Rightarrow> bool" where
  "splits (Whole a) = False"
| "splits (InOut i out) = True"

fun pool_settle :: "usage \<Rightarrow> Pool \<Rightarrow> time \<Rightarrow> string \<Rightarrow> (error, Decision) result \<times> Pool" where
  "pool_settle (Whole a) p now rid = SettleLocal p now rid a"
| "pool_settle (InOut i out) p now rid = SettleLocalIO p now rid i out"

fun overshot :: "usage \<Rightarrow> Decision \<Rightarrow> bool" where
  "overshot (Whole a) dec \<longleftrightarrow> OvershootTPM dec > 0"
| "overshot (InOut i out) dec \<longleftrightarrow> OvershootITPM dec > 0 \<or> OvershootOTPM dec > 0"

fun deficit_spec :: "usage \<Rightarrow> Decision \<Rightarrow> BorrowSpec" where
  "deficit_spec (Whole a) dec = zero_BorrowSpec\<lparr>MinTPM := OvershootTPM dec, ChunkTPM := OvershootTPM dec\<rparr>"
| "deficit_spec (InOut i out) dec =
     zero_BorrowSpec\<lparr>MinITPM := OvershootITPM dec, ChunkITPM := OvershootITPM dec,
       MinOTPM := OvershootOTPM dec, ChunkOTPM := OvershootOTPM dec\<rparr>"

fun pool_credit :: "usage \<Rightarrow> Pool \<Rightarrow> time \<Rightarrow> Reservation \<Rightarrow> BorrowResult \<Rightarrow> Pool" where
  "pool_credit (Whole a) p now r b = CreditLease p now (lrKey r) (lrLimits r) (GotRPM b) (GotTPM b) 0 0"
| "pool_credit (InOut i out) p now r b = CreditLease p now (lrKey r) (lrLimits r) (GotRPM b) 0 (GotITPM b) (GotOTPM b)"

fun pool_deficit :: "usage \<Rightarrow> Pool \<Rightarrow> time \<Rightarrow> string \<Rightarrow> BorrowResult \<Rightarrow> Pool" where
  "pool_deficit (Whole a) p now rid b = ApplyBorrowedDeficit p now rid (GotTPM b)"
| "pool_deficit (InOut i out) p now rid b = ApplyBorrowedDeficitIO p now rid (GotITPM b) (GotOTPM b)"

fun store_settle :: "usage \<Rightarrow> 's StoreOps \<Rightarrow> 's \<Rightarrow> time \<Rightarrow> string \<Rightarrow> (error, Decision) result \<times> 's" where
  "store_settle (Whole a) S s now rid = opSettle S s now rid a"
| "store_settle (InOut i out) S s now rid = opSettleIO S s now rid i out"

fun advance_settle ::
  "'s StoreOps \<Rightarrow> time \<Rightarrow> string \<Rightarrow> usage \<Rightarrow> settle_pc \<Rightarrow> Pool \<Rightarrow> 's \<Rightarrow> settle_pc \<times> Pool \<times> 's" where
  "advance_settle S now rid u SLookup p s =
     (case GetReservation p now rid of
        (None, p') \<Rightarrow> (SStore, p', s)
      | (Some r, p') \<Rightarrow>
          if Split (lrLimits r) \<noteq> splits u then (Finished (Inl ErrWrongSettleMode), p', s) else (SLocal r, p', s))"
| "advance_settle S now rid u (SLocal r) p s =
     (case pool_settle u p now rid of
        (Inl err, p') \<Rightarrow> (Finished (Inl err), p', s)
      | (Inr dec, p') \<Rightarrow> if overshot u dec then (SNote r dec, p', s) else (Finished (Inr dec), p', s))"
| "advance_settle S now rid u (SNote r dec) p s = (SBorrow r dec, NoteBorrow p, s)"
| "advance_settle S now rid u (SBorrow r dec) p s =
     (case opBorrow S s now (lrKey r) (lrLimits r) (deficit_spec u dec) of
        (Inl berr, s') \<Rightarrow> (Finished (Inr dec), p, s')
      | (Inr b, s') \<Rightarrow> if \<not> BrAllowed b then (Finished (Inr dec), p, s') else (SCredit r dec b, p, s'))"
| "advance_settle S now rid u (SCredit r dec b) p s = (SDeficit dec b, pool_credit u p now r b, s)"
| "advance_settle S now rid u (SDeficit dec b) p s = (SReread dec, pool_deficit u p now rid b, s)"
| "advance_settle S now rid u (SReread dec) p s =
     (case GetReservation p now rid of
        (Some upd, p') \<Rightarrow> (Finished (Inr (lrLastDecision upd)), p', s)
      | (None, p') \<Rightarrow> (Finished (Inr dec), p', s))"
| "advance_settle S now rid u SStore p s = (case store_settle u S s now rid of (r, s') \<Rightarrow> (Finished r, p, s'))"
| "advance_settle S now rid u (Finished r) p s = (Finished r, p, s)"

fun thread_step ::
  "'s StoreOps \<Rightarrow> FailMode \<Rightarrow> time \<Rightarrow> (error, string) result \<Rightarrow> thread \<Rightarrow> Pool \<Rightarrow> 's \<Rightarrow> thread \<times> Pool \<times> 's" where
  "thread_step S mode now newid (Checking key limits cost pc) p s =
     (case advance_check S mode now newid key limits cost pc p s of (pc', p', s') \<Rightarrow> (Checking key limits cost pc', p', s'))"
| "thread_step S mode now newid (Settling rid u pc) p s =
     (case advance_settle S now rid u pc p s of (pc', p', s') \<Rightarrow> (Settling rid u pc', p', s'))"
| "thread_step S mode now newid (Refunding rid pc) p s =
     (case advance_refund S now rid pc p s of (pc', p', s') \<Rightarrow> (Refunding rid pc', p', s'))"

text \<open>A schedule: which thread moves, when, and the outcome of \<^verbatim>\<open>newID\<close>.\<close>

type_synonym tick = "nat \<times> time \<times> (error, string) result"

fun interleave ::
  "'s StoreOps \<Rightarrow> FailMode \<Rightarrow> tick list \<Rightarrow> thread list \<Rightarrow> Pool \<Rightarrow> 's \<Rightarrow> thread list \<times> Pool \<times> 's" where
  "interleave S mode [] ths p s = (ths, p, s)"
| "interleave S mode ((i, now, newid) # sched) ths p s =
     (if i < length ths then
        (case thread_step S mode now newid (ths ! i) p s of
           (th', p', s') \<Rightarrow> interleave S mode sched (ths[i := th']) p' s')
      else interleave S mode sched ths p s)"

section \<open>Several processes\<close>

text \<open>
  Processes that share a store, each with its own limiter: a node has a fail mode, a pool and
  threads. A turn names a node and one of its threads, the reading of the node's own clock, the
  reading of the store's clock (a step reads the clock of the object it locks), and the outcome of \<^verbatim>\<open>newID\<close>.
\<close>

record node =
  nodeMode :: FailMode
  nodeThreads :: "thread list"
  nodePool :: Pool

record turn =
  tNode :: nat
  tThread :: nat
  tLocal :: time
  tStore :: time
  tID :: "(error, string) result"

fun step_op :: "Pool \<Rightarrow> thread \<Rightarrow> store_op option" where
  "step_op p (Checking key limits cost (AtBorrow rid)) = Some (DoBorrow key limits (checkSpec (pCfg p) (clampCosts cost)))"
| "step_op p (Settling rid u (SBorrow r dec)) = Some (DoBorrow (lrKey r) (lrLimits r) (deficit_spec u dec))"
| "step_op p (Settling rid (Whole a) SStore) = Some (DoSettle rid a)"
| "step_op p (Settling rid (InOut i out) SStore) = Some (DoSettleIO rid i out)"
| "step_op p (Refunding rid AtStore) = Some (DoRefund rid)"
| "step_op p _ = None"

text \<open>The operation as a call of the store.\<close>

fun apply_op :: "'s StoreOps \<Rightarrow> store_op \<Rightarrow> time \<Rightarrow> 's \<Rightarrow> 's" where
  "apply_op S (DoCheck key limits cost rid) now s = snd (opCheck S s now key limits cost rid)"
| "apply_op S (DoSettle rid a) now s = snd (opSettle S s now rid a)"
| "apply_op S (DoSettleIO rid a b) now s = snd (opSettleIO S s now rid a b)"
| "apply_op S (DoRefund rid) now s = snd (opRefund S s now rid)"
| "apply_op S (DoBorrow key limits spec) now s = snd (opBorrow S s now key limits spec)"
| "apply_op S (DoReturn key limits a b c d) now s = snd (opReturn S s now key limits a b c d)"

fun reads_store :: "thread \<Rightarrow> bool" where
  "reads_store (Checking key limits cost (AtBorrow rid)) = True"
| "reads_store (Settling rid u (SBorrow r dec)) = True"
| "reads_store (Settling rid u SStore) = True"
| "reads_store (Refunding rid AtStore) = True"
| "reads_store _ = False"

lemma step_op_reads: "step_op p th \<noteq> None \<longleftrightarrow> reads_store th"
  by (cases "(p, th)" rule: step_op.cases) simp_all

lemma step_store:
  assumes "thread_step S mode now newid th p s = (th', p', s')"
  shows "s' = (case step_op p th of None \<Rightarrow> s | Some opn \<Rightarrow> apply_op S opn now s)"
proof (cases th)
  case (Checking key limits cost pc)
  then show ?thesis using assms by (cases pc) (auto split: option.splits prod.splits sum.splits if_splits)
next
  case (Settling rid u pc)
  then show ?thesis using assms by (cases pc; cases u) (auto split: option.splits prod.splits sum.splits if_splits)
next
  case (Refunding rid pc)
  then show ?thesis using assms by (cases pc) (auto split: option.splits prod.splits)
qed

definition turn_time :: "turn \<Rightarrow> thread \<Rightarrow> time" where
  "turn_time k th = (if reads_store th then tStore k else tLocal k)"

definition has_turn :: "turn \<Rightarrow> node list \<Rightarrow> bool" where
  "has_turn k nodes \<longleftrightarrow> tNode k < length nodes \<and> tThread k < length (nodeThreads (nodes ! tNode k))"

definition turn_thread :: "turn \<Rightarrow> node list \<Rightarrow> thread" where
  "turn_thread k nodes = nodeThreads (nodes ! tNode k) ! tThread k"

definition node_step :: "'s StoreOps \<Rightarrow> turn \<Rightarrow> node list \<Rightarrow> 's \<Rightarrow> node list \<times> 's" where
  "node_step S k nodes s =
     (let nd = nodes ! tNode k; th = turn_thread k nodes
      in case thread_step S (nodeMode nd) (turn_time k th) (tID k) th (nodePool nd) s of
           (th', p', s') \<Rightarrow>
             (nodes[tNode k := nd\<lparr>nodeThreads := (nodeThreads nd)[tThread k := th'], nodePool := p'\<rparr>], s'))"

fun cluster :: "'s StoreOps \<Rightarrow> turn list \<Rightarrow> node list \<Rightarrow> 's \<Rightarrow> node list \<times> 's" where
  "cluster S [] nodes s = (nodes, s)"
| "cluster S (k # sched) nodes s =
     (if has_turn k nodes then (case node_step S k nodes s of (nodes', s') \<Rightarrow> cluster S sched nodes' s')
      else cluster S sched nodes s)"

text \<open>The threads of one process are a cluster of one node.\<close>

definition turn_of :: "tick \<Rightarrow> turn" where
  "turn_of tk = (case tk of (i, now, newid) \<Rightarrow> \<lparr>tNode = 0, tThread = i, tLocal = now, tStore = now, tID = newid\<rparr>)"

lemma turn_of_simps [simp]:
  "tNode (turn_of tk) = 0" "tThread (turn_of tk) = fst tk" "tLocal (turn_of tk) = fst (snd tk)"
  "tStore (turn_of tk) = fst (snd tk)" "tID (turn_of tk) = snd (snd tk)" "turn_time (turn_of tk) th = fst (snd tk)"
  by (cases tk; simp add: turn_of_def turn_time_def)+

lemma interleave_cluster:
  "cluster S (map turn_of sched) [\<lparr>nodeMode = mode, nodeThreads = ths, nodePool = p\<rparr>] s =
     (case interleave S mode sched ths p s of
        (ths', p', s') \<Rightarrow> ([\<lparr>nodeMode = mode, nodeThreads = ths', nodePool = p'\<rparr>], s'))"
proof (induction sched arbitrary: ths p s)
  case (Cons tk sched)
  obtain i now nid where "tk = (i, now, nid)" by (metis prod_cases3)
  then show ?case using Cons
    by (auto simp: has_turn_def node_step_def turn_thread_def Let_def split: prod.splits)
qed simp

section \<open>A thread that runs alone\<close>

text \<open>The reads of the clock and of the id generator of a call, in the numbering of \<open>checkFast\<close>.\<close>

fun reads :: "check_pc \<Rightarrow> nat" where
  "reads (AtDebit _) = 1"
| "reads (AtBorrow _) = 2"
| "reads (AtRefused _) = 3"
| "reads (AtCredit _ _) = 3"
| "reads (AtRedebit _) = 4"
| "reads AtLost = 5"
| "reads AtErr = 6"
| "reads (AtErrDebit _) = 7"
| "reads _ = 0"

fun draws :: "check_pc \<Rightarrow> nat" where
  "draws AtErrID = 1"
| "draws _ = 0"

fun solo ::
  "'s StoreOps \<Rightarrow> FailMode \<Rightarrow> (nat \<Rightarrow> time) \<Rightarrow> (nat \<Rightarrow> (error, string) result) \<Rightarrow> Key \<Rightarrow> Limits \<Rightarrow> Cost \<Rightarrow> nat
    \<Rightarrow> check_pc \<Rightarrow> Pool \<Rightarrow> 's \<Rightarrow> check_pc \<times> Pool \<times> 's" where
  "solo S mode ts ids key limits cost 0 pc p s = (pc, p, s)"
| "solo S mode ts ids key limits cost (Suc n) pc p s =
     (case advance_check S mode (ts (reads pc)) (ids (draws pc)) key limits cost pc p s of
        (pc', p', s') \<Rightarrow> solo S mode ts ids key limits cost n pc' p' s')"

lemma solo_answered [simp]: "solo S mode ts ids key limits cost n (Answered r) p s = (Answered r, p, s)"
  by (induction n) simp_all

lemma solo_err:
  assumes "limFailMode l = mode"
  shows "solo S mode ts ids key limits cost (Suc (Suc (Suc n))) AtErr p s =
    (let (d, p') = onStoreErrFast l p (ts 6) (ts 7) (ids 1) key limits (clampCosts cost) in (Answered (Inr d), p', s))"
proof -
  obtain has p1 where h: "Has p (ts 6) key (clampCosts cost) limits = (has, p1)" by fastforce
  show ?thesis
  proof (cases "ids 1")
    case (Inr rid)
    obtain d p2 where "TryDebit p1 (ts 7) key limits (clampCosts cost) rid = (d, p2)" by fastforce
    then show ?thesis using assms by (cases d) (simp_all add: onStoreErrFast_def Let_def h Inr del: One_nat_def)
  qed (use assms in \<open>simp add: onStoreErrFast_def Let_def h del: One_nat_def\<close>)
qed

lemma solo_borrow:
  assumes l: "limFailMode l = mode" and tail: "p3 = NoteBorrow p"
  shows "solo S mode ts ids key limits cost (Suc (Suc (Suc (Suc (Suc n))))) (AtNote rid) p s =
    (case opBorrow S s (ts 2) key limits (checkSpec (pCfg p3) (clampCosts cost)) of
       (Inl err, s') \<Rightarrow>
         (let (d, p') = onStoreErrFast l p3 (ts 6) (ts 7) (ids 1) key limits (clampCosts cost) in (Answered (Inr d), p', s'))
     | (Inr br, s') \<Rightarrow>
         if \<not> BrAllowed br then
           (Answered (Inr (borrowDenyDecision limits br)),
            p3\<lparr>pDeny := deny_Set (pDeny p3) (ts 3) key (BrLimitType br) (BrRetryAfter br)\<rparr>, s')
         else
           (let p4 = CreditLease p3 (ts 3) key limits (GotRPM br) (GotTPM br) (GotITPM br) (GotOTPM br)
            in case TryDebit p4 (ts 4) key limits (clampCosts cost) rid of
                 (Some d, p5) \<Rightarrow> (Answered (Inr d), p5, s')
               | (None, p5) \<Rightarrow>
                   (Answered (Inr (denyDecision limits LimitTypeBackend Second)),
                    p5\<lparr>pDeny := deny_Set (pDeny p5) (ts 5) key LimitTypeBackend Second\<rparr>, s')))"
proof -
  obtain r s' where b: "opBorrow S s (ts 2) key limits (checkSpec (pCfg p3) (clampCosts cost)) = (r, s')" by fastforce
  show ?thesis
  proof (cases r)
    case (Inl err)
    note e = solo_err [OF l, of S ts ids key limits cost n p3 s', unfolded Let_def]
    show ?thesis
      unfolding solo.simps(2) [of _ _ _ _ _ _ _ "Suc (Suc (Suc (Suc n)))"] solo.simps(2) [of _ _ _ _ _ _ _ "Suc (Suc (Suc n))"]
      using b Inl by (simp add: tail [symmetric] e Let_def del: solo.simps)
  next
    case (Inr br)
    let ?p4 = "CreditLease p3 (ts 3) key limits (GotRPM br) (GotTPM br) (GotITPM br) (GotOTPM br)"
    obtain d p5 where d: "TryDebit ?p4 (ts 4) key limits (clampCosts cost) rid = (d, p5)" by fastforce
    show ?thesis using b d tail by (cases d) (simp_all add: Inr Let_def)
  qed
qed

lemma solo_miss:
  assumes l: "limFailMode l = mode" and g: "deny_Get (pDeny p) (ts 0) key = (None, dc)" and rid: "ids 0 = Inr rid"
    and t: "TryDebit (p\<lparr>pDeny := dc\<rparr>) (ts 1) key limits (clampCosts cost) rid = (None, p2)"
  shows "solo S mode ts ids key limits cost (Suc (Suc (Suc (Suc (Suc n))))) (AtNote rid) p2 (limStore l) =
    (let (d, p', s') = checkFast S l p ts ids key limits cost in (Answered (Inr d), p', s'))"
proof -
  obtain br s' where b: "opBorrow S (limStore l) (ts 2) key limits (checkSpec (pCfg (NoteBorrow p2)) (clampCosts cost)) = (br, s')"
    by fastforce
  note run = solo_borrow [OF l refl, of S ts ids key limits cost n rid p2 "limStore l", unfolded Let_def b prod.case]
  show ?thesis
  proof (cases br)
    case (Inl err)
    then show ?thesis unfolding run using g t b
      by (simp add: checkFast_def Let_def rid case_prod_beta del: One_nat_def)
  next
    case lent: (Inr x)
    obtain r4 p5 where "TryDebit (CreditLease (NoteBorrow p2) (ts 3) key limits (GotRPM x) (GotTPM x) (GotITPM x)
        (GotOTPM x)) (ts 4) key limits (clampCosts cost) rid = (r4, p5)" by fastforce
    then show ?thesis unfolding run using g t b
      by (cases r4) (simp_all add: checkFast_def Let_def rid lent del: One_nat_def)
  qed
qed

lemmas solo_step = solo.simps(2) [of _ _ _ _ _ _ _ "Suc (Suc (Suc (Suc (Suc (Suc (Suc n))))))" for n]
  solo.simps(2) [of _ _ _ _ _ _ _ "Suc (Suc (Suc (Suc (Suc (Suc n)))))" for n]

lemma solo_fast:
  assumes l: "limFailMode l = mode"
  shows "solo S mode ts ids key limits cost (Suc (Suc (Suc (Suc (Suc (Suc (Suc (Suc n)))))))) AtDeny p (limStore l) =
    (let (d, p', s') = checkFast S l p ts ids key limits cost in (Answered (Inr d), p', s'))"
proof -
  obtain hit dc where g: "deny_Get (pDeny p) (ts 0) key = (hit, dc)" by fastforce
  let ?p1 = "p\<lparr>pDeny := dc\<rparr>" and ?s = "limStore l"
  show ?thesis
  proof (cases hit)
    case (Some e)
    then show ?thesis by (cases e) (simp add: checkFast_def Let_def g)
  next
    case None
    then have d: "advance_check S mode (ts 0) i key limits cost AtDeny p ?s = (AtID, ?p1, ?s)" for i by (simp add: g)
    show ?thesis
    proof (cases "ids 0")
      case (Inl err)
      note e = solo_err [OF l, of S ts ids key limits cost "Suc (Suc (Suc n))" ?p1 ?s, unfolded Let_def]
      show ?thesis
        unfolding solo_step(1) unfolding solo_step(2)
        by (simp add: d g None Inl e checkFast_def Let_def case_prod_beta del: solo.simps advance_check.simps(2))
    next
      case (Inr rid)
      obtain r p2 where t: "TryDebit ?p1 (ts 1) key limits (clampCosts cost) rid = (r, p2)" by fastforce
      show ?thesis
      proof (cases r)
        case (Some a)
        then show ?thesis using g t by (simp add: checkFast_def Let_def None Inr del: One_nat_def)
      next
        case miss: None
        have "solo S mode ts ids key limits cost (Suc (Suc (Suc (Suc (Suc (Suc n)))))) (AtDebit rid) ?p1 ?s =
            solo S mode ts ids key limits cost (Suc (Suc (Suc (Suc (Suc n))))) (AtNote rid) p2 ?s"
          using t miss by (subst solo.simps(2)) (simp del: solo.simps One_nat_def)
        then show ?thesis
          using solo_miss [where ts = ts and ids = ids and n = n and S = S, OF l g [unfolded None] Inr t [unfolded miss]]
          unfolding solo_step(1) unfolding solo_step(2) by (simp add: d Inr del: solo.simps advance_check.simps(2))
      qed
    qed
  qed
qed

lemma solo_check:
  assumes "limPool l = Some p"
  shows "solo S (limFailMode l) ts ids key limits cost 9 AtValidate p (limStore l) =
    (Answered (fst (lim_Check S l ts ids key limits cost)),
     the (limPool (snd (lim_Check S l ts ids key limits cost))), limStore (snd (lim_Check S l ts ids key limits cost)))"
proof (cases "Validate limits")
  case None
  note e = solo_fast [OF refl, of S l ts ids key limits cost 0 p, unfolded Let_def]
  have 9: "(9 :: nat) = Suc (Suc (Suc (Suc (Suc (Suc (Suc (Suc (Suc 0))))))))" by simp
  have "solo S (limFailMode l) ts ids key limits cost 9 AtValidate p (limStore l) =
      solo S (limFailMode l) ts ids key limits cost (Suc (Suc (Suc (Suc (Suc (Suc (Suc (Suc 0)))))))) AtDeny p (limStore l)"
    unfolding 9 by (subst solo.simps(2)) (simp add: None del: solo.simps)
  then show ?thesis unfolding e using None assms
    by (simp add: lim_Check_def Let_def case_prod_beta)
qed (use assms in \<open>simp add: lim_Check_def numeral_eq_Suc\<close>)

text \<open>The schedule of a thread that runs alone.\<close>

fun turns ::
  "'s StoreOps \<Rightarrow> FailMode \<Rightarrow> (nat \<Rightarrow> time) \<Rightarrow> (nat \<Rightarrow> (error, string) result) \<Rightarrow> Key \<Rightarrow> Limits \<Rightarrow> Cost \<Rightarrow> nat
    \<Rightarrow> check_pc \<Rightarrow> Pool \<Rightarrow> 's \<Rightarrow> tick list" where
  "turns S mode ts ids key limits cost 0 pc p s = []"
| "turns S mode ts ids key limits cost (Suc n) pc p s =
     (0, ts (reads pc), ids (draws pc)) #
     (case advance_check S mode (ts (reads pc)) (ids (draws pc)) key limits cost pc p s of
        (pc', p', s') \<Rightarrow> turns S mode ts ids key limits cost n pc' p' s')"

lemma interleave_turns:
  "interleave S mode (turns S mode ts ids key limits cost n pc p s) [Checking key limits cost pc] p s =
     (case solo S mode ts ids key limits cost n pc p s of (pc', p', s') \<Rightarrow> ([Checking key limits cost pc'], p', s'))"
  by (induction n arbitrary: pc p s) (auto split: prod.splits)

lemma turns_ticks:
  "(i, now, nid) \<in> set (turns S mode ts ids key limits cost n pc p s) \<Longrightarrow>
     i = 0 \<and> (\<exists>m. now = ts m) \<and> (nid = ids 0 \<or> nid = ids 1)"
proof (induction n arbitrary: pc p s)
  case (Suc n)
  have "ids (draws pc) = ids 0 \<or> ids (draws pc) = ids 1" by (cases pc) simp_all
  then show ?case using Suc by (fastforce split: prod.splits)
qed simp

text \<open>
  (Calls that run alone.) The steps of a check, a settlement and a refund, scheduled one after the other
  without any other thread, compute the answer, the pool and the store of \<open>lim_Check\<close>, \<open>lim_Settle\<close>,
  \<open>lim_SettleIO\<close> and \<open>lim_Refund\<close>.
\<close>

theorem alone_check:
  assumes "limPool l = Some p"
  shows "\<exists>sched p' s'. (\<forall>(i, now, nid) \<in> set sched. i = 0 \<and> (\<exists>m. now = ts m) \<and> (nid = ids 0 \<or> nid = ids 1)) \<and>
    interleave S (limFailMode l) sched [Checking key limits cost AtValidate] p (limStore l) =
      ([Checking key limits cost (Answered (fst (lim_Check S l ts ids key limits cost)))], p', s') \<and>
    limPool (snd (lim_Check S l ts ids key limits cost)) = Some p' \<and>
    limStore (snd (lim_Check S l ts ids key limits cost)) = s'"
proof -
  let ?sched = "turns S (limFailMode l) ts ids key limits cost 9 AtValidate p (limStore l)"
  have "limPool (snd (lim_Check S l ts ids key limits cost)) \<noteq> None"
    using assms by (auto simp: lim_Check_def Let_def split: option.splits prod.splits)
  then show ?thesis
    using interleave_turns [of S "limFailMode l" ts ids key limits cost 9 AtValidate p "limStore l"] solo_check [OF assms]
    by (intro exI [of _ ?sched]) (auto dest!: turns_ticks)
qed

fun lim_settle :: "usage \<Rightarrow> 's StoreOps \<Rightarrow> 's Limiter \<Rightarrow> (nat \<Rightarrow> time) \<Rightarrow> string \<Rightarrow> (error, Decision) result \<times> 's Limiter" where
  "lim_settle (Whole a) S l ts rid = lim_Settle S l ts rid a"
| "lim_settle (InOut i out) S l ts rid = lim_SettleIO S l ts rid i out"

theorem alone_settle:
  assumes "limPool l = Some p"
  shows "\<exists>sched p' s'. (\<forall>(i, now, nid') \<in> set sched. i = 0 \<and> (\<exists>m. now = ts m) \<and> nid' = nid) \<and>
    interleave S (limFailMode l) sched [Settling rid u SLookup] p (limStore l) =
      ([Settling rid u (Finished (fst (lim_settle u S l ts rid)))], p', s') \<and>
    limPool (snd (lim_settle u S l ts rid)) = Some p' \<and> limStore (snd (lim_settle u S l ts rid)) = s'"
proof -
  obtain ro p1 where g: "GetReservation p (ts 0) rid = (ro, p1)" by fastforce
  show ?thesis
  proof (cases ro)
    case None
    then show ?thesis using assms g
      by (intro exI [of _ "[(0, ts 0, nid), (0, ts 2, nid)]"])
        (cases u; auto simp: lim_Settle_def lim_SettleIO_def Let_def split: prod.splits)
  next
    case (Some r)
    then show ?thesis using assms g
      by (intro exI [of _ "map (\<lambda>m. (0, ts m, nid)) [0, 1, 1, 2, 3, 4, 5]"])
        (cases u; auto simp: lim_Settle_def lim_SettleIO_def Let_def split: prod.splits sum.splits option.splits if_splits)
  qed
qed

theorem alone_refund:
  assumes "limPool l = Some p"
  shows "\<exists>t1 p' s'. (t1 = ts 1 \<or> t1 = ts 2) \<and>
    interleave S (limFailMode l) [(0, ts 0, nid), (0, t1, nid)] [Refunding rid AtLookup] p (limStore l) =
      ([Refunding rid (Returned (fst (lim_Refund S l ts rid)))], p', s') \<and>
    limPool (snd (lim_Refund S l ts rid)) = Some p' \<and> limStore (snd (lim_Refund S l ts rid)) = s'"
proof -
  obtain ro p1 where g: "GetReservation p (ts 0) rid = (ro, p1)" by fastforce
  show ?thesis
  proof (cases ro)
    case None
    then show ?thesis using assms g
      by (intro exI [of _ "ts 2"]) (auto simp: lim_Refund_def Let_def split: prod.splits)
  next
    case (Some r)
    then show ?thesis using assms g
      by (intro exI [of _ "ts 1"]) (auto simp: lim_Refund_def Let_def split: prod.splits)
  qed
qed

end
