(* ===== verification/Pool_Effects.thy ===== *)
theory Pool_Effects
  imports Concurrent
begin

text \<open>
  What the methods of the pool do to its balances. Every step of a thread is described by what it adds
  to or takes from the balance of each key on each axis, while leases, reservations and overshoots stay within bounds.
\<close>

section \<open>Pools within bounds\<close>

text \<open>The overshoot a settlement reports on an axis.\<close>

fun axis_over :: "axis \<Rightarrow> Decision \<Rightarrow> int64" where
  "axis_over Rpm d = 0"
| "axis_over Tpm d = OvershootTPM d"
| "axis_over Itpm d = OvershootITPM d"
| "axis_over Otpm d = OvershootOTPM d"

definition over_within :: "int \<Rightarrow> bool \<Rightarrow> Decision \<Rightarrow> bool" where
  "over_within M sp d \<longleftrightarrow> (\<forall>ax \<in> {Rpm, Tpm, Itpm, Otpm}. active ax sp \<longrightarrow> axis_over ax d \<le> M)"

text \<open>A reservation of a key and limits that are in use, whose amounts are at most \<open>M\<close>.\<close>

definition res_within :: "(Key \<Rightarrow> Limits \<Rightarrow> bool) \<Rightarrow> int \<Rightarrow> Reservation \<Rightarrow> bool" where
  "res_within uses M r \<longleftrightarrow> uses (lrKey r) (lrLimits r) \<and>
     (\<forall>ax \<in> {Rpm, Tpm, Itpm, Otpm}. 0 \<le> lr_axis ax r \<and> lr_axis ax r \<le> M) \<and>
     over_within M (Split (lrLimits r)) (lrLastDecision r)"

lemma res_withinD:
  assumes "res_within uses M r"
  shows "uses (lrKey r) (lrLimits r)" "0 \<le> lr_axis ax r" "lr_axis ax r \<le> M"
    "over_within M (Split (lrLimits r)) (lrLastDecision r)"
  using assms unfolding res_within_def all_axes by blast+

lemma res_within_finish:
  assumes "res_within uses M r" "over_within M (Split (lrLimits r)) d"
  shows "res_within uses M (local_finish r st d now)"
  using assms by (simp add: res_within_def)

text \<open>Every lease of the pool is as before or alive, every reservation is within its bounds if it was before.\<close>

definition touched :: "(Key \<Rightarrow> Limits \<Rightarrow> bool) \<Rightarrow> time \<Rightarrow> int \<Rightarrow> Pool \<Rightarrow> Pool \<Rightarrow> bool" where
  "touched uses now M p p' \<longleftrightarrow> pCfg p' = pCfg p \<and>
     (\<forall>k b. pLease p' k = Some b \<longrightarrow> pLease p k = Some b \<or> time_before now (lbExpiresAt b)) \<and>
     (\<forall>rid r. pRes p' rid = Some r \<longrightarrow> pRes p rid = Some r \<or> res_within uses M r)"

fun chunk_size :: "axis \<Rightarrow> Config \<Rightarrow> int64" where
  "chunk_size Rpm cfg = RPMChunk cfg"
| "chunk_size Tpm cfg = TPMChunk cfg"
| "chunk_size Itpm cfg = ITPMChunk cfg"
| "chunk_size Otpm cfg = OTPMChunk cfg"

lemma checkSpec_chunk [simp]: "axis_chunk ax (checkSpec cfg cost) = chunk_size ax cfg"
  by (cases ax) (simp_all add: checkSpec_def)

text \<open>Balances up to \<open>B\<close>; reservations and the chunks that are borrowed up to \<open>M\<close>.\<close>

definition pool_within :: "(Key \<Rightarrow> Limits \<Rightarrow> bool) \<Rightarrow> int \<Rightarrow> int \<Rightarrow> Pool \<Rightarrow> bool" where
  "pool_within uses B M p \<longleftrightarrow> 0 < LeaseTTL (pCfg p) \<and>
     (\<forall>ax \<in> {Rpm, Tpm, Itpm, Otpm}. chunk_size ax (pCfg p) \<le> M) \<and>
     (\<forall>k b. pLease p k = Some b \<longrightarrow> (\<forall>ax \<in> {Rpm, Tpm, Itpm, Otpm}. 0 \<le> lb_axis ax b \<and> lb_axis ax b \<le> B)) \<and>
     (\<forall>rid r. pRes p rid = Some r \<longrightarrow> res_within uses M r)"

lemma pool_within_ok:
  assumes "pool_within uses B M p" "B < 2 ^ 62" "M < 2 ^ 62"
  shows "pool_ok p"
  using assms unfolding pool_within_def res_within_def pool_ok_def all_axes amount_ok_def by (meson le_less_trans)

lemma pool_withinD:
  assumes "pool_within uses B M p"
  shows "0 < LeaseTTL (pCfg p)" "pLease p k = Some b \<Longrightarrow> 0 \<le> lb_axis ax b \<and> lb_axis ax b \<le> B"
    "pRes p rid = Some r \<Longrightarrow> res_within uses M r" "chunk_size ax (pCfg p) \<le> M"
  using assms unfolding pool_within_def all_axes by blast+

lemma pool_within_bal: "pool_within uses B M p \<Longrightarrow> 0 \<le> B \<Longrightarrow> bal ax p now k \<le> B"
  using pool_withinD(2) by (auto simp: bal_def live_def split: option.splits)

lemma pool_within_nonneg: "pool_within uses B M p \<Longrightarrow> 0 \<le> bal ax p now k"
  using pool_withinD(2) by (auto simp: bal_def live_def split: option.splits)

lemma pool_within_touched:
  assumes w: "pool_within uses B M p" "touched uses now M p p'" "B \<le> B'"
    and bal: "\<And>ax k. 0 \<le> bal ax p' now k \<and> bal ax p' now k \<le> B'"
  shows "pool_within uses B' M p'"
proof -
  have c: "pCfg p' = pCfg p" using w(2) by (simp add: touched_def)
  have "0 \<le> lb_axis ax b \<and> lb_axis ax b \<le> B'" if b: "pLease p' k = Some b" for k b ax
  proof (cases "pLease p k = Some b")
    case True
    then show ?thesis using pool_withinD(2) [OF w(1) True, of ax] w(3) by linarith
  next
    case False
    then have "time_before now (lbExpiresAt b)" using w(2) b by (auto simp: touched_def)
    then have "live p' now k = Some b" using b by (simp add: live_def)
    then show ?thesis using bal [of ax k] by (simp add: bal_def)
  qed
  moreover have "res_within uses M r" if "pRes p' rid = Some r" for rid r
    using w(2) that pool_withinD(3) [OF w(1)] unfolding touched_def by blast
  ultimately show ?thesis using pool_withinD(1,4) [OF w(1)] unfolding pool_within_def all_axes c by blast
qed

lemma touched_refl [simp]: "touched uses now M p p"
  by (auto simp: touched_def)

lemma touched_deny [simp]: "touched uses now M p (p\<lparr>pDeny := dc\<rparr>)"
  by (auto simp: touched_def)

lemma touched_NoteBorrow [simp]: "touched uses now M p (NoteBorrow p)"
  by (auto simp: touched_def)

lemma touched_getLease: "touched uses now M p (snd (getLeaseLocked (purgeResLocked p t) key t'))"
  by (auto simp: touched_def getLeaseLocked_def Let_def map_drop_def split: option.splits if_splits)

lemma touched_purge: "touched uses now M p (purgeResLocked p t)"
  by (auto simp: touched_def map_drop_def split: option.splits if_splits)

lemma touched_Credit: "pool_ok p \<Longrightarrow> touched uses now M p (CreditLease p now key limits a b c d)"
  using ttl_live pool_okD(1) by (auto simp: touched_def CreditLease_def Let_def)

lemma touched_TryDebit:
  assumes "pool_ok p" "uses key limits" "0 \<le> M" "\<And>ax. 0 \<le> axis_cost ax cost \<and> axis_cost ax cost \<le> M"
  shows "touched uses now M p (snd (TryDebit p now key limits cost rid))"
proof -
  obtain bo p1 where g: "getLeaseLocked (purgeResLocked p now) key now = (bo, p1)" by fastforce
  then have t: "touched uses now M p p1" using touched_getLease [of uses now M p now key now] by simp
  have a: "0 \<le> Requests cost" "0 \<le> CTokens cost" "0 \<le> InputTokens cost" "0 \<le> OutputTokens cost"
    "Requests cost \<le> M" "CTokens cost \<le> M" "InputTokens cost \<le> M" "OutputTokens cost \<le> M"
    using assms(4) [of Rpm] assms(4) [of Tpm] assms(4) [of Itpm] assms(4) [of Otpm] by simp_all
  show ?thesis using t a assms(2,3) ttl_live [OF pool_okD(1) [OF assms(1)]]
    by (cases bo) (auto simp: TryDebit_def Let_def g touched_def keyStr_def res_within_def over_within_def zero_Decision_def)
qed

lemma leaseFor_other:
  assumes "leaseFor p r now = (b0, p1)" "pLease p1 k = Some b" "k \<noteq> cacheKey (lrKey r)"
  shows "pLease p k = Some b"
  using assms by (auto simp: leaseFor_def getLeaseLocked_def Let_def keyStr_def split: option.splits if_splits prod.splits)

lemma RefundLocal_none:
  "local_pending p now rid = None \<Longrightarrow> snd (RefundLocal p now rid) = purgeResLocked p now"
  by (auto simp: RefundLocal_def Let_def local_pending_def map_drop_def not_Pending split: option.splits if_splits)

text \<open>The effect of a pool operation on the balances: \<open>gain ax k\<close> is what each of them changes by.\<close>

definition pool_eff :: "(Key \<Rightarrow> Limits \<Rightarrow> bool) \<Rightarrow> time \<Rightarrow> int \<Rightarrow> Pool \<Rightarrow> Pool \<Rightarrow> (axis \<Rightarrow> string \<Rightarrow> int) \<Rightarrow> bool" where
  "pool_eff uses now M p p' gain \<longleftrightarrow> touched uses now M p p' \<and> pool_ok p' \<and>
     (\<forall>ax k. bal ax p' now k = bal ax p now k + gain ax k \<and> gain ax k \<le> M)"

lemma pool_eff_within:
  assumes "pool_within uses B M p" "0 \<le> B" "0 \<le> M" "pool_eff uses now M p p' gain"
  shows "pool_within uses (B + M) M p'"
proof (rule pool_within_touched [OF assms(1)])
  fix ax k
  have "bal ax p now k \<le> B" by (rule pool_within_bal [OF assms(1,2)])
  moreover have "0 \<le> bal ax p' now k"
    using bal_amount [of p' ax now k] assms(4) by (simp add: pool_eff_def amount_ok_def)
  moreover have "bal ax p' now k = bal ax p now k + gain ax k" "gain ax k \<le> M"
    using assms(4) by (simp_all add: pool_eff_def)
  ultimately show "0 \<le> bal ax p' now k \<and> bal ax p' now k \<le> B + M" by linarith
qed (use assms in \<open>simp_all add: pool_eff_def\<close>)

lemma pool_eff_same:
  assumes "pool_ok p'" "touched uses now M p p'" "\<And>ax k. bal ax p' now k = bal ax p now k" "0 \<le> M"
  shows "pool_eff uses now M p p' (\<lambda>_ _. 0)"
  using assms by (simp add: pool_eff_def)

lemma TryDebit_eff:
  assumes ok: "pool_ok p" "cost_ok cost" and M: "0 \<le> M" "\<And>ax. axis_cost ax cost \<le> M" and u: "uses key limits"
    and r: "TryDebit p now key limits cost rid = (d, p')"
  shows "pool_eff uses now M p p'
    (\<lambda>ax k. - (if d \<noteq> None \<and> cacheKey key = k \<and> active ax (Split limits) then axis_cost ax cost else 0))"
    "d = Some dec \<Longrightarrow> Allowed dec"
proof -
  have c: "0 \<le> axis_cost ax cost \<and> axis_cost ax cost \<le> M" for ax
    using cost_okD [OF ok(2), of ax] M(2) by (simp add: amount_ok_def)
  have t: "touched uses now M p p'" using touched_TryDebit [where uses = uses and rid = rid and now = now, OF ok(1) u M(1) c] by (simp add: r)
  show "pool_eff uses now M p p'
    (\<lambda>ax k. - (if d \<noteq> None \<and> cacheKey key = k \<and> active ax (Split limits) then axis_cost ax cost else 0))"
  proof (cases "covers (live p now (cacheKey key)) cost (Split limits)")
    case True
    from TryDebit_hit [OF True ok, where rid = rid] show ?thesis using t c M(1)
      unfolding r by (auto simp: pool_eff_def intro: order_trans [where y = 0])
  next
    case False
    from TryDebit_miss_ok(1,5) [OF False, where rid = rid] TryDebit_miss(1) [OF False, where rid = rid] ok(1) t M(1)
    show ?thesis unfolding r by (simp add: pool_eff_def)
  qed
  show "d = Some dec \<Longrightarrow> Allowed dec"
    using TryDebit_hit(1) [OF _ ok, of now key limits rid] TryDebit_miss(1) [of p now key cost limits rid] r by fastforce
qed

lemma Has_eff:
  assumes ok: "pool_ok p" "0 \<le> M" and h: "Has p now key cost limits = (has, p')"
  shows "pool_eff uses now M p p' (\<lambda>_ _. 0)"
proof -
  have p': "p' = snd (getLeaseLocked p key now)" using h by (auto simp: Has_def split: prod.splits)
  have t: "touched uses now M p p'"
    by (auto simp: p' touched_def getLeaseLocked_def Let_def split: option.splits if_splits)
  have ok': "pool_ok p'"
    by (rule pool_ok_update [OF ok(1)]) (auto simp: p' getLeaseLocked_def Let_def split: option.splits if_splits)
  show ?thesis by (rule pool_eff_same [OF ok' t _ ok(2)]) (simp add: p' bal_def getLease_live(7))
qed

lemma CreditLease_eff:
  assumes ok: "pool_ok p" and br: "\<And>ax. 0 \<le> axis_got ax b \<and> axis_got ax b \<le> M" and M: "0 \<le> M"
    and room: "\<And>ax. bal ax p now (cacheKey key) + M < 2 ^ 62"
  shows "pool_eff uses now M p (CreditLease p now key limits (GotRPM b) (GotTPM b) (GotITPM b) (GotOTPM b))
    (\<lambda>ax k. if cacheKey key = k then axis_got ax b else 0)"
proof -
  have b0: "0 \<le> bal ax p now (cacheKey key)" for ax using bal_amount [OF ok] by (simp add: amount_ok_def)
  have am: "amount_ok (axis_got ax b)" "amount_ok (bal ax p now (cacheKey key) + axis_got ax b)" for ax
    using br [of ax] b0 [of ax] room [of ax] by (simp_all add: amount_ok_def)
  note aa = am(1) [of Rpm, simplified] am(1) [of Tpm, simplified] am(1) [of Itpm, simplified] am(1) [of Otpm, simplified]
  have pick: "axis_pick ax (GotRPM b) (GotTPM b) (GotITPM b) (GotOTPM b) = axis_got ax b" for ax by (cases ax) simp_all
  show ?thesis
    using CreditLease_ok [OF ok aa] CreditLease_bal(1) [OF ok aa] am(2) pick touched_Credit [OF ok] br M
    by (auto simp: pool_eff_def)
qed

definition local_back :: "axis \<Rightarrow> string \<Rightarrow> Pool \<Rightarrow> time \<Rightarrow> string \<Rightarrow> int" where
  "local_back ax k p now rid =
     (case local_pending p now rid of
        None \<Rightarrow> 0
      | Some r \<Rightarrow> if cacheKey (lrKey r) = k \<and> active ax (Split (lrLimits r)) then lr_axis ax r else 0)"

text \<open>A settlement or a refund writes the lease of the key back with a new lifetime, changed by \<open>g\<close>.\<close>

lemma finish_eff:
  assumes ok: "pool_ok p" and l: "leaseFor (purgeResLocked p now) r now = (b0, p1)"
    and p': "p' = p1\<lparr>pLease := (pLease p1)(cacheKey (lrKey r) \<mapsto> b), pRes := (pRes p1)(rid \<mapsto> r'), pDeny := dc\<rparr>"
    and b: "lbExpiresAt b = time_add now (LeaseTTL (pCfg p1))" "\<And>ax. lb_axis ax b = lb_axis ax b0 + g ax"
      "\<And>ax. amount_ok (lb_axis ax b)" "\<And>ax. g ax \<le> M"
    and r': "res_within uses M r'" and M: "0 \<le> M" "M < 2 ^ 62"
  shows "pool_eff uses now M p p' (\<lambda>ax k. if cacheKey (lrKey r) = k then g ax else 0)"
proof -
  note lp = leaseFor_props [OF pool_ok_purge [OF ok] l]
  have c: "pCfg p1 = pCfg p" using lp(2) by simp
  have "bal ax p' now k = bal ax p now k + (if cacheKey (lrKey r) = k then g ax else 0)" for ax k
    using bal_written [OF ok l, of p' b ax k] lp(1) [of ax] b(1,2) by (simp add: p' c)
  moreover have "touched uses now M p p'"
    using leaseFor_other [OF l] ttl_live [OF pool_okD(1) [OF ok]] r' b(1) lp(3) c
    by (auto simp: touched_def p' map_drop_def split: option.splits if_splits)
  moreover have "amount_ok (lr_axis ax r')" for ax
    using res_withinD(2,3) [OF r', of ax] M(2) by (simp add: amount_ok_def)
  then have "pool_ok p'"
    using leaseFor_other [OF l] b(3) lp(3) c
    by (intro pool_ok_update [OF ok]) (auto simp: p' map_drop_def split: option.splits if_splits)
  ultimately show ?thesis using b(4) M(1) by (simp add: pool_eff_def)
qed

lemma purge_eff:
  assumes "pool_ok p" "0 \<le> M"
  shows "pool_eff uses now M p (purgeResLocked p now) (\<lambda>_ _. 0)"
  using pool_ok_purge [OF assms(1)] touched_purge assms(2) by (simp add: pool_eff_def del: purge_pool)

lemma pending_within:
  assumes "pool_within uses B M p" "local_pending p now rid = Some r"
  shows "res_within uses M r"
  using assms(2) by (intro pool_withinD(3) [OF assms(1), of rid]) (auto simp: local_pending_def split: option.splits if_splits)

text \<open>The amounts a settlement or a refund of a pending reservation computes with.\<close>

lemma lease_amounts:
  assumes w: "pool_within uses B M p" and B: "0 \<le> B" "0 \<le> M" "B + M < 2 ^ 62"
    and r: "local_pending p now rid = Some r" and l: "leaseFor (purgeResLocked p now) r now = (b0, p1)"
  shows "lb_axis ax b0 = bal ax p now (cacheKey (lrKey r))" "amount_ok (lb_axis ax b0)" "amount_ok (lr_axis ax r)"
    "lr_axis ax r \<le> M" "amount_ok (lb_axis ax b0 + lr_axis ax r)"
proof -
  have ok: "pool_ok p" using pool_within_ok [OF w] B by simp
  show 1: "lb_axis ax b0 = bal ax p now (cacheKey (lrKey r))" using leaseFor_props(1) [OF pool_ok_purge [OF ok] l, of ax] by simp
  show "lr_axis ax r \<le> M" using res_withinD(3) [OF pending_within [OF w r]] .
  then show "amount_ok (lb_axis ax b0)" "amount_ok (lr_axis ax r)" "amount_ok (lb_axis ax b0 + lr_axis ax r)"
    using 1 pool_within_bal [OF w B(1), of ax now "cacheKey (lrKey r)"] bal_amount [OF ok, of ax now "cacheKey (lrKey r)"]
      res_withinD(2) [OF pending_within [OF w r], of ax] B by (auto simp: amount_ok_def)
qed

lemma RefundLocal_eff:
  assumes w: "pool_within uses B M p" and B: "0 \<le> B" "0 \<le> M" "B + M < 2 ^ 62"
    and r: "RefundLocal p now rid = (e, p')"
  shows "pool_eff uses now M p p' (\<lambda>ax k. local_back ax k p now rid)"
proof -
  have ok: "pool_ok p" and M: "M < 2 ^ 62" using pool_within_ok [OF w] B by simp_all
  show ?thesis
  proof (cases "local_pending p now rid")
    case None
    then have "p' = purgeResLocked p now" using RefundLocal_none [OF None] r by simp
    then show ?thesis using purge_eff [OF ok B(2)] by (simp add: local_back_def None del: purge_pool)
  next
    case (Some x)
    obtain b0 p1 where l: "leaseFor (purgeResLocked p now) x now = (b0, p1)" by fastforce
    note am = lease_amounts [OF w B Some l]
    note a0 = am(2) [of Rpm, simplified] am(2) [of Tpm, simplified] am(2) [of Itpm, simplified] am(2) [of Otpm, simplified]
      am(3) [of Rpm, simplified] am(3) [of Tpm, simplified] am(3) [of Itpm, simplified] am(3) [of Otpm, simplified]
    define b where "b = b0\<lparr>lbRpm := i64_add (lbRpm b0) (lrRPMCost x),
        lbTpm := (if Split (lrLimits x) then lbTpm b0 else i64_add (lbTpm b0) (lrTPMReserved x)),
        lbItpm := (if Split (lrLimits x) then i64_add (lbItpm b0) (lrITPMReserved x) else lbItpm b0),
        lbOtpm := (if Split (lrLimits x) then i64_add (lbOtpm b0) (lrOTPMReserved x) else lbOtpm b0),
        lbExpiresAt := time_add now (LeaseTTL (pCfg p1))\<rparr>"
    have bx: "lb_axis ax b = lb_axis ax b0 + (if active ax (Split (lrLimits x)) then lr_axis ax x else 0)" for ax
      using a0 by (cases ax) (simp_all add: b_def)
    have p': "p' = p1\<lparr>pLease := (pLease p1)(cacheKey (lrKey x) \<mapsto> b),
        pRes := (pRes p1)(rid \<mapsto> local_finish x Refunded (lrLastDecision x) now), pDeny := deny_Clear (pDeny p1) (lrKey x)\<rparr>"
      using RefundLocal_pending [OF Some l] r by (simp add: b_def)
    have "res_within uses M (local_finish x Refunded (lrLastDecision x) now)"
      using res_within_finish res_withinD(4) pending_within [OF w Some] by blast
    note e = finish_eff [OF ok l p' _ bx _ _ this B(2) M]
    have "(\<lambda>ax k. local_back ax k p now rid) =
        (\<lambda>ax k. if cacheKey (lrKey x) = k then if active ax (Split (lrLimits x)) then lr_axis ax x else 0 else 0)"
      by (auto simp: local_back_def Some fun_eq_iff)
    then show ?thesis using e am(2,4,5) B(2) by (simp add: bx) (simp add: b_def)
  qed
qed

text \<open>What a settlement adds to a balance: what was reserved and not used, or less than nothing.\<close>

fun reported :: "usage \<Rightarrow> axis \<Rightarrow> int option" where
  "reported (Whole a) Tpm = Some (max 0 a)"
| "reported (InOut i out) Itpm = Some (max 0 i)"
| "reported (InOut i out) Otpm = Some (max 0 out)"
| "reported u ax = None"

definition settle_gain :: "usage \<Rightarrow> Reservation \<Rightarrow> (axis \<Rightarrow> int) \<Rightarrow> axis \<Rightarrow> int" where
  "settle_gain u r balance ax = (case reported u ax of None \<Rightarrow> 0 | Some act \<Rightarrow> max (lr_axis ax r - act) (- balance ax))"

definition settle_back :: "usage \<Rightarrow> axis \<Rightarrow> string \<Rightarrow> Pool \<Rightarrow> time \<Rightarrow> string \<Rightarrow> int" where
  "settle_back u ax k p now rid =
     (case local_pending p now rid of
        None \<Rightarrow> 0
      | Some r \<Rightarrow> if cacheKey (lrKey r) = k \<and> Split (lrLimits r) = splits u then settle_gain u r (\<lambda>ax. bal ax p now k) ax else 0)"

fun usage_within :: "int \<Rightarrow> usage \<Rightarrow> bool" where
  "usage_within M (Whole a) \<longleftrightarrow> a \<le> M"
| "usage_within M (InOut i out) \<longleftrightarrow> i \<le> M \<and> out \<le> M"

lemma pool_settle_idle:
  assumes "\<And>r. local_pending p now rid = Some r \<Longrightarrow> Split (lrLimits r) \<noteq> splits u"
  shows "snd (pool_settle u p now rid) = purgeResLocked p now"
    "fst (pool_settle u p now rid) = Inr d \<Longrightarrow>
      \<exists>r. pRes p rid = Some r \<and> d = lrLastDecision r \<and> Split (lrLimits r) = splits u"
  using assms by (cases u; auto simp: SettleLocal_def SettleLocalIO_def Let_def local_pending_def map_drop_def not_Pending
      split: option.splits if_splits prod.splits)+

text \<open>The lease a settlement of a pending reservation writes back.\<close>

lemma pool_settle_pending:
  assumes r: "local_pending p now rid = Some r" "Split (lrLimits r) = splits u"
    and l: "leaseFor (purgeResLocked p now) r now = (b0, p1)"
    and am: "\<And>ax. amount_ok (lb_axis ax b0)" "\<And>ax. amount_ok (lr_axis ax r)"
    and u: "usage_within M u" and M: "0 \<le> M" "M < 2 ^ 62"
  shows "\<exists>dec b dc. pool_settle u p now rid =
      (Inr dec, p1\<lparr>pLease := (pLease p1)(cacheKey (lrKey r) \<mapsto> b), pRes := (pRes p1)(rid \<mapsto> local_finish r Settled dec now),
         pDeny := dc\<rparr>) \<and>
    lbExpiresAt b = time_add now (LeaseTTL (pCfg p1)) \<and> over_within M (splits u) dec \<and>
    (\<forall>ax. lb_axis ax b = lb_axis ax b0 + settle_gain u r (\<lambda>ax. lb_axis ax b0) ax)"
proof (cases u)
  case (Whole a)
  have a: "amount_ok (max 0 a)" "max 0 a \<le> M" using u M by (simp_all add: Whole amount_ok_def)
  note b0 = am [of Tpm, simplified]
  obtain dec dc where d: "SettleLocal p now rid a = (Inr dec, p1\<lparr>pLease := (pLease p1)(cacheKey (lrKey r) \<mapsto>
      b0\<lparr>lbTpm := lbTpm b0 + lrTPMReserved r - max 0 a + max 0 (max 0 a - lrTPMReserved r - lbTpm b0),
         lbExpiresAt := time_add now (LeaseTTL (pCfg p1))\<rparr>), pRes := (pRes p1)(rid \<mapsto> local_finish r Settled dec now), pDeny := dc\<rparr>)"
    "OvershootTPM dec = max 0 (max 0 a - lrTPMReserved r - lbTpm b0)"
    using SettleLocal_pending [OF r(1) _ l applyLocalDelta_spec [OF b0 a(1)]] r(2) by (auto simp: Whole)
  have "over_within M False dec" using d(2) a(2) b0 M(1) by (auto simp: over_within_def amount_ok_def)
  moreover have "lb_axis ax (b0\<lparr>lbTpm := lbTpm b0 + lrTPMReserved r - max 0 a + max 0 (max 0 a - lrTPMReserved r - lbTpm b0),
      lbExpiresAt := e\<rparr>) = lb_axis ax b0 + settle_gain u r (\<lambda>ax. lb_axis ax b0) ax" for ax e
    by (cases ax) (auto simp: settle_gain_def Whole)
  ultimately show ?thesis using d(1) by (intro exI conjI allI) (auto simp: Whole)
next
  case (InOut i out)
  have a: "amount_ok (max 0 i)" "max 0 i \<le> M" "amount_ok (max 0 out)" "max 0 out \<le> M"
    using u M by (simp_all add: InOut amount_ok_def)
  note b0 = am [of Itpm, simplified] am [of Otpm, simplified]
  let ?i = "max 0 i" and ?o = "max 0 out"
  obtain dec dc where d: "SettleLocalIO p now rid i out = (Inr dec, p1\<lparr>pLease := (pLease p1)(cacheKey (lrKey r) \<mapsto>
      b0\<lparr>lbItpm := lbItpm b0 + lrITPMReserved r - ?i + max 0 (?i - lrITPMReserved r - lbItpm b0),
         lbOtpm := lbOtpm b0 + lrOTPMReserved r - ?o + max 0 (?o - lrOTPMReserved r - lbOtpm b0),
         lbExpiresAt := time_add now (LeaseTTL (pCfg p1))\<rparr>), pRes := (pRes p1)(rid \<mapsto> local_finish r Settled dec now), pDeny := dc\<rparr>)"
    "OvershootITPM dec = max 0 (?i - lrITPMReserved r - lbItpm b0)" "OvershootOTPM dec = max 0 (?o - lrOTPMReserved r - lbOtpm b0)"
    using SettleLocalIO_pending [OF r(1) _ l applyLocalDelta_spec [OF b0(1,2) a(1)] applyLocalDelta_spec [OF b0(3,4) a(3)]] r(2)
    by (auto simp: InOut)
  have "over_within M True dec" using d(2,3) a(2,4) b0 M(1) by (auto simp: over_within_def amount_ok_def)
  moreover have "lb_axis ax (b0\<lparr>lbItpm := lbItpm b0 + lrITPMReserved r - ?i + max 0 (?i - lrITPMReserved r - lbItpm b0),
      lbOtpm := lbOtpm b0 + lrOTPMReserved r - ?o + max 0 (?o - lrOTPMReserved r - lbOtpm b0),
      lbExpiresAt := e\<rparr>) = lb_axis ax b0 + settle_gain u r (\<lambda>ax. lb_axis ax b0) ax" for ax e
    by (cases ax) (auto simp: settle_gain_def InOut)
  ultimately show ?thesis using d(1) by (intro exI conjI allI) (auto simp: InOut)
qed

lemma pool_settle_eff:
  assumes w: "pool_within uses B M p" and B: "0 \<le> B" "0 \<le> M" "B + M < 2 ^ 62" and u: "usage_within M u"
    and s: "pool_settle u p now rid = (res, p')"
  shows "pool_eff uses now M p p' (\<lambda>ax k. settle_back u ax k p now rid)"
    "res = Inr d \<Longrightarrow> over_within M (splits u) d"
proof -
  have ok: "pool_ok p" and M: "M < 2 ^ 62" using pool_within_ok [OF w] B by simp_all
  have "pool_eff uses now M p p' (\<lambda>ax k. settle_back u ax k p now rid) \<and> (res = Inr d \<longrightarrow> over_within M (splits u) d)"
  proof (cases "\<exists>r. local_pending p now rid = Some r \<and> Split (lrLimits r) = splits u")
    case False
    then have idle: "Split (lrLimits r) \<noteq> splits u" if "local_pending p now rid = Some r" for r using that by blast
    note i = pool_settle_idle [of p now rid u, OF idle]
    have "(\<lambda>ax k. settle_back u ax k p now rid) = (\<lambda>_ _. 0)"
      using idle by (auto simp: settle_back_def fun_eq_iff split: option.splits)
    moreover have "over_within M (splits u) d" if "res = Inr d"
      using i(2) [of d] that s res_withinD(4) [OF pool_withinD(3) [OF w]] by fastforce
    ultimately show ?thesis using purge_eff [OF ok B(2)] i(1) s by (simp del: purge_pool)
  next
    case True
    then obtain r where r: "local_pending p now rid = Some r" "Split (lrLimits r) = splits u" by blast
    obtain b0 p1 where l: "leaseFor (purgeResLocked p now) r now = (b0, p1)" by fastforce
    note am = lease_amounts [OF w B r(1) l]
    obtain dec b dc where e: "res = Inr dec" "p' = p1\<lparr>pLease := (pLease p1)(cacheKey (lrKey r) \<mapsto> b),
          pRes := (pRes p1)(rid \<mapsto> local_finish r Settled dec now), pDeny := dc\<rparr>"
        "lbExpiresAt b = time_add now (LeaseTTL (pCfg p1))" "over_within M (splits u) dec"
        "\<And>ax. lb_axis ax b = lb_axis ax b0 + settle_gain u r (\<lambda>ax. lb_axis ax b0) ax"
      using pool_settle_pending [OF r l am(2,3) u B(2) M] s by auto
    have g: "settle_gain u r (\<lambda>ax. lb_axis ax b0) ax \<le> M" "amount_ok (lb_axis ax b)" for ax
      using am [of ax] e(5) [of ax] B(2) u by (cases u; cases ax; auto simp: settle_gain_def amount_ok_def)+
    have "res_within uses M (local_finish r Settled dec now)"
      using res_within_finish [OF pending_within [OF w r(1)]] e(4) r(2) by simp
    note f = finish_eff [OF ok l e(2,3,5) g(2,1) this B(2) M]
    have "(\<lambda>ax k. settle_back u ax k p now rid) =
        (\<lambda>ax k. if cacheKey (lrKey r) = k then settle_gain u r (\<lambda>ax. lb_axis ax b0) ax else 0)"
      by (auto simp: settle_back_def r fun_eq_iff am(1))
    then show ?thesis using f e(1,4) by auto
  qed
  then show "pool_eff uses now M p p' (\<lambda>ax k. settle_back u ax k p now rid)"
    "res = Inr d \<Longrightarrow> over_within M (splits u) d" by blast+
qed

text \<open>The loan for an overshoot is credited, and then credited and consumed once more.\<close>

lemma pool_credit_eff:
  assumes ok: "pool_ok p" and br: "\<And>ax. 0 \<le> axis_got ax b \<and> axis_got ax b \<le> M" and M: "0 \<le> M"
    and room: "\<And>ax. bal ax p now (cacheKey (lrKey r)) + M < 2 ^ 62"
  shows "pool_eff uses now M p (pool_credit u p now r b)
    (\<lambda>ax k. if cacheKey (lrKey r) = k \<and> active ax (splits u) then axis_got ax b else 0)"
proof -
  define b' where "b' = (if splits u then b\<lparr>GotTPM := 0\<rparr> else b\<lparr>GotITPM := 0, GotOTPM := 0\<rparr>)"
  have g: "axis_got ax b' = (if active ax (splits u) then axis_got ax b else 0)" for ax
    by (cases ax) (simp_all add: b'_def)
  have "pool_credit u p now r b = CreditLease p now (lrKey r) (lrLimits r) (GotRPM b') (GotTPM b') (GotITPM b') (GotOTPM b')"
    by (cases u) (simp_all add: b'_def)
  moreover have "(\<lambda>ax k. if cacheKey (lrKey r) = k \<and> active ax (splits u) then axis_got ax b else 0) =
      (\<lambda>ax k. if cacheKey (lrKey r) = k then axis_got ax b' else 0)"
    by (auto simp: g fun_eq_iff)
  ultimately show ?thesis using CreditLease_eff [OF ok _ M room, of b' uses "lrLimits r"] br M by (simp add: g)
qed

definition deficit_gain :: "usage \<Rightarrow> Reservation \<Rightarrow> BorrowResult \<Rightarrow> (axis \<Rightarrow> int) \<Rightarrow> axis \<Rightarrow> int" where
  "deficit_gain u r b balance ax =
     (case reported u ax of
        None \<Rightarrow> 0
      | Some _ \<Rightarrow> max (axis_got ax b - max 0 (axis_over ax (lrLastDecision r))) (- balance ax))"

definition deficit_back :: "usage \<Rightarrow> axis \<Rightarrow> string \<Rightarrow> Pool \<Rightarrow> time \<Rightarrow> string \<Rightarrow> BorrowResult \<Rightarrow> int" where
  "deficit_back u ax k p now rid b =
     (case pRes p rid of
        None \<Rightarrow> 0
      | Some r \<Rightarrow>
          if cacheKey (lrKey r) = k \<and> live p now k \<noteq> None then deficit_gain u r b (\<lambda>ax. bal ax p now k) ax else 0)"

lemma payOvershoot_spec:
  assumes "amount_ok x"
  shows "fst (payOvershoot x over) = max 0 (x - max 0 over)"
    "0 \<le> M \<Longrightarrow> M < 2 ^ 62 \<Longrightarrow> over \<le> M \<Longrightarrow> snd (payOvershoot x over) \<le> M"
  using assms by (auto simp: payOvershoot_def amount_ok_def i64_exact in64_def)

text \<open>The lease and the reservation the deficit is written to.\<close>

lemma pool_deficit_live:
  assumes r: "pRes p rid = Some r" "live p now (cacheKey (lrKey r)) = Some b0"
    and am: "\<And>ax. amount_ok (lb_axis ax b0)" "\<And>ax. amount_ok (lb_axis ax b0 + axis_got ax br)" "\<And>ax. amount_ok (axis_got ax br)"
    and w: "res_within uses M r" and M: "0 \<le> M" "M < 2 ^ 62"
  shows "\<exists>b r'. pool_deficit u p now rid br = (snd (getLeaseLocked p (lrKey r) now))
      \<lparr>pLease := (pLease (snd (getLeaseLocked p (lrKey r) now)))(cacheKey (lrKey r) \<mapsto> b), pRes := (pRes p)(rid \<mapsto> r')\<rparr> \<and>
    lbExpiresAt b = lbExpiresAt b0 \<and> res_within uses M r' \<and>
    (\<forall>ax. lb_axis ax b = lb_axis ax b0 + deficit_gain u r br (\<lambda>ax. lb_axis ax b0) ax)"
proof -
  define p1 where "p1 = snd (getLeaseLocked p (lrKey r) now)"
  have g: "getLeaseLocked p (lrKey r) now = (Some b0, p1)" using getLease_pair [of p "lrKey r" now] r(2) by (simp add: p1_def)
  note s = payOvershoot_spec and W = res_withinD(4) [OF w] and q = getLease_live(2) [of p "lrKey r" now, folded p1_def]
  note b0 = am(1) [of Tpm, simplified] am(1) [of Itpm, simplified] am(1) [of Otpm, simplified]
    am(2) [of Tpm, simplified] am(2) [of Itpm, simplified] am(2) [of Otpm, simplified]
    am(3) [of Tpm, simplified] am(3) [of Itpm, simplified] am(3) [of Otpm, simplified]
  let ?d = "lrLastDecision r"
  show ?thesis
  proof (cases u)
    case (Whole a)
    obtain t n where n: "payOvershoot (lbTpm b0 + GotTPM br) (OvershootTPM ?d) = (t, n)" by fastforce
    define b where "b = b0\<lparr>lbTpm := t\<rparr>"
    define r' where "r' = r\<lparr>lrLastDecision := ?d\<lparr>OvershootTPM := n, RemainingTPM := t, RemainingRPM := lbRpm b0\<rparr>\<rparr>"
    have "pool_deficit u p now rid br = p1\<lparr>pLease := (pLease p1)(cacheKey (lrKey r) \<mapsto> b), pRes := (pRes p)(rid \<mapsto> r')\<rparr>"
      using b0 by (simp add: Whole ApplyBorrowedDeficit_def Let_def r(1) g n q keyStr_def b_def r'_def)
    moreover have "res_within uses M r'"
      using w s(2) [OF b0(4) M, of "OvershootTPM ?d"] W by (auto simp: res_within_def over_within_def r'_def n)
    moreover have "lb_axis ax b = lb_axis ax b0 + deficit_gain u r br (\<lambda>ax. lb_axis ax b0) ax" for ax
      using s(1) [OF b0(4), of "OvershootTPM ?d"] by (cases ax) (auto simp: b_def n Whole deficit_gain_def)
    ultimately show ?thesis unfolding p1_def [symmetric] by (intro exI [of _ b] exI [of _ r'] conjI allI) (simp_all add: b_def)
  next
    case (InOut i out)
    obtain t n where n: "payOvershoot (lbItpm b0 + GotITPM br) (OvershootITPM ?d) = (t, n)" by fastforce
    obtain v m where m: "payOvershoot (lbOtpm b0 + GotOTPM br) (OvershootOTPM ?d) = (v, m)" by fastforce
    define b where "b = b0\<lparr>lbItpm := t, lbOtpm := v\<rparr>"
    define r' where "r' = r\<lparr>lrLastDecision := ?d\<lparr>OvershootITPM := n, OvershootOTPM := m, RemainingITPM := t, RemainingOTPM := v,
        RemainingTPM := v, RemainingRPM := lbRpm b0\<rparr>\<rparr>"
    have "pool_deficit u p now rid br = p1\<lparr>pLease := (pLease p1)(cacheKey (lrKey r) \<mapsto> b), pRes := (pRes p)(rid \<mapsto> r')\<rparr>"
      using b0 by (simp add: InOut ApplyBorrowedDeficitIO_def Let_def r(1) g n m q keyStr_def b_def r'_def)
    moreover have "res_within uses M r'"
      using w s(2) [OF b0(5) M, of "OvershootITPM ?d"] s(2) [OF b0(6) M, of "OvershootOTPM ?d"] W
      by (auto simp: res_within_def over_within_def r'_def n m)
    moreover have "lb_axis ax b = lb_axis ax b0 + deficit_gain u r br (\<lambda>ax. lb_axis ax b0) ax" for ax
      using s(1) [OF b0(5), of "OvershootITPM ?d"] s(1) [OF b0(6), of "OvershootOTPM ?d"]
      by (cases ax) (auto simp: b_def n m InOut deficit_gain_def)
    ultimately show ?thesis unfolding p1_def [symmetric] by (intro exI [of _ b] exI [of _ r'] conjI allI) (simp_all add: b_def)
  qed
qed

lemma pool_deficit_idle:
  assumes "\<And>r. pRes p rid = Some r \<Longrightarrow> live p now (cacheKey (lrKey r)) = None"
  shows "pool_deficit u p now rid br = p \<or> (\<exists>key. pool_deficit u p now rid br = snd (getLeaseLocked p key now))"
proof (cases "pRes p rid")
  case (Some r)
  obtain p1 where "getLeaseLocked p (lrKey r) now = (None, p1)" using getLease_pair [of p "lrKey r" now] assms [OF Some] by metis
  then show ?thesis using Some by (cases u) (auto simp: ApplyBorrowedDeficit_def ApplyBorrowedDeficitIO_def intro: exI [of _ "lrKey r"])
qed (cases u; simp add: ApplyBorrowedDeficit_def ApplyBorrowedDeficitIO_def)

lemma getLease_eff:
  assumes "pool_ok p" "0 \<le> M"
  shows "pool_eff uses now M p (snd (getLeaseLocked p key now)) (\<lambda>_ _. 0)"
proof (rule pool_eff_same)
  show "touched uses now M p (snd (getLeaseLocked p key now))"
    by (auto simp: touched_def getLeaseLocked_def Let_def split: option.splits if_splits)
  show "pool_ok (snd (getLeaseLocked p key now))"
    by (rule pool_ok_update [OF assms(1)]) (auto simp: getLeaseLocked_def Let_def split: option.splits if_splits)
qed (use assms(2) in \<open>simp_all add: bal_def getLease_live(7)\<close>)

lemma pool_deficit_eff:
  assumes w: "pool_within uses B M p" and B: "0 \<le> B" "0 \<le> M" "B + M < 2 ^ 62"
    and br: "\<And>ax. 0 \<le> axis_got ax b \<and> axis_got ax b \<le> M"
  shows "pool_eff uses now M p (pool_deficit u p now rid b) (\<lambda>ax k. deficit_back u ax k p now rid b)"
proof -
  have ok: "pool_ok p" and M: "M < 2 ^ 62" using pool_within_ok [OF w] B by simp_all
  show ?thesis
  proof (cases "\<exists>r b0. pRes p rid = Some r \<and> live p now (cacheKey (lrKey r)) = Some b0")
    case False
    then have idle: "live p now (cacheKey (lrKey r)) = None" if "pRes p rid = Some r" for r using that by auto
    have "(\<lambda>ax k. deficit_back u ax k p now rid b) = (\<lambda>_ _. 0)"
      using idle by (auto simp: deficit_back_def fun_eq_iff split: option.splits)
    moreover have "pool_eff uses now M p p (\<lambda>_ _. 0)" using ok B(2) by (simp add: pool_eff_def)
    ultimately show ?thesis using pool_deficit_idle [of p rid now u b, OF idle] getLease_eff [OF ok B(2)] by auto
  next
    case True
    then obtain r b0 where r: "pRes p rid = Some r" "live p now (cacheKey (lrKey r)) = Some b0" by blast
    let ?p1 = "snd (getLeaseLocked p (lrKey r) now)" and ?k = "cacheKey (lrKey r)"
    have bal: "bal ax p now ?k = lb_axis ax b0" for ax by (simp add: bal_def r(2))
    have am: "amount_ok (lb_axis ax b0)" "amount_ok (lb_axis ax b0 + axis_got ax b)" "amount_ok (axis_got ax b)" for ax
      using bal_amount [OF ok, of ax now ?k] pool_within_bal [OF w B(1), of ax now ?k] br [of ax] B M
      by (simp_all add: bal amount_ok_def)
    obtain b1 r' where e: "pool_deficit u p now rid b = ?p1\<lparr>pLease := (pLease ?p1)(?k \<mapsto> b1), pRes := (pRes p)(rid \<mapsto> r')\<rparr>"
      "lbExpiresAt b1 = lbExpiresAt b0" "res_within uses M r'"
      "\<And>ax. lb_axis ax b1 = lb_axis ax b0 + deficit_gain u r b (\<lambda>ax. lb_axis ax b0) ax"
      using pool_deficit_live [OF r am pool_withinD(3) [OF w r(1)] B(2) M] by blast
    have g: "deficit_gain u r b (\<lambda>ax. lb_axis ax b0) ax \<le> M" "amount_ok (lb_axis ax b1)" for ax
      using am [of ax] e(4) [of ax] br [of ax] B(2) by (auto simp: deficit_gain_def amount_ok_def split: option.splits)
    have alive: "time_before now (lbExpiresAt b1)" using r(2) e(2) by (auto simp: live_def split: option.splits if_splits)
    have "bal ax (pool_deficit u p now rid b) now k = bal ax p now k + deficit_back u ax k p now rid b" for ax k
      using live_upd [of "pool_deficit u p now rid b" ?p1 ?k b1 now k] alive e(4) [of ax] getLease_live(7) [of p "lrKey r" now k]
      by (auto simp: bal_def e(1) deficit_back_def r)
    moreover have old: "pLease p k = Some c" if "pLease ?p1 k = Some c" for k c
      using that by (auto simp: getLeaseLocked_def Let_def split: option.splits if_splits)
    have "touched uses now M p (pool_deficit u p now rid b)"
      using e(3) alive old getLease_live(3) [of p "lrKey r" now] by (auto simp: touched_def e(1) split: if_splits)
    moreover have "amount_ok (lr_axis ax r')" for ax
      using res_withinD(2,3) [OF e(3), of ax] M by (simp add: amount_ok_def)
    then have "pool_ok (pool_deficit u p now rid b)"
      using g(2) old getLease_live(3) [of p "lrKey r" now]
      by (intro pool_ok_update [OF ok]) (auto simp: e(1) split: if_splits)
    moreover have "deficit_back u ax k p now rid b \<le> M" for ax k
      using g(1) [of ax] B(2) by (auto simp: deficit_back_def r bal)
    ultimately show ?thesis by (simp add: pool_eff_def)
  qed
qed

end
