(* ===== verification/Concurrent_Accounting.thy ===== *)
theory Concurrent_Accounting
  imports Pool_Effects
begin

text \<open>
  The accounting of one step. A loan the store has granted and the thread has not yet credited is held by
  the thread; balances, held loans and admitted costs change by what the store lends and by what settlements and
  refunds give back. The interface \<open>bounded_loans\<close> says what a step relies on: a store that lends no more than it
  was asked for.
\<close>

section \<open>What a step admits, borrows and gives back\<close>

text \<open>The cost of an admitted check, and the loan a call has not yet credited to the pool.\<close>

fun spent :: "axis \<Rightarrow> string \<Rightarrow> thread \<Rightarrow> int" where
  "spent ax k (Checking key limits cost (Answered (Inr d))) =
     (if Allowed d \<and> cacheKey key = k \<and> active ax (Split limits) then max 0 (axis_cost ax cost) else 0)"
| "spent ax k _ = 0"

fun held :: "axis \<Rightarrow> string \<Rightarrow> thread \<Rightarrow> int" where
  "held ax k (Checking key limits cost (AtCredit rid b)) = (if cacheKey key = k then axis_got ax b else 0)"
| "held ax k (Settling rid u (SCredit r dec b)) =
     (if cacheKey (lrKey r) = k \<and> active ax (splits u) then axis_got ax b else 0)"
| "held ax k _ = 0"

text \<open>What the store lends in a step, and what settlements and refunds give back to the pool.\<close>

fun lent_by :: "'s StoreOps \<Rightarrow> axis \<Rightarrow> string \<Rightarrow> 's \<Rightarrow> time \<Rightarrow> store_op \<Rightarrow> int" where
  "lent_by S ax k s now (DoBorrow key limits spec) =
     (if cacheKey key = k
      then (case fst (opBorrow S s now key limits spec) of
              Inr b \<Rightarrow> if BrAllowed b then axis_got ax b else 0
            | Inl _ \<Rightarrow> 0)
      else 0)"
| "lent_by S ax k s now _ = 0"

definition step_lent :: "'s StoreOps \<Rightarrow> axis \<Rightarrow> string \<Rightarrow> time \<Rightarrow> thread \<Rightarrow> Pool \<Rightarrow> 's \<Rightarrow> int" where
  "step_lent S ax k now th p s = (case step_op p th of None \<Rightarrow> 0 | Some opn \<Rightarrow> lent_by S ax k s now opn)"

fun step_back :: "axis \<Rightarrow> string \<Rightarrow> time \<Rightarrow> thread \<Rightarrow> Pool \<Rightarrow> int" where
  "step_back ax k now (Settling rid u (SLocal r)) p = settle_back u ax k p now rid"
| "step_back ax k now (Settling rid u (SDeficit dec b)) p = deficit_back u ax k p now rid b"
| "step_back ax k now (Refunding rid AtLocal) p = local_back ax k p now rid"
| "step_back ax k now _ p = 0"

definition loan_within :: "int \<Rightarrow> BorrowResult \<Rightarrow> bool" where
  "loan_within M b \<longleftrightarrow> (\<forall>ax \<in> {Rpm, Tpm, Itpm, Otpm}. 0 \<le> axis_got ax b \<and> axis_got ax b \<le> M)"

lemma loan_withinD: "loan_within M b \<Longrightarrow> 0 \<le> axis_got ax b \<and> axis_got ax b \<le> M"
  unfolding loan_within_def all_axes by blast

fun check_ok :: "int \<Rightarrow> check_pc \<Rightarrow> bool" where
  "check_ok M (AtCredit rid b) = loan_within M b"
| "check_ok M _ = True"

fun settle_ok :: "(Key \<Rightarrow> Limits \<Rightarrow> bool) \<Rightarrow> int \<Rightarrow> usage \<Rightarrow> settle_pc \<Rightarrow> bool" where
  "settle_ok uses M u (SLocal r) \<longleftrightarrow> uses (lrKey r) (lrLimits r)"
| "settle_ok uses M u (SNote r dec) \<longleftrightarrow> uses (lrKey r) (lrLimits r) \<and> over_within M (splits u) dec"
| "settle_ok uses M u (SBorrow r dec) \<longleftrightarrow> uses (lrKey r) (lrLimits r) \<and> over_within M (splits u) dec"
| "settle_ok uses M u (SCredit r dec b) \<longleftrightarrow> loan_within M b"
| "settle_ok uses M u (SDeficit dec b) \<longleftrightarrow> loan_within M b"
| "settle_ok uses M u _ \<longleftrightarrow> True"

fun thread_ok :: "(Key \<Rightarrow> Limits \<Rightarrow> bool) \<Rightarrow> int \<Rightarrow> thread \<Rightarrow> bool" where
  "thread_ok uses M (Checking key limits cost pc) =
     (uses key limits \<and> (\<forall>ax \<in> {Rpm, Tpm, Itpm, Otpm}. axis_cost ax cost \<le> M) \<and> check_ok M pc)"
| "thread_ok uses M (Settling rid u pc) = (usage_within M u \<and> settle_ok uses M u pc)"
| "thread_ok uses M (Refunding rid pc) = True"

text \<open>A step of thread \<open>th\<close> to \<open>th'\<close> is accounted for by the gain of the balances.\<close>

definition accounted ::
  "(axis \<Rightarrow> string \<Rightarrow> int) \<Rightarrow> thread \<Rightarrow> thread \<Rightarrow> (axis \<Rightarrow> string \<Rightarrow> int) \<Rightarrow> bool" where
  "accounted inflow th th' gain \<longleftrightarrow>
     (\<forall>ax k. gain ax k + held ax k th' + spent ax k th' = held ax k th + spent ax k th + inflow ax k)"

lemma denials [simp]: "spent ax k (Checking key limits cost (Answered (Inr (denyDecision limits' lt ra)))) = 0"
  "spent ax k (Checking key limits cost (Answered (Inr (borrowDenyDecision limits' br)))) = 0"
  by simp_all

text \<open>A debit by a thread.\<close>

lemma debit_accounted:
  assumes ok: "pool_ok p" "0 \<le> M" "M < 2 ^ 62" and M: "\<And>ax. axis_cost ax cost \<le> M" and u: "uses key limits"
    and r: "TryDebit p now key limits (clampCosts cost) rid = (d, p')"
    and th: "\<And>ax k. held ax k th = 0" "\<And>ax k. spent ax k th = 0"
    and th': "\<And>dec. d = Some dec \<Longrightarrow> th' = Checking key limits cost (Answered (Inr dec))"
      "d = None \<Longrightarrow> (\<forall>ax k. held ax k th' = 0 \<and> spent ax k th' = 0)"
  shows "\<exists>gain. pool_eff uses now M p p' gain \<and> accounted (\<lambda>_ _. 0) th th' gain"
proof (intro exI conjI)
  have c: "axis_cost ax (clampCosts cost) \<le> M" for ax using M [of ax] ok(2) by simp
  have co: "cost_ok (clampCosts cost)"
    using M ok(3) unfolding cost_ok_def all_axes amount_ok_def clampCosts_axis by (meson le_less_trans max_less_iff_conj max.cobounded1 ok(2))
  show "pool_eff uses now M p p'
    (\<lambda>ax k. - (if d \<noteq> None \<and> cacheKey key = k \<and> active ax (Split limits) then axis_cost ax (clampCosts cost) else 0))"
    by (rule TryDebit_eff(1) [where uses = uses, OF ok(1) co ok(2) c u r])
  note al = TryDebit_eff(2) [where uses = uses, OF ok(1) co ok(2) c u r]
  show "accounted (\<lambda>_ _. 0) th th'
    (\<lambda>ax k. - (if d \<noteq> None \<and> cacheKey key = k \<and> active ax (Split limits) then axis_cost ax (clampCosts cost) else 0))"
    using th th' al by (cases d) (auto simp: accounted_def)
qed

text \<open>A step that does not reach the store changes only the pool and the thread.\<close>

lemma check_debit:
  assumes w: "pool_ok p" "0 \<le> M" "M < 2 ^ 62"
    and th: "thread_ok uses M (Checking key limits cost pc)" and pc: "pc = AtDebit rid \<or> pc = AtRedebit rid \<or> pc = AtErrDebit rid"
    and st: "thread_step S mode now newid (Checking key limits cost pc) p s = (th', p', s')"
  shows "s' = s \<and> thread_ok uses M th' \<and>
    (\<exists>gain. pool_eff uses now M p p' gain \<and> accounted (\<lambda>_ _. 0) (Checking key limits cost pc) th' gain)"
proof -
  obtain d p1 where r: "TryDebit p now key limits (clampCosts cost) rid = (d, p1)" by fastforce
  have c: "axis_cost ax cost \<le> M" for ax using th unfolding thread_ok.simps all_axes by blast
  have u: "uses key limits" using th by simp
  have e: "p' = p1" "s' = s" "thread_ok uses M th'" using pc st r th by (auto split: option.splits)
  have "\<exists>gain. pool_eff uses now M p p1 gain \<and> accounted (\<lambda>_ _. 0) (Checking key limits cost pc) th' gain"
    by (rule debit_accounted [where uses = uses, OF w c u r]) (use pc st r in \<open>auto split: option.splits\<close>)
  then show ?thesis using e by auto
qed

lemma step_gain:
  assumes "pool_eff uses now M p p' gain" "s' = s" "thread_ok uses M th'"
    and "\<And>ax k. gain ax k + held ax k th' + spent ax k th' = held ax k th + spent ax k th + inflow ax k"
  shows "s' = s \<and> thread_ok uses M th' \<and> (\<exists>gain. pool_eff uses now M p p' gain \<and> accounted inflow th th' gain)"
  using assms unfolding accounted_def by blast

lemmas check_still = step_gain [where gain = "\<lambda>_ _. 0" and inflow = "\<lambda>_ _. 0"]

lemma check_local:
  assumes w: "pool_within uses B M p" and B: "0 \<le> B" "0 \<le> M" "B + M < 2 ^ 62"
    and th: "thread_ok uses M (Checking key limits cost pc)" and l: "\<not> reads_store (Checking key limits cost pc)"
    and st: "thread_step S mode now newid (Checking key limits cost pc) p s = (th', p', s')"
  shows "s' = s \<and> thread_ok uses M th' \<and>
    (\<exists>gain. pool_eff uses now M p p' gain \<and> accounted (\<lambda>_ _. 0) (Checking key limits cost pc) th' gain)"
proof -
  have ok: "pool_ok p" and M: "M < 2 ^ 62" using pool_within_ok [OF w] B by simp_all
  have stay: "pool_eff uses now M p (p\<lparr>pDeny := dc\<rparr>) (\<lambda>_ _. 0)" "pool_eff uses now M p p (\<lambda>_ _. 0)"
    "pool_eff uses now M p (NoteBorrow p) (\<lambda>_ _. 0)" for dc
    using ok B(2) by (simp_all add: pool_eff_def)
  note debit = check_debit [OF ok B(2) M th _ st]
  show ?thesis
  proof (cases pc)
    case (AtCredit rid br)
    have g: "\<And>ax. 0 \<le> axis_got ax br \<and> axis_got ax br \<le> M"
      using th by (intro loan_withinD) (simp add: AtCredit)
    have "bal ax p now (cacheKey key) + M < 2 ^ 62" for ax
      using pool_within_bal [OF w B(1), of ax now "cacheKey key"] B(3) by linarith
    note e = CreditLease_eff [where uses = uses and limits = limits, OF ok g B(2) this]
    have "p' = CreditLease p now key limits (GotRPM br) (GotTPM br) (GotITPM br) (GotOTPM br)" using st AtCredit by simp
    then show ?thesis by (intro step_gain [OF e [folded \<open>p' = _\<close>]]) (use st th AtCredit in auto)
  next
    case AtErr
    obtain has p1 where h: "Has p now key (clampCosts cost) limits = (has, p1)" by fastforce
    show ?thesis
      by (rule check_still) (use st th stay(2) Has_eff [OF ok B(2) h] AtErr h in \<open>auto split: if_splits\<close>)
  next
    case (AtBorrow rid)
    then show ?thesis using l by simp
  qed ((rule debit, simp; fail) |
       (rule check_still; use st th stay in \<open>auto split: option.splits prod.splits sum.splits\<close>))+
qed

lemma refund_local:
  assumes w: "pool_within uses B M p" and B: "0 \<le> B" "0 \<le> M" "B + M < 2 ^ 62"
    and l: "\<not> reads_store (Refunding rid pc)"
    and st: "thread_step S mode now newid (Refunding rid pc) p s = (th', p', s')"
  shows "s' = s \<and> thread_ok uses M th' \<and>
    (\<exists>gain. pool_eff uses now M p p' gain \<and>
      accounted (\<lambda>ax k. step_back ax k now (Refunding rid pc) p) (Refunding rid pc) th' gain)"
proof (cases pc)
  case AtLookup
  have "pool_eff uses now M p (purgeResLocked p now) (\<lambda>_ _. 0)"
    using purge_eff [OF pool_within_ok [OF w]] B by simp
  then show ?thesis using st AtLookup
    by (auto simp: GetReservation_def Let_def accounted_def simp del: purge_pool split: option.splits)
next
  case AtLocal
  obtain e p1 where r: "RefundLocal p now rid = (e, p1)" by fastforce
  from RefundLocal_eff [OF w B r] show ?thesis using st r AtLocal by (auto simp: accounted_def)
next
  case AtStore
  then show ?thesis using l by simp
next
  case (Returned r)
  then show ?thesis using st pool_within_ok [OF w] B by (auto simp: accounted_def pool_eff_def)
qed

lemma lookup_still:
  assumes "pool_ok p" "0 \<le> M" "GetReservation p now rid = (ro, p')"
  shows "pool_eff uses now M p p' (\<lambda>_ _. 0)" "ro = Some r \<Longrightarrow> pRes p rid = Some r"
  using purge_eff [OF assms(1,2), of uses now] assms(3)
  by (auto simp: GetReservation_def Let_def simp del: purge_pool) (auto simp: map_drop_def split: option.splits if_splits)

lemma settle_local:
  assumes w: "pool_within uses B M p" and B: "0 \<le> B" "0 \<le> M" "B + M < 2 ^ 62"
    and th: "thread_ok uses M (Settling rid u pc)" and l: "\<not> reads_store (Settling rid u pc)"
    and st: "thread_step S mode now newid (Settling rid u pc) p s = (th', p', s')"
  shows "s' = s \<and> thread_ok uses M th' \<and>
    (\<exists>gain. pool_eff uses now M p p' gain \<and>
      accounted (\<lambda>ax k. step_back ax k now (Settling rid u pc) p) (Settling rid u pc) th' gain)"
proof -
  have ok: "pool_ok p" and u: "usage_within M u" using pool_within_ok [OF w] B th by simp_all
  have stay: "pool_eff uses now M p p (\<lambda>_ _. 0)" "pool_eff uses now M p (NoteBorrow p) (\<lambda>_ _. 0)"
    using ok B(2) by (simp_all add: pool_eff_def)
  obtain ro q where g: "GetReservation p now rid = (ro, q)" by fastforce
  note lk = lookup_still [OF ok B(2) g]
  show ?thesis
  proof (cases pc)
    case SLookup
    have "p' = q" using st g SLookup by (auto split: option.splits if_splits)
    then show ?thesis
      by (intro step_gain [OF lk(1) [folded \<open>p' = q\<close>]])
        (use st g u res_withinD(1) [OF pool_withinD(3) [OF w lk(2)]] SLookup in \<open>auto split: option.splits if_splits\<close>)
  next
    case (SLocal r)
    obtain res q where r: "pool_settle u p now rid = (res, q)" by fastforce
    note e = pool_settle_eff [OF w B u r]
    have "p' = q" using st r by (auto simp: SLocal split: sum.splits if_splits)
    then show ?thesis
      by (intro step_gain [OF e(1) [folded \<open>p' = q\<close>]]) (use st th r e(2) in \<open>auto simp: SLocal split: sum.splits if_splits\<close>)
  next
    case (SCredit r dec b)
    have "bal ax p now (cacheKey (lrKey r)) + M < 2 ^ 62" for ax
      using pool_within_bal [OF w B(1), of ax now "cacheKey (lrKey r)"] B(3) by linarith
    note e = pool_credit_eff [where uses = uses and u = u, OF ok loan_withinD B(2) this, of b]
    have "p' = pool_credit u p now r b" "loan_within M b" using st th by (auto simp: SCredit)
    then show ?thesis by (intro step_gain [OF e [folded \<open>p' = _\<close>]]) (use st th in \<open>auto simp: SCredit\<close>)
  next
    case (SDeficit dec b)
    have "p' = pool_deficit u p now rid b" and b: "loan_within M b" using st th by (auto simp: SDeficit)
    then show ?thesis
      by (intro step_gain [OF pool_deficit_eff [OF w B loan_withinD [OF b], of now u rid, folded \<open>p' = _\<close>]])
        (use st th in \<open>auto simp: SDeficit\<close>)
  next
    case (SReread dec)
    then have "p' = q" using st g by (auto split: option.splits)
    then show ?thesis
      by (intro step_gain [OF lk(1) [folded \<open>p' = q\<close>]]) (use SReread st g u in \<open>auto split: option.splits\<close>)
  next
    case (SNote r dec)
    then have "p' = NoteBorrow p" using st by simp
    then show ?thesis by (intro step_gain [OF stay(2) [folded \<open>p' = _\<close>]]) (use SNote st th in auto)
  next
    case (Finished r)
    then have "pool_eff uses now M p p' (\<lambda>_ _. 0)" using st stay(1) by simp
    then show ?thesis by (intro step_gain) (use Finished st th in auto)
  qed (use l in auto)
qed

lemma local_accounted:
  assumes w: "pool_within uses B M p" and B: "0 \<le> B" "0 \<le> M" "B + M < 2 ^ 62"
    and th: "thread_ok uses M th" "\<not> reads_store th"
    and st: "thread_step S mode now newid th p s = (th', p', s')"
  shows "s' = s" "thread_ok uses M th'" "pool_within uses (B + M) M p'"
    "bal ax p' now k + held ax k th' + spent ax k th' =
       bal ax p now k + held ax k th + spent ax k th + step_back ax k now th p"
proof -
  have "s' = s \<and> thread_ok uses M th' \<and>
    (\<exists>gain. pool_eff uses now M p p' gain \<and> accounted (\<lambda>ax k. step_back ax k now th p) th th' gain)"
  proof (cases th)
    case (Checking key limits cost pc)
    then show ?thesis using check_local [OF w B th(1) [unfolded Checking] th(2) [unfolded Checking] st [unfolded Checking]] by simp
  next
    case (Settling rid u pc)
    then show ?thesis using settle_local [OF w B th(1) [unfolded Settling] th(2) [unfolded Settling] st [unfolded Settling]] by simp
  next
    case (Refunding rid pc)
    then show ?thesis using refund_local [OF w B th(2) [unfolded Refunding] st [unfolded Refunding]] by blast
  qed
  then obtain gain where *: "s' = s" "thread_ok uses M th'" "pool_eff uses now M p p' gain"
    "accounted (\<lambda>ax k. step_back ax k now th p) th th' gain" by blast
  show "s' = s" "thread_ok uses M th'" using * by blast+
  show "pool_within uses (B + M) M p'" by (rule pool_eff_within [OF w B(1,2) *(3)])
  show "bal ax p' now k + held ax k th' + spent ax k th' =
       bal ax p now k + held ax k th + spent ax k th + step_back ax k now th p"
    using *(3) *(4) [unfolded accounted_def, THEN spec, THEN spec, of ax k] by (simp add: pool_eff_def)
qed

section \<open>Stores with bounded loans\<close>

text \<open>A step on the store leaves the pool alone. A store of the contract that never lends more than was
  asked for keeps the credits in range.\<close>

locale bounded_loans = store_contract S sinv usable lim_ok
  for S :: "'s StoreOps" and sinv :: "time \<Rightarrow> 's \<Rightarrow> bool" and usable :: "time \<Rightarrow> bool" and lim_ok :: "Limits \<Rightarrow> bool" +
  assumes loan_size: "sinv t0 s \<Longrightarrow> t0 \<le> t \<Longrightarrow> usable t \<Longrightarrow> lim_ok limits \<Longrightarrow>
      opBorrow S s t key limits spec = (Inr b, s') \<Longrightarrow> BrAllowed b \<Longrightarrow> active ax (Split limits) \<Longrightarrow>
      axis_min ax spec \<le> M \<Longrightarrow> axis_chunk ax spec \<le> M \<Longrightarrow> 0 \<le> M \<Longrightarrow> M \<le> 2 ^ 53 \<Longrightarrow> axis_got ax b \<le> M"
begin

lemma loan_range:
  assumes "sinv t0 s" "t0 \<le> t" "usable t" "lim_ok limits"
    and "opBorrow S s t key limits spec = (Inr b, s')" "BrAllowed b"
    and "axis_min ax spec \<le> M" "axis_chunk ax spec \<le> M" "0 \<le> M" "M \<le> 2 ^ 53"
  shows "0 \<le> axis_got ax b \<and> axis_got ax b \<le> M"
  using borrow_covers [OF assms(1-6), of ax] loan_size [OF assms(1-6) _ assms(7-10)] assms(9)
  by (cases "active ax (Split limits)") auto

lemma borrow_accounted:
  assumes s: "sinv t0 s" "t0 \<le> now" "usable now" "lim_ok limits" and M: "0 \<le> M" "M \<le> 2 ^ 53"
    and spec: "\<And>ax. axis_min ax spec \<le> M" "\<And>ax. axis_chunk ax spec \<le> M"
    and b: "opBorrow S s now key limits spec = (br, s')"
  shows "sinv now s'" "br = Inr x \<Longrightarrow> BrAllowed x \<Longrightarrow> loan_within M x"
proof -
  show "sinv now s'" using borrow_keeps [OF s, of key spec] b by simp
  show "loan_within M x" if "br = Inr x" "BrAllowed x"
    using loan_range [OF s b [unfolded that(1)] that(2) spec M] by (simp add: loan_within_def)
qed

lemma store_accounted:
  assumes w: "pool_within uses B M p" and u: "\<forall>key limits. uses key limits \<longrightarrow> lim_ok limits" and M: "0 \<le> M" "M \<le> 2 ^ 53"
    and s: "sinv t0 s" "t0 \<le> now" "usable now"
    and th: "thread_ok uses M th" "reads_store th"
    and st: "thread_step S mode now newid th p s = (th', p', s')"
  shows "p' = p" "sinv now s'" "thread_ok uses M th'"
    "held ax k th' + spent ax k th' \<le> held ax k th + spent ax k th + step_lent S ax k now th p s"
proof -
  have "p' = p \<and> sinv now s' \<and> thread_ok uses M th' \<and>
      held ax k th' + spent ax k th' \<le> held ax k th + spent ax k th + step_lent S ax k now th p s"
    using th(2)
  proof (cases th rule: reads_store.cases)
    case (1 key limits cost rid)
    let ?spec = "checkSpec (pCfg p) (clampCosts cost)"
    have lim: "lim_ok limits" "\<And>ax. axis_cost ax cost \<le> M" using th(1) u unfolding 1 thread_ok.simps all_axes by auto
    obtain br s1 where b: "opBorrow S s now key limits ?spec = (br, s1)" by fastforce
    have "axis_min ax ?spec \<le> M" "axis_chunk ax ?spec \<le> M" for ax
      using lim(2) [of ax] pool_withinD(4) [OF w, of ax] M(1) by simp_all
    note a = borrow_accounted [OF s lim(1) M this b]
    show ?thesis using st th(1) b a by (cases br) (auto simp: 1 step_lent_def split: if_splits)
  next
    case (2 rid u' r dec)
    obtain br s1 where b: "opBorrow S s now (lrKey r) (lrLimits r) (deficit_spec u' dec) = (br, s1)" by fastforce
    have t: "lim_ok (lrLimits r)" "usage_within M u'" "over_within M (splits u') dec" using th(1) u by (auto simp: 2)
    have "axis_min ax (deficit_spec u' dec) \<le> M" "axis_chunk ax (deficit_spec u' dec) \<le> M" for ax
      using t(3) M(1) by (cases u'; cases ax; simp add: over_within_def zero_BorrowSpec_def)+
    note a = borrow_accounted [OF s t(1) M this b]
    show ?thesis using st t(2) b a loan_withinD [of M _ ax] by (cases br) (auto simp: 2 step_lent_def split: if_splits)
  next
    case (3 rid u')
    obtain e s1 where r: "store_settle u' S s now rid = (e, s1)" by fastforce
    have "sinv now s1"
    proof (cases u')
      case (Whole a)
      then show ?thesis using th(1) M(2) r settle_keeps [OF s, of a rid] by (simp add: 3)
    next
      case (InOut i out)
      then show ?thesis using th(1) M(2) r settle_io_keeps [OF s, of i out rid] by (simp add: 3)
    qed
    then show ?thesis using st r th(1) by (cases u') (auto simp: 3 step_lent_def)
  next
    case (4 rid)
    obtain e s1 where r: "opRefund S s now rid = (e, s1)" by fastforce
    have "sinv now s1" using refund_keeps [OF s, of rid] by (simp add: r)
    then show ?thesis using st r by (auto simp: 4 step_lent_def)
  qed simp_all
  then show "p' = p" "sinv now s'" "thread_ok uses M th'"
    "held ax k th' + spent ax k th' \<le> held ax k th + spent ax k th + step_lent S ax k now th p s" by blast+
qed

end

end
