(* ===== verification/Cluster_Accounting.thy ===== *)
theory Cluster_Accounting
  imports Concurrent_Accounting "HOL-Library.Sublist"
begin

text \<open>
  The accounting of a run. Balances, held loans and admitted costs of all processes together grow by exactly
  what the store lends and what settlements and refunds give back, whatever the order of the steps. The operations the
  threads perform on the store are a run of that store (the interface \<open>lending_log\<close>), so that the rate limit of the
  store bounds what the processes admit.
\<close>

section \<open>Schedules\<close>

text \<open>Clocks that do not go backwards: each node has its own, and the store has one.\<close>

fun clocks :: "turn list \<Rightarrow> (nat \<Rightarrow> time) \<Rightarrow> time \<Rightarrow> bool" where
  "clocks [] lc t = True"
| "clocks (k # sched) lc t \<longleftrightarrow>
     lc (tNode k) \<le> tLocal k \<and> t \<le> tStore k \<and> clocks sched (lc(tNode k := tLocal k)) (tStore k)"

text \<open>A quantity added up over the steps of a schedule.\<close>

fun tally :: "(time \<Rightarrow> thread \<Rightarrow> Pool \<Rightarrow> 's \<Rightarrow> int) \<Rightarrow> 's StoreOps \<Rightarrow> turn list \<Rightarrow> node list \<Rightarrow> 's \<Rightarrow> int" where
  "tally f S [] nodes s = 0"
| "tally f S (k # sched) nodes s =
     (if has_turn k nodes then
        f (turn_time k (turn_thread k nodes)) (turn_thread k nodes) (nodePool (nodes ! tNode k)) s +
        (case node_step S k nodes s of (nodes', s') \<Rightarrow> tally f S sched nodes' s')
      else tally f S sched nodes s)"

definition in_hand :: "axis \<Rightarrow> string \<Rightarrow> thread list \<Rightarrow> int" where
  "in_hand ax k ths = (\<Sum>th \<leftarrow> ths. held ax k th + spent ax k th)"

text \<open>What the nodes have admitted, hold and can still spend, when their clocks show \<open>lc\<close>.\<close>

definition worth :: "axis \<Rightarrow> string \<Rightarrow> node list \<Rightarrow> (nat \<Rightarrow> time) \<Rightarrow> int" where
  "worth ax k nodes lc =
     (\<Sum>n < length nodes. in_hand ax k (nodeThreads (nodes ! n)) + bal ax (nodePool (nodes ! n)) (lc n) k)"

definition node_ok :: "(Key \<Rightarrow> Limits \<Rightarrow> bool) \<Rightarrow> int \<Rightarrow> int \<Rightarrow> node \<Rightarrow> bool" where
  "node_ok uses B M nd \<longleftrightarrow> pool_within uses B M (nodePool nd) \<and> (\<forall>th \<in> set (nodeThreads nd). thread_ok uses M th)"

lemma in_hand_update:
  "i < length ths \<Longrightarrow> in_hand ax k (ths[i := th]) =
     in_hand ax k ths - (held ax k (ths ! i) + spent ax k (ths ! i)) + (held ax k th + spent ax k th)"
proof (induction ths arbitrary: i)
  case (Cons x xs)
  then show ?case by (cases i) (simp_all add: in_hand_def)
qed simp

lemma worth_update:
  assumes "n < length nodes"
  shows "worth ax k (nodes[n := nd]) (lc(n := t)) = worth ax k nodes lc
    - (in_hand ax k (nodeThreads (nodes ! n)) + bal ax (nodePool (nodes ! n)) (lc n) k)
    + (in_hand ax k (nodeThreads nd) + bal ax (nodePool nd) t k)"
proof -
  have "n \<in> {..<length nodes}" using assms by simp
  then show ?thesis
    using sum.remove [OF _ \<open>n \<in> {..<length nodes}\<close>, of "\<lambda>n. in_hand ax k (nodeThreads (nodes ! n)) + bal ax (nodePool (nodes ! n)) (lc n) k"]
      sum.remove [OF _ \<open>n \<in> {..<length nodes}\<close>, of "\<lambda>m. in_hand ax k (nodeThreads (nodes[n := nd] ! m)) + bal ax (nodePool (nodes[n := nd] ! m)) ((lc(n := t)) m) k"]
    by (simp add: worth_def)
qed

lemma bal_later:
  assumes "pool_within uses B M p" "now \<le> now'"
  shows "bal ax p now' k \<le> bal ax p now k"
proof (cases "live p now' k")
  case None
  then show ?thesis using pool_within_nonneg [OF assms(1), of ax now k] by (simp add: bal_def)
next
  case (Some b)
  then show ?thesis using live_antimono [OF assms(2) Some] by (simp add: bal_def)
qed

lemma pool_within_mono: "pool_within uses B M p \<Longrightarrow> B \<le> B' \<Longrightarrow> pool_within uses B' M p"
  unfolding pool_within_def all_axes by (meson order_trans)

lemma worth_later:
  assumes "\<forall>nd \<in> set nodes. node_ok uses B M nd" "lc n \<le> t"
  shows "worth ax k nodes (lc(n := t)) \<le> worth ax k nodes lc"
  unfolding worth_def
proof (rule sum_mono)
  fix m assume "m \<in> {..<length nodes}"
  then have "pool_within uses B M (nodePool (nodes ! m))" using assms(1) by (simp add: node_ok_def)
  then show "in_hand ax k (nodeThreads (nodes ! m)) + bal ax (nodePool (nodes ! m)) ((lc(n := t)) m) k
      \<le> in_hand ax k (nodeThreads (nodes ! m)) + bal ax (nodePool (nodes ! m)) (lc m) k"
    using bal_later [of uses B M "nodePool (nodes ! m)"] assms(2) by simp
qed

text \<open>The cost of the admitted checks of all nodes, and what their leases hold at the start.\<close>

definition admitted :: "axis \<Rightarrow> string \<Rightarrow> node list \<Rightarrow> int" where
  "admitted ax k nodes = (\<Sum>n < length nodes. \<Sum>th \<leftarrow> nodeThreads (nodes ! n). spent ax k th)"

definition leased :: "axis \<Rightarrow> string \<Rightarrow> node list \<Rightarrow> (nat \<Rightarrow> time) \<Rightarrow> int" where
  "leased ax k nodes lc = (\<Sum>n < length nodes. bal ax (nodePool (nodes ! n)) (lc n) k)"

text \<open>Threads that have not started.\<close>

fun fresh :: "thread \<Rightarrow> bool" where
  "fresh (Checking key limits cost pc) = (pc = AtValidate)"
| "fresh (Settling rid u pc) = (pc = SLookup)"
| "fresh (Refunding rid pc) = (pc = AtLookup)"

lemma worth_fresh:
  assumes "\<forall>nd \<in> set nodes. \<forall>th \<in> set (nodeThreads nd). fresh th"
  shows "worth ax k nodes lc = leased ax k nodes lc"
proof -
  have "held ax k th + spent ax k th = 0" if "fresh th" for th using that by (cases th) auto
  then have "\<forall>th \<in> set ths. fresh th \<Longrightarrow> in_hand ax k ths = 0" for ths
    unfolding in_hand_def by (induction ths) auto
  then show ?thesis using bspec [OF assms nth_mem] unfolding worth_def leased_def by (intro sum.cong) simp_all
qed

lemma admitted_worth:
  assumes "\<forall>nd \<in> set nodes. node_ok uses B M nd"
  shows "admitted ax k nodes \<le> worth ax k nodes lc"
  unfolding admitted_def worth_def
proof (rule sum_mono)
  fix n assume "n \<in> {..<length nodes}"
  then have nd: "pool_within uses B M (nodePool (nodes ! n))" "\<forall>th \<in> set (nodeThreads (nodes ! n)). thread_ok uses M th"
    using bspec [OF assms nth_mem] by (simp_all add: node_ok_def)
  have "0 \<le> held ax k th" if "thread_ok uses M th" for th
    using that loan_withinD by (cases "(ax, k, th)" rule: held.cases) auto
  then have "(\<Sum>th \<leftarrow> ths. spent ax k th) \<le> in_hand ax k ths" if "\<forall>th \<in> set ths. thread_ok uses M th" for ths
    using that unfolding in_hand_def by (induction ths) fastforce+
  then show "(\<Sum>th \<leftarrow> nodeThreads (nodes ! n). spent ax k th) \<le>
      in_hand ax k (nodeThreads (nodes ! n)) + bal ax (nodePool (nodes ! n)) (lc n) k"
    using nd(2) pool_within_nonneg [OF nd(1), of ax "lc n" k] by fastforce
qed

context bounded_loans
begin

text \<open>One turn.\<close>

lemma turn_accounted:
  assumes nodes: "\<forall>nd \<in> set nodes. node_ok uses B M nd" and lim: "\<forall>key limits. uses key limits \<longrightarrow> lim_ok limits" and B: "0 \<le> B" "0 \<le> M" "M \<le> 2 ^ 53" "B + M < 2 ^ 62"
    and s: "sinv t0 s" "t0 \<le> tStore tk" "usable (tStore tk)" and lc: "lc (tNode tk) \<le> tLocal tk"
    and turn: "has_turn tk nodes" "node_step S tk nodes s = (nodes', s')"
  defines "th \<equiv> turn_thread tk nodes" and "p \<equiv> nodePool (nodes ! tNode tk)"
  shows "\<exists>t1 \<le> tStore tk. sinv t1 s'" "\<forall>nd \<in> set nodes'. node_ok uses (B + M) M nd"
    "worth ax k nodes' (lc(tNode tk := tLocal tk)) \<le> worth ax k nodes lc
      + step_lent S ax k (turn_time tk th) th p s + step_back ax k (turn_time tk th) th p"
proof -
  let ?n = "tNode tk" and ?nd = "nodes ! tNode tk"
  have n: "?n < length nodes" "tThread tk < length (nodeThreads ?nd)" using turn(1) by (simp_all add: has_turn_def)
  have nd: "pool_within uses B M p" "thread_ok uses M th"
    using bspec [OF nodes nth_mem [OF n(1)]] nth_mem [OF n(2)] by (simp_all add: node_ok_def p_def th_def turn_thread_def)
  obtain th' p' where st: "thread_step S (nodeMode ?nd) (turn_time tk th) (tID tk) th p s = (th', p', s')"
    and nodes': "nodes' = nodes[?n := ?nd\<lparr>nodeThreads := (nodeThreads ?nd)[tThread tk := th'], nodePool := p'\<rparr>]"
    using turn(2) by (auto simp: node_step_def Let_def th_def p_def split: prod.splits)
  have later: "bal ax p (tLocal tk) k \<le> bal ax p (lc ?n) k" by (rule bal_later [OF nd(1) lc])
  have step: "(\<exists>t1 \<le> tStore tk. sinv t1 s') \<and> thread_ok uses M th' \<and> pool_within uses (B + M) M p' \<and>
    bal ax p' (tLocal tk) k + (held ax k th' + spent ax k th') \<le> bal ax p (lc ?n) k + (held ax k th + spent ax k th)
      + step_lent S ax k (turn_time tk th) th p s + step_back ax k (turn_time tk th) th p"
  proof (cases "reads_store th")
    case True
    then have tt: "turn_time tk th = tStore tk" "step_back ax k t th p = 0" for t
      by (cases th rule: reads_store.cases, simp_all add: turn_time_def)+
    note a = store_accounted [OF nd(1) lim B(2,3) s nd(2) True st [unfolded tt(1)]]
    show ?thesis using a(1-3) a(4) [of ax k] later pool_within_mono [OF nd(1), of "B + M"] B(2) by (auto simp: tt)
  next
    case False
    then have tt: "turn_time tk th = tLocal tk" by (simp add: turn_time_def)
    have sl: "step_lent S ax k t th p s = 0" for t using False step_op_reads [of p th] by (simp add: step_lent_def)
    note a = local_accounted [OF nd(1) B(1,2,4) nd(2) False st [unfolded tt]]
    show ?thesis using a(1-3) a(4) [of ax k] later s by (auto simp: tt sl)
  qed
  then show "\<exists>t1 \<le> tStore tk. sinv t1 s'" by blast
  have "node_ok uses (B + M) M nd" if "nd \<in> set nodes" for nd
    using nodes that pool_within_mono [of uses B M "nodePool nd" "B + M"] B(2) by (auto simp: node_ok_def)
  moreover have "\<forall>x \<in> set ((nodeThreads ?nd)[tThread tk := th']). thread_ok uses M x"
    using nodes n step by (auto simp: node_ok_def dest!: set_update_subset_insert [THEN subsetD])
  ultimately show "\<forall>nd \<in> set nodes'. node_ok uses (B + M) M nd"
    using step unfolding nodes' by (auto simp: node_ok_def dest!: set_update_subset_insert [THEN subsetD])
  show "worth ax k nodes' (lc(?n := tLocal tk)) \<le> worth ax k nodes lc
      + step_lent S ax k (turn_time tk th) th p s + step_back ax k (turn_time tk th) th p"
    using step worth_update [OF n(1)] in_hand_update [OF n(2), of ax k th'] unfolding nodes'
    by (simp add: p_def th_def turn_thread_def)
qed

lemma cluster_accounted:
  assumes lim: "\<forall>key limits. uses key limits \<longrightarrow> lim_ok limits"
    and "\<forall>nd \<in> set nodes. node_ok uses B M nd" "0 \<le> B" "0 \<le> M" "M \<le> 2 ^ 53" "B + int (length sched) * M < 2 ^ 62"
    and "sinv t0 s" "t0 \<le> t" "clocks sched lc t" "\<forall>tk \<in> set sched. usable (tStore tk)"
    and "cluster S sched nodes s = (nodes', s')"
  shows "(\<exists>lc'. worth ax k nodes' lc' \<le> worth ax k nodes lc + tally (step_lent S ax k) S sched nodes s
      + tally (\<lambda>now th p s. step_back ax k now th p) S sched nodes s) \<and>
    (\<forall>nd \<in> set nodes'. node_ok uses (B + int (length sched) * M) M nd)"
  using assms(2-)
proof (induction sched arbitrary: B t0 t lc nodes s)
  case Nil
  then show ?case by auto
next
  case (Cons tk sched)
  have M: "B + M + int (length sched) * M < 2 ^ 62" "0 \<le> int (length sched) * M" "0 \<le> B + M"
    using Cons.prems(2,3,5) by (simp_all add: algebra_simps)
  have t: "lc (tNode tk) \<le> tLocal tk" "clocks sched (lc(tNode tk := tLocal tk)) (tStore tk)" "t0 \<le> tStore tk" "usable (tStore tk)"
    "\<forall>tk \<in> set sched. usable (tStore tk)"
    using Cons.prems(7-9) by auto
  have len: "B + int (length (tk # sched)) * M = B + M + int (length sched) * M" by (simp add: algebra_simps)
  show ?case
  proof (cases "has_turn tk nodes")
    case True
    obtain nodes1 s1 where st: "node_step S tk nodes s = (nodes1, s1)" by fastforce
    have B1: "B + M < 2 ^ 62" using M by linarith
    note a = turn_accounted [where lc = lc, OF Cons.prems(1) lim Cons.prems(2-4) B1 Cons.prems(6) t(3,4,1) True st]
    obtain t1 where t1: "t1 \<le> tStore tk" "sinv t1 s1" using a(1) by blast
    have run: "cluster S sched nodes1 s1 = (nodes', s')" using Cons.prems(10) True st by simp
    obtain lc' where "worth ax k nodes' lc' \<le> worth ax k nodes1 (lc(tNode tk := tLocal tk)) + tally (step_lent S ax k) S sched nodes1 s1
        + tally (\<lambda>now th p s. step_back ax k now th p) S sched nodes1 s1"
      and ok: "\<forall>nd \<in> set nodes'. node_ok uses (B + M + int (length sched) * M) M nd"
      using Cons.IH [OF a(2) M(3) Cons.prems(3,4) M(1) t1(2,1) t(2,5) run] by blast
    then have "worth ax k nodes' lc' \<le> worth ax k nodes lc + tally (step_lent S ax k) S (tk # sched) nodes s
        + tally (\<lambda>now th p s. step_back ax k now th p) S (tk # sched) nodes s"
      using a(3) [of ax k] True st by simp
    then show ?thesis using ok unfolding len by blast
  next
    case False
    have ok: "\<forall>nd \<in> set nodes. node_ok uses (B + M) M nd"
      using Cons.prems(1,3) pool_within_mono [of uses B M _ "B + M"] by (auto simp: node_ok_def)
    have run: "cluster S sched nodes s = (nodes', s')" using Cons.prems(10) False by simp
    obtain lc' where "worth ax k nodes' lc' \<le> worth ax k nodes (lc(tNode tk := tLocal tk)) + tally (step_lent S ax k) S sched nodes s
        + tally (\<lambda>now th p s. step_back ax k now th p) S sched nodes s"
      and ok': "\<forall>nd \<in> set nodes'. node_ok uses (B + M + int (length sched) * M) M nd"
      using Cons.IH [OF ok M(3) Cons.prems(3,4) M(1) Cons.prems(6) t(3,2,5) run] by blast
    then have "worth ax k nodes' lc' \<le> worth ax k nodes lc + tally (step_lent S ax k) S (tk # sched) nodes s
        + tally (\<lambda>now th p s. step_back ax k now th p) S (tk # sched) nodes s"
      using worth_later [where lc = lc and n = "tNode tk" and ax = ax and k = k, OF Cons.prems(1) t(1)] False by simp
    then show ?thesis using ok' unfolding len by blast
  qed
qed

text \<open>What the nodes admit is covered by their leases, by loans and by refunds.\<close>

lemma cluster_admitted:
  assumes lim: "\<forall>key limits. uses key limits \<longrightarrow> lim_ok limits"
    and nodes: "\<forall>nd \<in> set nodes. node_ok uses B M nd \<and> (\<forall>th \<in> set (nodeThreads nd). fresh th)"
    and B: "0 \<le> B" "0 \<le> M" "M \<le> 2 ^ 53" "B + int (length sched) * M < 2 ^ 62"
    and s: "sinv t s" "clocks sched lc t" "\<forall>tk \<in> set sched. usable (tStore tk)"
    and run: "cluster S sched nodes s = (nodes', s')"
  shows "admitted ax k nodes' \<le> leased ax k nodes lc + (tally (step_lent S ax k) S sched nodes s
      + tally (\<lambda>now th p s. step_back ax k now th p) S sched nodes s)"
proof -
  have ok: "\<forall>nd \<in> set nodes. node_ok uses B M nd" "\<forall>nd \<in> set nodes. \<forall>th \<in> set (nodeThreads nd). fresh th"
    using nodes by blast+
  obtain lc' where w: "worth ax k nodes' lc' \<le> worth ax k nodes lc + tally (step_lent S ax k) S sched nodes s
      + tally (\<lambda>now th p s. step_back ax k now th p) S sched nodes s"
    and ok': "\<forall>nd \<in> set nodes'. node_ok uses (B + int (length sched) * M) M nd"
    using cluster_accounted [OF lim ok(1) B s(1) order_refl s(2,3) run, of ax k] by blast
  have "admitted ax k nodes' \<le> worth ax k nodes' lc'" by (rule admitted_worth [OF ok'])
  then show ?thesis using w worth_fresh [OF ok(2), of ax k lc] by linarith
qed

end

section \<open>The operations on the store\<close>

text \<open>The operations the threads perform on the store, in the order of the schedule.\<close>

fun store_log :: "'s StoreOps \<Rightarrow> turn list \<Rightarrow> node list \<Rightarrow> 's \<Rightarrow> (time \<times> store_op) list" where
  "store_log S [] nodes s = []"
| "store_log S (tk # sched) nodes s =
     (if has_turn tk nodes then
        (case step_op (nodePool (nodes ! tNode tk)) (turn_thread tk nodes) of None \<Rightarrow> [] | Some opn \<Rightarrow> [(tStore tk, opn)]) @
        (case node_step S tk nodes s of (nodes', s') \<Rightarrow> store_log S sched nodes' s')
      else store_log S sched nodes s)"

text \<open>A quantity added up over operations of a store.\<close>

fun op_total :: "('s \<Rightarrow> time \<Rightarrow> store_op \<Rightarrow> int) \<Rightarrow> 's StoreOps \<Rightarrow> (time \<times> store_op) list \<Rightarrow> 's \<Rightarrow> int" where
  "op_total draw S [] s = 0"
| "op_total draw S ((now, opn) # ops) s = draw s now opn + op_total draw S ops (apply_op S opn now s)"

text \<open>What settlements and refunds give back, to the pool or to the store, where \<open>draw\<close> is what an operation draws on
  the store. A settlement that overshoots gives back less than nothing; one that borrows for its overshoot
  gives the loan back once more than it should.\<close>

fun store_back :: "('s \<Rightarrow> time \<Rightarrow> store_op \<Rightarrow> int) \<Rightarrow> 's \<Rightarrow> time \<Rightarrow> store_op \<Rightarrow> int" where
  "store_back draw s now (DoBorrow key limits spec) = 0"
| "store_back draw s now opn = - draw s now opn"

definition gave_back :: "('s \<Rightarrow> time \<Rightarrow> store_op \<Rightarrow> int) \<Rightarrow> axis \<Rightarrow> string \<Rightarrow> time \<Rightarrow> thread \<Rightarrow> Pool \<Rightarrow> 's \<Rightarrow> int" where
  "gave_back draw ax k now th p s =
     step_back ax k now th p + (case step_op p th of None \<Rightarrow> 0 | Some opn \<Rightarrow> store_back draw s now opn)"

text \<open>The operations that threads within their bounds ask for.\<close>

fun asked :: "(Key \<Rightarrow> Limits \<Rightarrow> bool) \<Rightarrow> store_op \<Rightarrow> bool" where
  "asked uses (DoBorrow key limits spec) \<longleftrightarrow> uses key limits"
| "asked uses (DoSettle rid a) \<longleftrightarrow> a \<le> 2 ^ 53"
| "asked uses (DoSettleIO rid a b) \<longleftrightarrow> a \<le> 2 ^ 53 \<and> b \<le> 2 ^ 53"
| "asked uses (DoRefund rid) \<longleftrightarrow> True"
| "asked uses opn \<longleftrightarrow> False"

lemma step_asks:
  assumes "thread_ok uses M th" "M \<le> 2 ^ 53" "step_op p th = Some opn"
  shows "asked uses opn"
  using assms by (cases "(p, th)" rule: step_op.cases) auto

text \<open>Without settlements and refunds nothing is given back.\<close>

fun is_check :: "thread \<Rightarrow> bool" where
  "is_check (Checking key limits cost pc) = True"
| "is_check th = False"

lemma tally_checks:
  assumes "\<forall>nd \<in> set nodes. \<forall>th \<in> set (nodeThreads nd). is_check th"
  shows "tally (gave_back draw ax k) S sched nodes s = 0"
  using assms
proof (induction sched arbitrary: nodes s)
  case (Cons tk sched)
  show ?case
  proof (cases "has_turn tk nodes")
    case True
    let ?nd = "nodes ! tNode tk" and ?th = "turn_thread tk nodes"
    obtain nodes1 s1 where st: "node_step S tk nodes s = (nodes1, s1)" by fastforce
    have nd: "?nd \<in> set nodes" "?th \<in> set (nodeThreads ?nd)" using True by (simp_all add: has_turn_def turn_thread_def)
    then obtain key limits cost pc where th: "?th = Checking key limits cost pc" using Cons.prems by (cases ?th) fastforce+
    obtain pc' p' where "nodes1 = nodes[tNode tk := ?nd\<lparr>nodeThreads := (nodeThreads ?nd)[tThread tk := Checking key limits cost pc'], nodePool := p'\<rparr>]"
      using st by (auto simp: node_step_def Let_def th split: prod.splits)
    then have "\<forall>nd \<in> set nodes1. \<forall>th \<in> set (nodeThreads nd). is_check th"
      using Cons.prems nd(1) by (auto dest!: set_update_subset_insert [THEN subsetD])
    moreover have "gave_back draw ax k t ?th p s = 0" for t p by (cases pc) (simp_all add: gave_back_def th)
    ultimately show ?thesis using Cons.IH [of nodes1 s1] True st by simp
  qed (use Cons in simp)
qed simp

lemma log_times: "subseq (map fst (store_log S sched nodes s)) (map tStore sched)"
proof (induction sched arbitrary: nodes s)
  case (Cons tk sched)
  show ?case using Cons.IH by (auto split: prod.splits option.splits)
qed simp

lemma clocks_sorted: "clocks sched lc t \<Longrightarrow> sorted (t # map tStore sched)"
  by (induction sched arbitrary: lc t) (auto intro: order_trans)

text \<open>The instants of the log end where those of the schedule do, or earlier.\<close>

lemma sorted_le_last: "sorted xs \<Longrightarrow> x \<in> set xs \<Longrightarrow> x \<le> last xs"
  by (induction xs) auto

lemma subseq_times:
  fixes t :: int
  assumes "subseq xs ys" "sorted (t # ys)"
  shows "sorted (t # xs)" "last (t # xs) \<le> last (t # ys)" "length xs \<le> length ys" "set (t # xs) \<subseteq> set (t # ys)"
proof -
  have s: "set xs \<subseteq> set ys" using assms(1) by (auto simp: subseq_conv_nths dest: in_set_nthsD)
  then show srt: "sorted (t # xs)" using assms by (auto simp: subseq_conv_nths sorted_nths)
  have "x \<le> last (t # ys)" if "x \<in> set (t # ys)" for x by (rule sorted_le_last [OF assms(2) that])
  then show "last (t # xs) \<le> last (t # ys)" using s by (metis insert_iff last_in_set list.discI list.set(2) subset_iff)
  show "set (t # xs) \<subseteq> set (t # ys)" using s by auto
  show "length xs \<le> length ys" by (rule list_emb_length [OF assms(1)])
qed

text \<open>
  A store whose operations draw on a resource: \<open>draw\<close> is what they draw on the bucket of the key \<open>k\<close>, and a loan
  draws at least what it lends.
\<close>

locale lending_log = bounded_loans S sinv usable lim_ok
  for S :: "'s StoreOps" and sinv :: "time \<Rightarrow> 's \<Rightarrow> bool" and usable :: "time \<Rightarrow> bool" and lim_ok :: "Limits \<Rightarrow> bool" +
  fixes ax :: axis and k :: string and draw :: "'s \<Rightarrow> time \<Rightarrow> store_op \<Rightarrow> int" and uses :: "Key \<Rightarrow> Limits \<Rightarrow> bool"
  assumes uses_lim: "uses key limits \<Longrightarrow> lim_ok limits"
    and borrow_draw: "sinv t0 s \<Longrightarrow> t0 \<le> now \<Longrightarrow> usable now \<Longrightarrow> uses key limits \<Longrightarrow>
      lent_by S ax k s now (DoBorrow key limits spec) \<le> draw s now (DoBorrow key limits spec)"
begin

lemma step_draw:
  assumes "sinv t0 s" "t0 \<le> tStore tk" "usable (tStore tk)" "thread_ok uses M th" "M \<le> 2 ^ 53"
  shows "step_lent S ax k (turn_time tk th) th p s + step_back ax k (turn_time tk th) th p \<le>
      (case step_op p th of None \<Rightarrow> 0 | Some opn \<Rightarrow> draw s (tStore tk) opn) + gave_back draw ax k (turn_time tk th) th p s"
proof (cases "step_op p th")
  case (Some opn)
  then have t: "turn_time tk th = tStore tk" using step_op_reads [of p th] by (simp add: turn_time_def)
  have a: "asked uses opn" by (rule step_asks [OF assms(4,5) Some])
  show ?thesis
    using borrow_draw [OF assms(1-3)] a unfolding t by (cases opn) (simp_all add: step_lent_def gave_back_def Some)
qed (simp add: step_lent_def gave_back_def)

lemma log_accounted:
  assumes "\<forall>nd \<in> set nodes. node_ok uses B M nd" "0 \<le> B" "0 \<le> M" "M \<le> 2 ^ 53" "B + int (length sched) * M < 2 ^ 62"
    and "sinv t0 s" "t0 \<le> t" "clocks sched lc t" "\<forall>tk \<in> set sched. usable (tStore tk)"
  shows "tally (step_lent S ax k) S sched nodes s + tally (\<lambda>now th p s. step_back ax k now th p) S sched nodes s
      \<le> op_total draw S (store_log S sched nodes s) s + tally (gave_back draw ax k) S sched nodes s \<and>
    (\<forall>(now, opn) \<in> set (store_log S sched nodes s). now \<in> tStore ` set sched \<and> asked uses opn)"
  using assms
proof (induction sched arbitrary: B t0 t lc nodes s)
  case (Cons tk sched)
  have M: "B + M + int (length sched) * M < 2 ^ 62" "0 \<le> int (length sched) * M" "0 \<le> B + M"
    using Cons.prems(2,3,5) by (simp_all add: algebra_simps)
  have t: "lc (tNode tk) \<le> tLocal tk" "clocks sched (lc(tNode tk := tLocal tk)) (tStore tk)" "t0 \<le> tStore tk" "usable (tStore tk)"
    "\<forall>tk \<in> set sched. usable (tStore tk)"
    using Cons.prems(7-9) by auto
  show ?case
  proof (cases "has_turn tk nodes")
    case True
    let ?th = "turn_thread tk nodes" and ?p = "nodePool (nodes ! tNode tk)"
    obtain nodes1 s1 where st: "node_step S tk nodes s = (nodes1, s1)" by fastforce
    have lim: "\<forall>key limits. uses key limits \<longrightarrow> lim_ok limits" and B1: "B + M < 2 ^ 62" using uses_lim M by auto
    note a = turn_accounted [where lc = lc, OF Cons.prems(1) lim Cons.prems(2-4) B1 Cons.prems(6) t(3,4,1) True st]
    obtain t1 where t1: "t1 \<le> tStore tk" "sinv t1 s1" using a(1) by blast
    note IH = Cons.IH [OF a(2) M(3) Cons.prems(3,4) M(1) t1(2,1) t(2,5)]
    have th: "thread_ok uses M ?th"
      using bspec [OF Cons.prems(1) nth_mem, of "tNode tk"] True by (simp add: node_ok_def has_turn_def turn_thread_def)
    note d = step_draw [OF Cons.prems(6) t(3,4) th Cons.prems(4), of ?p]
    have s1: "s1 = (case step_op ?p ?th of None \<Rightarrow> s | Some opn \<Rightarrow> apply_op S opn (tStore tk) s)"
      using st step_store [of S _ "turn_time tk ?th" _ ?th ?p s] step_op_reads [of ?p ?th]
      by (auto simp: node_step_def Let_def turn_time_def split: prod.splits option.splits)
    have "op_total draw S ((case step_op ?p ?th of None \<Rightarrow> [] | Some opn \<Rightarrow> [(tStore tk, opn)]) @ ops) s =
        (case step_op ?p ?th of None \<Rightarrow> 0 | Some opn \<Rightarrow> draw s (tStore tk) opn) + op_total draw S ops s1" for ops
      unfolding s1 by (cases "step_op ?p ?th") simp_all
    moreover have "asked uses opn" if "step_op ?p ?th = Some opn" for opn by (rule step_asks [OF th Cons.prems(4) that])
    ultimately show ?thesis using d IH True st by (auto split: option.splits)
  next
    case False
    have ok: "\<forall>nd \<in> set nodes. node_ok uses (B + M) M nd"
      using Cons.prems(1,3) pool_within_mono [of uses B M _ "B + M"] by (auto simp: node_ok_def)
    from Cons.IH [OF this M(3) Cons.prems(3,4) M(1) Cons.prems(6) t(3,2,5)] show ?thesis using False by auto
  qed
qed simp

text \<open>What the nodes admit is covered by their leases, by what is given back and by what the operations draw.\<close>

lemma admitted_draws:
  assumes nodes: "\<forall>nd \<in> set nodes. node_ok uses B M nd \<and> (\<forall>th \<in> set (nodeThreads nd). fresh th)"
    and B: "0 \<le> B" "0 \<le> M" "M \<le> 2 ^ 53" "B + int (length sched) * M < 2 ^ 62"
    and s: "sinv t s" "clocks sched lc t" "\<forall>tk \<in> set sched. usable (tStore tk)"
    and run: "cluster S sched nodes s = (nodes', s')"
  shows "admitted ax k nodes' \<le>
      leased ax k nodes lc + tally (gave_back draw ax k) S sched nodes s + op_total draw S (store_log S sched nodes s) s"
    "\<forall>(now, opn) \<in> set (store_log S sched nodes s). now \<in> tStore ` set sched \<and> asked uses opn"
proof -
  have lim: "\<forall>key limits. uses key limits \<longrightarrow> lim_ok limits" and ok: "\<forall>nd \<in> set nodes. node_ok uses B M nd"
    using uses_lim nodes by blast+
  note l = log_accounted [OF ok B s(1) order_refl s(2,3)]
  show "admitted ax k nodes' \<le>
      leased ax k nodes lc + tally (gave_back draw ax k) S sched nodes s + op_total draw S (store_log S sched nodes s) s"
    using cluster_admitted [OF lim nodes B s run, of ax k] conjunct1 [OF l] by linarith
  show "\<forall>(now, opn) \<in> set (store_log S sched nodes s). now \<in> tStore ` set sched \<and> asked uses opn" using l by blast
qed

end

end
