(* ===== verification/Concurrent_Rate.thy ===== *)
theory Concurrent_Rate
  imports Cluster_Accounting
begin

text \<open>
  Limiters over one in-memory store: the rate limit holds for every interleaving of their calls. A call
  that overlaps another one can lose its loan to it, which the second section shows.
\<close>

section \<open>Limiters over one in-memory store\<close>

interpretation memory_loans: bounded_loans memory_store mem_inv mem_usable limits_ok
proof (unfold_locales, goal_cases)
  case (1 t0 s t limits key spec b s' ax M)
  then have "fst (mem_Borrow s t key limits spec) = Inr b" by (simp add: memory_store_def)
  then show ?case using mem_Borrow_got(1) [of s t key limits spec b ax] 1 by (auto simp: wantGot_def Let_def)
qed

definition same_cap :: "axis \<Rightarrow> string \<Rightarrow> int64 \<Rightarrow> Key \<Rightarrow> Limits \<Rightarrow> bool" where
  "same_cap ax k c key limits \<longleftrightarrow>
     limits_ok limits \<and> (bucketKey key = k \<and> active ax (Split limits) \<longrightarrow> axis_limit ax limits = c)"

lemma bucketKey_cacheKey: "bucketKey key = cacheKey key"
  by (simp add: bucketKey_def cacheKey_def)

interpretation memory_log: lending_log memory_store mem_inv mem_usable limits_ok ax k "draw_on ax k" "same_cap ax k c" for ax k c
proof (unfold_locales, goal_cases)
  case (2 t0 s now key limits spec)
  show ?case using mem_Borrow_got(3) [of s now key limits spec _ ax]
    by (auto simp: draw_on_def bucketKey_cacheKey memory_store_def split: sum.splits)
qed (simp add: same_cap_def)

lemma apply_op_memory: "apply_op memory_store opn now s = exec opn now s"
  by (cases opn) (simp_all add: memory_store_def)

lemma op_total_drawn: "op_total (draw_on ax k) memory_store ops s = drawn ax k ops s"
  by (induction ops arbitrary: s) (auto simp: apply_op_memory)

lemma gain_later:
  assumes "0 < c" "x \<le> y" "m \<le> n"
  shows "meter_gain c x + 2 * of_nat m * meter_slack c \<le> earned c y * (1 + 6 / 2 ^ 53) + of_nat n * (of_int c / 2 ^ 45)"
proof -
  have "earned c x * (1 + 6 / 2 ^ 53) \<le> earned c y * (1 + 6 / 2 ^ 53)"
    using assms(1,2) unfolding earned_def by (intro mult_right_mono divide_right_mono) auto
  moreover have "(of_nat m :: rat) * (of_int c / 2 ^ 45) \<le> of_nat n * (of_int c / 2 ^ 45)"
    using assms(1,3) by (intro mult_right_mono) auto
  ultimately show ?thesis unfolding meter_slacks meter_gain_def by linarith
qed

text \<open>
  C3 (the rate limit under concurrency). Take any number of limiters with the fast path over one in-memory
  store, and any number of calls of \<^verbatim>\<open>Check\<close>, \<^verbatim>\<open>Settle\<close>, \<^verbatim>\<open>SettleIO\<close> and \<^verbatim>\<open>Refund\<close> on each, interleaved in any way at the
  boundaries of their mutex sections, some of them possibly unfinished at the end. On every axis, the cost of all
  checks that were admitted for a key is at most what the leases held at the start and what settlements and
  refunds gave back, plus one full bucket and what the bucket earns over the elapsed time, plus tolerance and
  roundings: no race between the pools and the store creates credits. What a call gives back is the sum
  \<open>gave_back\<close> of the changes its steps make to the balance or the bucket: negative for an overshoot, and
  with the loan counted again for an overshoot that is paid with a loan (theorem \<open>overshoot_loan_twice\<close>).
\<close>

theorem concurrent_rate:
  assumes nodes: "\<forall>nd \<in> set nodes. node_ok (same_cap ax k c) B M nd \<and> (\<forall>th \<in> set (nodeThreads nd). fresh th)"
    and range: "0 \<le> B" "0 \<le> M" "M \<le> 2 ^ 53" "B + int (length sched) * M < 2 ^ 62"
    and store: "meter_inv ax k c (ms_of_time t0) s" "mem_usable t0"
    and times: "clocks sched lc t0" "\<forall>tk \<in> set sched. mem_usable (tStore tk)"
    and run: "cluster memory_store sched nodes s = (nodes', s')"
  shows "of_int (admitted ax k nodes') \<le>
    of_int (leased ax k nodes lc + tally (gave_back (draw_on ax k) ax k) memory_store sched nodes s)
    + of_int c + earned c (ms_of_time (last (t0 # map tStore sched)) - ms_of_time t0) * (1 + 6 / 2 ^ 53)
    + 2 * f64_eps + of_nat (length sched) * (of_int c / 2 ^ 45)"
proof -
  let ?log = "store_log memory_store sched nodes s" and ?n = "last (t0 # map tStore sched)"
  have c: "0 < c" using meter_invD(2) [OF store(1)] .
  have inv: "mem_inv t0 s" using meter_invD(1) [OF store(1)] store(2) by (simp add: mem_inv_def)
  have clk: "clock_ok (ms_of_time x)" if "mem_usable x" for x using that by (simp add: mem_usable_def clock_ok_def ms_of_time_def)
  note d = memory_log.admitted_draws [OF nodes range inv times run]
  have "admitted ax k nodes' \<le> leased ax k nodes lc + tally (gave_back (draw_on ax k) ax k) memory_store sched nodes s + drawn ax k ?log s"
    using d(1) unfolding op_total_drawn .
  then have a: "(of_int (admitted ax k nodes') :: rat) \<le>
      of_int (leased ax k nodes lc + tally (gave_back (draw_on ax k) ax k) memory_store sched nodes s) + of_int (drawn ax k ?log s)"
    by (metis of_int_add of_int_le_iff)
  note sub = subseq_times [OF log_times clocks_sorted [OF times(1)], of memory_store nodes s]
  have ms: "ms_of_time t0 # map (ms_of_time \<circ> fst) ?log = map ms_of_time (t0 # map fst ?log)" by simp
  have u: "\<forall>x \<in> set (t0 # map tStore sched). mem_usable x" using store(2) times(2) by auto
  have mono: "ms_of_time x \<le> ms_of_time y" if "x \<le> y" "mem_usable x" "mem_usable y" for x y
    using that by (simp add: ms_of_time_def mem_usable_def zdiv_mono1)
  have srt: "sorted (ms_of_time t0 # map (ms_of_time \<circ> fst) ?log)"
    unfolding ms sorted_map using sub(1) by (rule sorted_wrt_mono_rel [rotated]) (use mono u sub(4) in blast)
  have lu: "mem_usable (last (t0 # map fst ?log))" "mem_usable ?n" using u sub(4) last_in_set by (metis list.discI subsetD)+
  have "last (ms_of_time t0 # map (ms_of_time \<circ> fst) ?log) \<le> ms_of_time ?n"
    unfolding ms by (subst last_map) (use mono [OF sub(2) lu] in simp_all)
  then have g: "last (ms_of_time t0 # map (ms_of_time \<circ> fst) ?log) - ms_of_time t0 \<le> ms_of_time ?n - ms_of_time t0" by simp
  have "op_ok opn \<and> uses_cap ax k c opn" if "asked (same_cap ax k c) opn" for opn
    using that by (cases opn) (auto simp: same_cap_def)
  then have "\<forall>(now, opn) \<in> set ?log. clock_ok (ms_of_time now) \<and> op_ok opn \<and> uses_cap ax k c opn"
    using d(2) times(2) clk by fastforce
  from drawn_bounded [OF store(1) clk [OF store(2)] srt this] show ?thesis using a gain_later [OF c g sub(3) [unfolded length_map]] by linarith
qed

section \<open>A loan can be lost to another call\<close>

definition lost_race :: "time \<Rightarrow> string \<Rightarrow> string \<Rightarrow> tick list" where
  "lost_race t rid rid' = replicate 7 (0, t, Inr rid) @ replicate 4 (1, t, Inr rid') @ replicate 2 (0, t, Inr rid)"

lemma interleave_append:
  "interleave S mode (xs @ ys) ths p s = (case interleave S mode xs ths p s of (ths', p', s') \<Rightarrow> interleave S mode ys ths' p' s')"
  by (induction xs arbitrary: ths p s) (auto split: prod.splits)

text \<open>The steps of a check to the loan it credits, to its admission, and after the second debit failed.\<close>

lemma run_to_credit:
  assumes v: "Validate limits = None" and deny: "deny_Get (pDeny p) t key = (None, dc)"
    and miss: "TryDebit (p\<lparr>pDeny := dc\<rparr>) t key limits (clampCosts cost) rid = (None, p2)"
    and loan: "opBorrow S s t key limits (checkSpec (pCfg p2) (clampCosts cost)) = (Inr b, s')" "BrAllowed b"
  shows "interleave S mode (replicate 7 (0, t, Inr rid)) (Checking key limits cost AtValidate # ths) p s =
    (Checking key limits cost (AtRedebit rid) # ths,
     CreditLease (NoteBorrow p2) t key limits (GotRPM b) (GotTPM b) (GotITPM b) (GotOTPM b), s')"
  using assms by (simp add: numeral_eq_Suc)

lemma run_to_admission:
  assumes v: "Validate limits = None" and deny: "deny_Get (pDeny p) t key = (None, dc)"
    and hit: "TryDebit (p\<lparr>pDeny := dc\<rparr>) t key limits (clampCosts cost) rid = (Some d, p')"
  shows "interleave S mode (replicate 4 (1, t, Inr rid)) [th, Checking key limits cost AtValidate] p s =
    ([th, Checking key limits cost (Answered (Inr d))], p', s)"
  using assms by (simp add: numeral_eq_Suc)

lemma run_lost:
  assumes "TryDebit p t key limits (clampCosts cost) rid = (None, p')"
  shows "interleave S mode (replicate 2 (0, t, nid)) (Checking key limits cost (AtRedebit rid) # ths) p s =
    (Checking key limits cost (Answered (Inr (denyDecision limits LimitTypeBackend Second))) # ths,
     p'\<lparr>pDeny := deny_Set (pDeny p') t key LimitTypeBackend Second\<rparr>, s)"
  using assms by (simp add: numeral_eq_Suc)

text \<open>
  (A lost loan.) Two equal checks of a key without a lease race over the in-memory store: the first
  borrows exactly its cost and credits it, the second takes the credits with its first debit, and
  the second debit of the first check fails. The first caller is answered with a backend denial
  and the key is blocked for a second, although the store lent what was asked for: the
  guarantee that a loan admits (theorem \<open>fast_loan_admits\<close>) holds for calls that do not overlap.
\<close>

theorem lost_loan:
  assumes p: "pool_ok p" "cost_ok (clampCosts cost)" "Validate limits = None" "limits_ok limits"
    and inv: "mem_inv t0 s" "t0 \<le> t" "mem_usable t"
    and fresh: "fst (deny_Get (pDeny p) t key) = None" "live p t (cacheKey key) = None"
    and loan: "fst (mem_Borrow s t key limits (checkSpec (pCfg p) (clampCosts cost))) = Inr b" "BrAllowed b"
    and exact: "active ax (Split limits)" "0 < axis_cost ax cost" "axis_got ax b = axis_cost ax cost"
    and later: "t \<le> t'" "t' < t + Second"
  shows "\<exists>d p' s'. interleave memory_store mode (lost_race t rid rid')
      [Checking key limits cost AtValidate, Checking key limits cost AtValidate] p s =
      ([Checking key limits cost (Answered (Inr (denyDecision limits LimitTypeBackend Second))),
        Checking key limits cost (Answered (Inr d))], p', s') \<and>
    Allowed d \<and> ReservationID d = rid' \<and> fst (deny_Get (pDeny p') t' key) \<noteq> None"
proof -
  let ?c = "clampCosts cost" and ?k = "cacheKey key"
  obtain dc where dc: "deny_Get (pDeny p) t key = (None, dc)" using fresh(1) by (metis prod.collapse)
  let ?p1 = "p\<lparr>pDeny := dc\<rparr>"
  have n: "\<not> covers (live ?p1 t ?k) ?c (Split limits)" by (simp add: covers_iff fresh(2))
  define p2 where "p2 = snd (TryDebit ?p1 t key limits ?c rid)"
  have miss: "TryDebit ?p1 t key limits ?c rid = (None, p2)"
    using TryDebit_miss(1) [OF n, of rid] by (metis p2_def prod.collapse)
  note m = TryDebit_miss_ok [OF n, where rid = rid, folded p2_def]
  have b2: "bal ax (NoteBorrow p2) t ?k = 0" for ax using m(5) [of t] by (simp add: bal_def fresh(2))
  obtain s' where br: "opBorrow memory_store s t key limits (checkSpec (pCfg p2) ?c) = (Inr b, s')"
    using loan(1) m(2) by (cases "mem_Borrow s t key limits (checkSpec (pCfg p) ?c)") (simp add: memory_store_def)
  define p4 where "p4 = CreditLease (NoteBorrow p2) t key limits (GotRPM b) (GotTPM b) (GotITPM b) (GotOTPM b)"
  have ok2: "pool_ok (NoteBorrow p2)" using m(1) p(1) by simp
  have ttl: "t < time_add t (LeaseTTL (pCfg (NoteBorrow p2)))" using pool_okD(1) [OF ok2] by (simp add: time_add_def)
  have room: "bal ax (NoteBorrow p2) t ?k \<le> 2 ^ 61" for ax by (simp only: b2) simp
  note lc = memory.loan_covers [OF ok2 p(2) inv p(4) br loan(2) room order_refl ttl, folded p4_def]
  have dc4: "pDeny p4 = dc" using m(3) by (simp add: p4_def CreditLease_def Let_def)
  have g4: "deny_Get (pDeny p4) t key = (None, dc)"
    using dc unfolding dc4 by (auto simp: deny_Get_def split: option.splits if_splits)
  have same: "p4\<lparr>pDeny := dc\<rparr> = p4" using dc4 by simp
  note h = TryDebit_hit [OF lc(1,2) p(2), where rid = rid']
  obtain d p5 where hit: "TryDebit p4 t key limits ?c rid' = (Some d, p5)" "Allowed d" "ReservationID d = rid'"
    using h(1) by (metis prod.collapse)
  note adm = run_to_admission [OF p(3) g4, unfolded same, OF hit(1)]
  have "bal ax p5 t ?k = 0" using h(2) [of ax ?k] lc(3) [of ax ?k] b2 exact by (simp add: hit(1))
  then have n5: "\<not> covers (live p5 t ?k) ?c (Split limits)" using exact(1,2) by (auto simp: covers_iff bal_def)
  obtain p6 where lost: "TryDebit p5 t key limits ?c rid = (None, p6)"
    using TryDebit_miss(1) [OF n5, of rid] by (metis prod.collapse)
  have "interleave memory_store mode (lost_race t rid rid')
      [Checking key limits cost AtValidate, Checking key limits cost AtValidate] p s =
      ([Checking key limits cost (Answered (Inr (denyDecision limits LimitTypeBackend Second))),
        Checking key limits cost (Answered (Inr d))], p6\<lparr>pDeny := deny_Set (pDeny p6) t key LimitTypeBackend Second\<rparr>, s')"
    unfolding lost_race_def interleave_append run_to_credit [OF p(3) dc miss br loan(2)] p4_def [symmetric] prod.case adm
      run_lost [OF lost] ..
  moreover have "fst (deny_Get (deny_Set (pDeny p6) t key LimitTypeBackend Second) t' key) \<noteq> None"
    using later by (simp add: deny_Get_def deny_Set_def time_before_def time_add_def)
  ultimately show ?thesis using hit(2,3) by (intro exI conjI) auto
qed

section \<open>Witnesses\<close>

definition race_cost :: Cost where
  "race_cost = \<lparr>Requests = 10, CTokens = 0, InputTokens = 0, OutputTokens = 0\<rparr>"

lemma race_clamped: "clampCosts race_cost = race_cost" "cost_ok race_cost"
  by (simp_all add: race_cost_def clampCosts_def cost_ok_def amount_ok_def)

lemma race_loan:
  "\<exists>b. fst (mem_Borrow mem_New 1000000000 ex_key ex_limits (checkSpec (normalized DefaultConfig) race_cost)) = Inr b \<and>
     BrAllowed b \<and> GotRPM b = 10"
  by (simp add: mem_Borrow_def borrowClassicLocked_def store_eval ex_defs bucket_eval clampSpec_def checkSpec_def
      zero_BorrowResult_def DefaultConfig_def normalized_def race_cost_def wantGot_def RemainingInt_def)

lemma NewPool_live [simp]: "live (NewPool cfg) t k = None" "bal ax (NewPool cfg) t k = 0"
  by (simp_all add: live_def bal_def NewPool_def)

lemma ex_store: "mem_inv 1000000000 mem_New" "mem_usable 1000000000"
  using store_ok_New by (simp_all add: mem_inv_def mem_usable_def in64_def)

theorem lost_loan_witness:
  "\<exists>d p' s'. interleave memory_store FailClosed (lost_race 1000000000 ''a'' ''b'')
      [Checking ex_key ex_limits race_cost AtValidate, Checking ex_key ex_limits race_cost AtValidate]
      (NewPool DefaultConfig) mem_New =
      ([Checking ex_key ex_limits race_cost (Answered (Inr (denyDecision ex_limits LimitTypeBackend Second))),
        Checking ex_key ex_limits race_cost (Answered (Inr d))], p', s') \<and>
    Allowed d \<and> ReservationID d = ''b'' \<and> fst (deny_Get (pDeny p') 1500000000 ex_key) \<noteq> None"
proof -
  obtain b where b: "fst (mem_Borrow mem_New 1000000000 ex_key ex_limits (checkSpec (normalized DefaultConfig) race_cost)) = Inr b"
    "BrAllowed b" "GotRPM b = 10" using race_loan by blast
  show ?thesis
    by (rule lost_loan [OF NewPool_ok _ ex_valid ex_store(1) order_refl ex_store(2), where ax = Rpm and b = b])
       (use b race_clamped in \<open>simp_all add: deny_Get_def NewDenyCache_def race_cost_def [symmetric] Second_def\<close>,
        simp_all add: race_cost_def)
qed

text \<open>Two limiters; the first checks twice and settles the first reservation before the second gets its turns.\<close>

definition ex_limiters :: "node list" where
  "ex_limiters =
     [\<lparr>nodeMode = FailClosed, nodeThreads = [Checking ex_key ex_limits ex_cost AtValidate, Checking ex_key ex_limits ex_cost AtValidate, Settling ''a'' (Whole 10) SLookup],
       nodePool = NewPool DefaultConfig\<rparr>,
      \<lparr>nodeMode = FailOpen, nodeThreads = [Checking ex_key ex_limits ex_cost AtValidate], nodePool = NewPool DefaultConfig\<rparr>]"

definition ex_sched :: "turn list" where
  "ex_sched = concat (map (\<lambda>(n, i, rid). replicate 8
     \<lparr>tNode = n, tThread = i, tLocal = 1000000000, tStore = 1000000000, tID = Inr rid\<rparr>) [(0, 0, ''a''), (0, 1, ''b''), (0, 2, ''''), (1, 0, ''c'')])"

lemma ex_admitted: "admitted Tpm (cacheKey ex_key) (fst (cluster memory_store ex_sched ex_limiters mem_New)) = 40"
  by code_simp

lemma ex_given_back:
  "tally (gave_back (draw_on Tpm (cacheKey ex_key)) Tpm (cacheKey ex_key)) memory_store ex_sched ex_limiters mem_New = 10"
  by code_simp

lemma ex_sched_set: "tk \<in> set ex_sched \<Longrightarrow> tStore tk = 1000000000"
  by (auto simp: ex_sched_def)

lemma ex_sched_last: "last (1000000000 # map tStore ex_sched) = 1000000000" "length ex_sched = 32"
  by (simp_all add: ex_sched_def numeral_eq_Suc)

lemma ex_sched_clocks: "clocks ex_sched (\<lambda>_. 0) 1000000000"
  by code_simp

theorem concurrent_rate_witness:
  "admitted Tpm (cacheKey ex_key) (fst (cluster memory_store ex_sched ex_limiters mem_New)) = 40 \<and>
   of_int (admitted Tpm (cacheKey ex_key) (fst (cluster memory_store ex_sched ex_limiters mem_New)))
     \<le> (10 + 120 + 2 * f64_eps + 32 * (120 / 2 ^ 45) :: rat)"
proof
  let ?C = "cluster memory_store ex_sched ex_limiters mem_New"
  have inv: "meter_inv Tpm (cacheKey ex_key) 120 (ms_of_time 1000000000) mem_New"
    using store_ok_New by (simp add: meter_inv_def mem_New_def)
  have nd: "\<forall>nd \<in> set ex_limiters. node_ok (same_cap Tpm (cacheKey ex_key) 120) 0 500 nd \<and> (\<forall>th \<in> set (nodeThreads nd). fresh th)"
    using ex_valid by (simp add: ex_limiters_def node_ok_def same_cap_def pool_within_def NewPool_def DefaultConfig_def normalized_def
        Second_def ex_defs)
  have l: "leased Tpm (cacheKey ex_key) ex_limiters (\<lambda>_. 0) = 0"
    by (simp add: leased_def ex_limiters_def numeral_2_eq_2)
  have "of_int (admitted Tpm (cacheKey ex_key) (fst ?C)) \<le>
      of_int (leased Tpm (cacheKey ex_key) ex_limiters (\<lambda>_. 0)
        + tally (gave_back (draw_on Tpm (cacheKey ex_key)) Tpm (cacheKey ex_key)) memory_store ex_sched ex_limiters mem_New)
      + of_int 120 + earned 120 (ms_of_time (last (1000000000 # map tStore ex_sched)) - ms_of_time 1000000000) * (1 + 6 / 2 ^ 53)
      + 2 * f64_eps + of_nat (length ex_sched) * (of_int 120 / 2 ^ 45)"
    by (rule concurrent_rate [OF nd _ _ _ _ inv ex_store(2) ex_sched_clocks, where nodes' = "fst ?C" and s' = "snd ?C"])
       (simp_all add: ex_sched_last ex_sched_set ex_store)
  then show "of_int (admitted Tpm (cacheKey ex_key) (fst ?C)) \<le> (10 + 120 + 2 * f64_eps + 32 * (120 / 2 ^ 45) :: rat)"
    unfolding l ex_given_back ex_sched_last by (simp add: earned_def)
qed (rule ex_admitted)

end
