(* ===== verification/Cluster_Rate.thy ===== *)
theory Cluster_Rate
  imports Concurrent_Rate Redis_Rate
begin

text \<open>
  Several processes over one Redis server, the deployment the program is made for. Every process is a
  node with its own pool, its own clock and its own threads; the scripts on the server are atomic and read the
  server's clock.
\<close>

section \<open>Loans of the Redis store\<close>

lemma loan_bound:
  assumes x: "amount x" and M: "n \<le> M" "m \<le> M" "0 \<le> M" "M \<le> 2 ^ 53"
  shows "i64_of_f64 (loan x (lua_clamp (f64_of_int n)) (lua_clamp (f64_of_int m))) \<le> M"
proof -
  let ?g = "loan x (lua_clamp (f64_of_int n)) (lua_clamp (f64_of_int m))"
  have "lua_clamp (f64_of_int j) \<le> of_int M" if "j \<le> M" for j
    using f64_of_int_mono [OF that] M(3,4) by (simp add: lua_clamp_def f64_of_int_exact)
  then have "?g \<le> of_int M" using M(1,2) by (simp add: loan_def min_le_iff_disj)
  moreover have "?g = of_int (i64_of_f64 ?g)" using loan_int [OF x, of n m] by simp
  ultimately show ?thesis by (metis of_int_le_iff)
qed

lemma redis_borrow_amount:
  assumes ok: "redis_ok R H D s" and l: "redis_limits limits"
    and b: "fst (redis_Borrow R s t key limits spec) = Inr b"
  shows "if BrAllowed b \<and> active ax (Split limits)
    then \<exists>x. amount x \<and> axis_got ax b = i64_of_f64 (loan x (lua_clamp (f64_of_int (axis_min ax spec))) (lua_clamp (f64_of_int (axis_chunk ax spec))))
    else axis_got ax b = 0"
proof -
  have x: "amount (rtok R s t key limits ax)" for ax
    unfolding rtok_def by (intro lua_refill_amount [OF ok] amount_limit redis_limitsD [OF l])
  have "if BrAllowed b \<and> active ax (Split limits)
    then axis_got ax b = i64_of_f64 (loan (rtok R s t key limits ax) (lua_clamp (f64_of_int (axis_min ax spec))) (lua_clamp (f64_of_int (axis_chunk ax spec))))
    else axis_got ax b = 0"
    using b unfolding redis_Borrow_def bucketKeys_rkey bucketKeysIO_rkey lua_borrow_def lua_borrow_io_def Let_def
      lua_remaining_def want_got_loan loan_def [symmetric]
    by (cases ax) (auto simp: rtok_def parseBorrow_def parseBorrowIO_def reply_arr_def zero_BorrowResult_def run_script_def
        split: option.splits if_splits fault.splits)
  then show ?thesis using x by auto
qed

section \<open>The rate limit of a cluster\<close>

interpretation redis_loans: bounded_loans "redis_store R" "redis_inv R H D" "\<lambda>t. True" redis_limits for R H D
proof (unfold_locales, goal_cases)
  case (1 t0 s t limits key spec b s' ax M)
  then have "fst (redis_Borrow R s t key limits spec) = Inr b" by (simp add: redis_store_def)
  then obtain x where x: "amount x" "axis_got ax b = i64_of_f64 (loan x (lua_clamp (f64_of_int (axis_min ax spec)))
      (lua_clamp (f64_of_int (axis_chunk ax spec))))"
    using redis_borrow_amount [of R H D s limits t key spec b ax] 1 by (auto simp: redis_inv_def)
  show ?case unfolding x(2) by (rule loan_bound [OF x(1) 1(8-11)])
qed

text \<open>Checks that use the bucket \<open>rk\<close> with capacity \<open>c\<close>; the keys that share the lease \<open>k\<close> share that bucket.\<close>

definition redis_same_cap :: "axis \<Rightarrow> string \<Rightarrow> string \<Rightarrow> int64 \<Rightarrow> Key \<Rightarrow> Limits \<Rightarrow> bool" where
  "redis_same_cap ax k rk c key limits \<longleftrightarrow> redis_limits limits \<and> (cacheKey key = k \<longrightarrow> rkey ax key = rk) \<and>
     (rkey ax key = rk \<and> active ax (Split limits) \<longrightarrow> axis_limit ax limits = c)"

interpretation redis_log: lending_log "redis_store R" "redis_inv R H D" "\<lambda>t. True" redis_limits ax k "redis_draw_on R H D ax rk"
  "redis_same_cap ax k rk c" for R H D ax k rk c
proof (unfold_locales, goal_cases)
  case (2 t0 s now key limits spec)
  have l: "redis_limits limits" and ok: "redis_ok R H D s" using 2 by (simp_all add: redis_same_cap_def redis_inv_def)
  show ?case
  proof (cases "fst (redis_Borrow R s now key limits spec)")
    case (Inr b)
    have "BrAllowed b \<Longrightarrow> 0 \<le> axis_got ax b"
      using redis_borrow_covers [OF ok l Inr, of ax] by (cases "active ax (Split limits)") auto
    then show ?thesis
      using redis_borrow_amount [OF ok l Inr, of ax] 2(4) Inr
      by (auto simp: redis_store_def redis_draw_on_def redis_same_cap_def)
  qed (simp add: redis_store_def redis_draw_on_def)
qed (simp add: redis_same_cap_def)

lemma apply_op_redis: "apply_op (redis_store R) opn now s = redis_exec R opn now s"
  by (cases opn) (simp_all add: redis_store_def)

lemma op_total_redis: "op_total (redis_draw_on R H D ax rk) (redis_store R) ops s = redis_drawn R H D ax rk ops s"
  unfolding redis_drawn_def by (induction ops arbitrary: s) (auto simp: apply_op_redis)

text \<open>
  C4 (the rate limit of a cluster). Take any number of processes with the fast path over one Redis server with
  a working connection, and any number of calls of \<^verbatim>\<open>Check\<close>, \<^verbatim>\<open>Settle\<close>, \<^verbatim>\<open>SettleIO\<close> and \<^verbatim>\<open>Refund\<close> in each, interleaved in
  any way at the boundaries of their mutex sections and store operations, some of them possibly unfinished at the end.
  The clocks of the processes may differ from each other and from the server's; none of them goes backwards. On every
  axis, the cost of all checks that were admitted anywhere for a key is at most what the leases held at the start
  and what settlements and refunds gave back (an overshoot counts against it), plus one full bucket and what the bucket earns over the time elapsed on the
  server, plus the roundings of the scripts.
\<close>

theorem cluster_rate:
  assumes nodes: "\<forall>nd \<in> set nodes. node_ok (redis_same_cap ax k rk c) B M nd \<and> (\<forall>th \<in> set (nodeThreads nd). fresh th)"
    and range: "0 \<le> B" "0 \<le> M" "M \<le> 2 ^ 53" "B + int (length sched) * M < 2 ^ 62"
    and store: "rmeter_inv R H D ax rk c (t0 div 1000000) s" "\<forall>s t. no_faults R s t" "rusable (t0 div 1000000)"
    and times: "clocks sched lc t0" "\<forall>tk \<in> set sched. rusable (tStore tk div 1000000)"
    and run: "cluster (redis_store R) sched nodes s = (nodes', s')"
  shows "of_int (admitted ax k nodes') \<le>
    of_int (leased ax k nodes lc + tally (gave_back (redis_draw_on R H D ax rk) ax k) (redis_store R) sched nodes s)
    + of_int c + earned c (last (t0 # map tStore sched) div 1000000 - t0 div 1000000) * (1 + 6 / 2 ^ 53)
    + of_nat (length sched) * (of_int c / 2 ^ 45)"
proof -
  let ?log = "store_log (redis_store R) sched nodes s" and ?n = "last (t0 # map tStore sched)"
  let ?t = "\<lambda>t. t div 1000000" and ?ls = "redis_labels R H D ax rk (store_log (redis_store R) sched nodes s) s"
  have c: "0 < c" and ok: "redis_inv R H D t0 s" using store(1) by (simp_all add: rmeter_inv_def redis_inv_def)
  note d = redis_log.admitted_draws [where R = R and H = H and D = D, OF nodes range ok times(1) _ run]
  have "admitted ax k nodes' \<le> leased ax k nodes lc
      + tally (gave_back (redis_draw_on R H D ax rk) ax k) (redis_store R) sched nodes s + redis_drawn R H D ax rk ?log s"
    using d(1) unfolding op_total_redis by simp
  then have a: "(of_int (admitted ax k nodes') :: rat) \<le> of_int (leased ax k nodes lc
      + tally (gave_back (redis_draw_on R H D ax rk) ax k) (redis_store R) sched nodes s) + of_int (redis_drawn R H D ax rk ?log s)"
    by (metis of_int_add of_int_le_iff)
  note sub = subseq_times [OF log_times clocks_sorted [OF times(1)], of "redis_store R" nodes s]
  have ms: "?t t0 # map (\<lambda>p. ?t (fst p)) ?log = map ?t (t0 # map fst ?log)" by (simp add: comp_def)
  have srt: "sorted (?t t0 # map (\<lambda>p. ?t (fst p)) ?log)"
    unfolding ms sorted_map using sub(1) by (rule sorted_wrt_mono_rel [rotated]) (simp add: zdiv_mono1)
  have "last (?t t0 # map (\<lambda>p. ?t (fst p)) ?log) \<le> ?t ?n"
    unfolding ms by (subst last_map) (use zdiv_mono1 [OF sub(2)] in simp_all)
  then have g: "last (?t t0 # map (\<lambda>p. ?t (fst p)) ?log) - ?t t0 \<le> ?t ?n - ?t t0" by simp
  have "redis_uses ax rk c opn" if "asked (redis_same_cap ax k rk c) opn" for opn
    using that by (cases opn) (auto simp: redis_same_cap_def)
  then have ops: "\<forall>(now, opn) \<in> set ?log. now \<in> tStore ` set sched \<and> redis_uses ax rk c opn" using d(2) by blast
  have r: "rmeter.run R H D ax rk c ?ls s (redis_run R ?log s)"
    by (rule redis_labels_run [OF store(2)]) (use ops in blast)
  have u: "\<forall>t \<in> fst ` set ?ls. rusable t"
    using ops times(2) unfolding list.set_map [symmetric] redis_labels_fst by fastforce
  have len: "length ?ls = length ?log" using redis_labels_fst [of R H D ax rk ?log s] by (metis length_map)
  have "of_int (redis_drawn R H D ax rk ?log s) \<le> of_int c + (meter_gain c (last (?t t0 # map (\<lambda>p. ?t (fst p)) ?log) - ?t t0)
      + 2 * of_nat (length ?log) * meter_slack c)"
    using rmeter.run_draw_bounded [OF r store(1,3) _ u] srt unfolding redis_labels_fst redis_drawn_def len by simp
  then show ?thesis using a gain_later [OF c g sub(3) [unfolded length_map]] by linarith
qed

section \<open>Witness\<close>

definition ex_node :: node where
  "ex_node = \<lparr>nodeMode = FailClosed, nodeThreads = [Checking ex_rkey ex_rlimits ex_rcost AtValidate],
     nodePool = NewPool DefaultConfig\<rparr>"

text \<open>Two processes, the clock of the second a minute ahead, take turns.\<close>

definition ex_turns :: "turn list" where
  "ex_turns = concat (replicate 8
     [\<lparr>tNode = 0, tThread = 0, tLocal = 1700000000000000000, tStore = 1700000000000000000, tID = Inr ''a''\<rparr>,
      \<lparr>tNode = 1, tThread = 0, tLocal = 1700000060000000000, tStore = 1700000000000000000, tID = Inr ''b''\<rparr>])"

lemma ex_cluster:
  "admitted Tpm (cacheKey ex_rkey) (fst (cluster (redis_store redis_map) ex_turns [ex_node, ex_node] redis_empty)) = 800"
  by code_simp

lemma ex_turns_set: "tk \<in> set ex_turns \<Longrightarrow> tStore tk = 1700000000000000000"
  by (auto simp: ex_turns_def)

lemma ex_turns_last: "last (1700000000000000000 # map tStore ex_turns) = 1700000000000000000" "length ex_turns = 16"
  by (simp_all add: ex_turns_def numeral_eq_Suc)

lemma ex_clocks: "clocks ex_turns (\<lambda>_. 0) 1700000000000000000"
  by code_simp

theorem cluster_rate_witness:
  "admitted Tpm (cacheKey ex_rkey) (fst (cluster (redis_store redis_map) ex_turns [ex_node, ex_node] redis_empty)) = 800 \<and>
   of_int (admitted Tpm (cacheKey ex_rkey) (fst (cluster (redis_store redis_map) ex_turns [ex_node, ex_node] redis_empty)))
     \<le> (1000 + 16 * (1000 / 2 ^ 45) :: rat)"
proof
  let ?C = "cluster (redis_store redis_map) ex_turns [ex_node, ex_node] redis_empty"
  have inv: "rmeter_inv redis_map rmap_H rmap_D Tpm (rkey Tpm ex_rkey) 1000 (1700000000000000000 div 1000000) redis_empty"
    by (rule redis_empty_metered) (simp_all add: rlimit_def)
  have nd: "\<forall>nd \<in> set [ex_node, ex_node]. node_ok (redis_same_cap Tpm (cacheKey ex_rkey) (rkey Tpm ex_rkey) 1000) 0 500 nd \<and>
      (\<forall>th \<in> set (nodeThreads nd). fresh th)"
    by (simp add: ex_node_def node_ok_def redis_same_cap_def pool_within_def NewPool_def DefaultConfig_def normalized_def Second_def redis_limits_def
        ex_rlimits_def ex_rcost_def rlimit_def)
  have l: "leased Tpm (cacheKey ex_rkey) [ex_node, ex_node] (\<lambda>_. 0) = 0"
    by (simp add: leased_def ex_node_def bal_def live_def NewPool_def numeral_2_eq_2)
  have gb: "tally (gave_back (redis_draw_on redis_map rmap_H rmap_D Tpm (rkey Tpm ex_rkey)) Tpm (cacheKey ex_rkey))
      (redis_store redis_map) ex_turns [ex_node, ex_node] redis_empty = 0"
    by (rule tally_checks) (simp add: ex_node_def)
  have "of_int (admitted Tpm (cacheKey ex_rkey) (fst ?C)) \<le>
      of_int (leased Tpm (cacheKey ex_rkey) [ex_node, ex_node] (\<lambda>_. 0)
        + tally (gave_back (redis_draw_on redis_map rmap_H rmap_D Tpm (rkey Tpm ex_rkey)) Tpm (cacheKey ex_rkey))
            (redis_store redis_map) ex_turns [ex_node, ex_node] redis_empty)
      + of_int 1000 + earned 1000 (last (1700000000000000000 # map tStore ex_turns) div 1000000 - 1700000000000000000 div 1000000)
        * (1 + 6 / 2 ^ 53) + of_nat (length ex_turns) * (of_int 1000 / 2 ^ 45)"
    by (rule cluster_rate [OF nd _ _ _ _ inv _ _ ex_clocks, where nodes' = "fst ?C" and s' = "snd ?C"])
       (use redis_map_no_faults in \<open>simp_all add: rusable_def ex_turns_last ex_turns_set\<close>)
  then show "of_int (admitted Tpm (cacheKey ex_rkey) (fst ?C)) \<le> (1000 + 16 * (1000 / 2 ^ 45) :: rat)"
    unfolding l gb ex_turns_last by (simp add: earned_def)
qed (rule ex_cluster)

end
