(* ===== verification/Spec2Isabelle.thy ===== *)
theory Spec2Isabelle
  imports Redis_Rate Adapters Cluster_Rate
begin

text \<open>
  A verification of valve, a rate limiter for requests and LLM tokens.

  \<^bold>\<open>The program.\<close> A client asks the limiter (\<^verbatim>\<open>pkg/limiter\<close>) whether a request of a key (a subject and
  a model) may go ahead under given limits per minute and at a given cost, and settles or
  refunds the reservation it gets when the true usage is known. There is a budget for requests and
  either one for tokens (classic mode) or one for input and one for output tokens (split mode);
  every budget is a token bucket (\<^verbatim>\<open>pkg/bucket\<close>) refilled continuously. The buckets and the
  reservations live in a store (\<^verbatim>\<open>pkg/store\<close>), in process (\<^verbatim>\<open>memory\<close>) or in Redis (\<^verbatim>\<open>redis\<close>, where Lua
  scripts do the work). On the fast path the limiter borrows chunks from the store and serves
  requests from a local lease pool with a cache of denials (\<^verbatim>\<open>pkg/lease\<close>). Around the limiter are a
  metrics wrapper, a log of denials, rate-limit response headers, middlewares for HTTP and gRPC, the
  daemon \<^verbatim>\<open>cmd/valved\<close>, helpers for LLM traffic (\<^verbatim>\<open>pkg/llm\<close>), and example servers.

  \<^bold>\<open>The language.\<close> \<open>Valve_Prelude\<close>: 64-bit integers that wrap. \<open>Go_Float\<close>: doubles as the
  rationals they denote, every operation the exact one followed by round-to-nearest-even; the interface
  \<open>nearest_rounding\<close> carries the error bounds. \<open>Go_Time\<close>, \<open>Go_Text\<close>, \<open>Go_Format\<close>, \<open>Go_Json\<close> and
  \<open>Go_Http\<close>: instants and durations, \<^verbatim>\<open>strconv\<close> and \<^verbatim>\<open>strings\<close>, the printing of instants, the decoder and
  encoder of \<^verbatim>\<open>encoding/json\<close> on byte strings, response writers, headers and contexts.

  \<^bold>\<open>The components\<close>, with the files under \<^verbatim>\<open>src/\<close> they translate:
  \<^item> \<open>Api\<close>, \<open>Store_Types\<close>: \<^verbatim>\<open>pkg/api\<close> and \<^verbatim>\<open>pkg/store/store.go\<close>, the exchanged data, the errors and the
    store interface, a record of operations over the state of a backend. \<open>Axes\<close> names the four budgets,
    so that a statement covers all of them and both modes at once.
  \<^item> \<open>Bucket\<close>: \<^verbatim>\<open>pkg/bucket/bucket.go\<close>. \<open>TryConsume\<close>, \<open>Credit\<close> and \<open>DebitFloor\<close> keep the bucket well
    formed; the waiting time of a denial is enough.
  \<^item> \<open>Metering\<close>: the interface \<open>metered\<close> of a resource that time refills and steps draw from, with the bound
    on what any run of steps draws, and its laws for one bucket.
  \<^item> \<open>Memory_Store\<close>: \<^verbatim>\<open>pkg/store/memory/memory.go\<close>. \<open>Memory_Axis\<close> and \<open>Memory_Invariant\<close> describe every
    operation by its effect on one budget and prove the invariant; \<open>Memory_Rate\<close> interprets \<open>metered\<close> and
    gets the rate limit; \<open>Memory_Lifecycle\<close> has the abstract protocol of a reservation and the proof that
    the store refines it, with its errors; \<open>Memory_Accounting\<close> says what each operation does to the token
    counts.
  \<^item> \<open>Redis_Server\<close>: the server, a parameter with the documented behaviour of its hash commands as the
    hypothesis \<open>redis_laws\<close>, and a server that satisfies it. \<open>Redis_Scripts\<close>: the ten scripts of
    \<^verbatim>\<open>pkg/store/redis/lua\<close>. \<open>Redis_Store\<close>: \<^verbatim>\<open>pkg/store/redis/redis.go\<close>. \<open>Redis_Invariant\<close>: every operation keeps
    the data in Redis well formed, whichever requests or replies are lost. \<open>Redis_Agreement\<close>: a check
    decides and debits as in the in-memory store. \<open>Redis_Lifecycle\<close>: the same abstract
    reservation protocol, and what a repeated settlement returns. \<open>Redis_Rate\<close>: every operation by its
    effect on one bucket, the second interpretation of \<open>metered\<close>, and the rate limit.
  \<^item> \<open>Lease_Pool\<close>, \<open>Lease_Facts\<close>: \<^verbatim>\<open>pkg/lease\<close>, with exact integer accounting of leases and the window of
    the deny cache.
  \<^item> \<open>Limiter\<close>: \<^verbatim>\<open>pkg/limiter/limiter.go\<close> over any store. \<open>Store_Contract\<close> is the interface it relies on,
    interpreted for both stores; \<open>Limiter_Facts\<close> proves the fast path and the fail modes from it.
  \<^item> \<open>Concurrent\<close>: \<^verbatim>\<open>Check\<close>, \<^verbatim>\<open>Settle\<close>, \<^verbatim>\<open>SettleIO\<close> and \<^verbatim>\<open>Refund\<close> on the fast path as threads whose steps are the
    sections under a mutex, run in the order of an arbitrary schedule, in one process or in several that share a
    store and have clocks of their own; a thread alone computes what the sequential model does. \<open>Pool_Effects\<close>:
    what every method of the pool does to the balances, within the bounds of 64 bits. \<open>Concurrent_Accounting\<close>
    and \<open>Cluster_Accounting\<close>: the conservation of credits under every interleaving, from the interfaces
    \<open>bounded_loans\<close> (a store that lends no more than it was asked for) and \<open>lending_log\<close> (whose loans draw on a
    bucket). \<open>Concurrent_Rate\<close> and \<open>Cluster_Rate\<close> interpret both for the two stores: the rate limit for any
    number of processes over the in-memory store and over Redis, and the race in which a call loses its loan.
  \<^item> \<open>Limiter_Api\<close>: \<^verbatim>\<open>pkg/api/limiter.go\<close> as the interface \<open>api_limiter\<close>, provided by the limiter and again by
    the metrics wrapper \<open>Observed\<close> (\<^verbatim>\<open>pkg/metrics\<close>), which changes nothing and counts right.
  \<^item> \<open>Headers\<close>, \<open>Logx\<close>, \<open>Middleware\<close>: \<^verbatim>\<open>pkg/headers\<close>, \<^verbatim>\<open>pkg/logx\<close>, \<^verbatim>\<open>pkg/middleware\<close>. Only admitted requests
    reach a handler, and a client that waits as it is told is admitted.
  \<^item> \<open>Valved\<close>: \<^verbatim>\<open>cmd/valved\<close>, both servers, which agree, and the set-up from the environment.
  \<^item> \<open>Llm\<close>: \<^verbatim>\<open>pkg/llm\<close>, the estimate, the gate, the parsing of usage and the counters.
  \<^item> \<open>Proxy\<close>: \<^verbatim>\<open>examples/openai-proxy\<close>: a reservation is settled or refunded exactly once.
  \<^item> \<open>Adapters\<close>: the Gin and Echo examples and the set-up of the proxy; how many requests get through.

  \<^bold>\<open>How to read the model.\<close> A method is a function from the state (and its arguments) to a result and
  the new state. The clock readings of a call, the random ids it draws, the outcome of a call to an
  upstream service, SHA-256, the web frameworks and the Redis server are arguments. An operation
  under a mutex, and a Lua script, is one step; calls run one after another, except in \<open>Concurrent\<close> and
  the theories on top of it, where the steps of checks, settlements and refunds interleave (a settlement or refund
  in Redis, which reads the mode of the reservation before its script runs, counts as one step there: no script
  changes the mode of a reservation).

  \<^bold>\<open>Bounds.\<close> Doubles are not fused (no FMA), as on amd64. Limits are at most \<open>2 ^ 53\<close> (below it for
  Redis), so that a double holds them exactly; reported usage is below \<open>2 ^ 62\<close> (at most \<open>2 ^ 53\<close> in the
  statements about concurrent calls); the clock of a store
  does not run backwards in the statements about rates (the invariant of the Redis data needs no such
  assumption). The waiting time is proved sufficient up to 250000 units per minute, where the
  roundings of the refills stay below the tolerance of the comparison; for a bucket of 50 million it is not (lemma
  \<open>wait_too_short\<close>). The comparison of the two stores is for costs up
  to \<open>10 ^ 8\<close> that are not within the tolerance \<open>1e-9\<close> of the balance, which only one of them has.
  The parser of JSON and all loops are total functions; the one that may wait forever (the stream
  handler of the proxy) is partial, and it is proved when it returns. The scanner of a stream gives
  up on lines of a mebibyte, which is the constant in the source.

  \<^bold>\<open>Not modelled.\<close> The generated protocol code (its messages are records of the same fields); opening
  sockets, serving, signals and the shutdown of servers; the loading of scripts (\<^verbatim>\<open>redisstore.New\<close>);
  the Prometheus library (its calls are recorded); contexts as cancellation; \<^verbatim>\<open>Close\<close> at the same time as other
  calls. Redis may not evict keys: an evicted bucket is
  a full one.
\<close>

end
